(* ===== verification/Prelude.thy ===== *)
theory Prelude
  imports Main "HOL-Library.Word"
begin

text \<open>
  Shared vocabulary of the development: the C++ integer types at their width, the automation
  collections, the association lists that stand for the standard library's containers, and
  the interfaces of a keyed table (\<open>find\<close>, \<open>erase\<close>, insertion) that several classes of the
  library share.
\<close>

section \<open>C++ types\<close>

type_synonym u8 = "8 word"
type_synonym u16 = "16 word"
type_synonym u32 = "32 word"
type_synonym u64 = "64 word"

text \<open>A \<open>char\<close> or \<open>uint8_t\<close> is a byte; a \<open>void *\<close> is its address.\<close>

type_synonym byte = u8
type_synonym ptr = u64

section \<open>Automation collections\<close>

named_theorems ops \<open>definitions of the operations, unfolded by case analysis\<close>
named_theorems inv_pres \<open>an operation preserves its component's invariant\<close>

section \<open>Words\<close>

lemma unat_lt_2p: "unat (x :: 'a::len word) < 2 ^ LENGTH('a)"
  by (rule unsigned_less)

lemma unat_plus_one_less:
  fixes x y :: "'a::len word"
  assumes "x < y"
  shows "unat (x + 1) = Suc (unat x)"
proof -
  have "unat x < unat y" using assms by (simp add: word_less_nat_alt)
  then have "Suc (unat x) < 2 ^ LENGTH('a)"
    using unat_lt_2p [of y] by linarith
  then show ?thesis by (simp add: unat_word_ariths)
qed

lemma word_plus_one_eq_0_iff: "(x :: 'a::len word) + 1 = 0 \<longleftrightarrow> x = - 1"
  by (metis add_diff_cancel_right' diff_0 add.left_inverse)

lemma word_le_plus_one_iff: "(x :: 'a::len word) \<le> x + 1 \<longleftrightarrow> x \<noteq> - 1"
proof (cases "x = - 1")
  case True
  then show ?thesis by simp
next
  case False
  then have "x < - 1" by (simp add: word_order.not_eq_extremum)
  then have "unat (x + 1) = Suc (unat x)" by (rule unat_plus_one_less)
  with False show ?thesis by (simp add: word_le_nat_alt)
qed

lemma ucast_of_nat_down: "(ucast (of_nat n :: u64) :: u32) = of_nat n"
  by (rule bit_word_eqI) (simp add: bit_simps)

lemma word_from_unat: "unat w = n \<Longrightarrow> (w :: 'a::len word) = of_nat n"
  by (metis of_nat_unat ucast_id)

lemma word_le_or: "(x :: 'a::len word) \<le> or x y"
proof -
  have "x = and (or x y) x" by (rule bit_word_eqI) (auto simp: bit_simps)
  also have "\<dots> \<le> or x y" by (metis and.commute word_and_le1)
  finally show ?thesis .
qed

lemma unat_of_nat_bounded: "n < 2 ^ LENGTH('a) \<Longrightarrow> unat (of_nat n :: 'a::len word) = n"
  by (simp add: unat_of_nat)

section \<open>Numbers as text\<close>

text \<open>\<open>operator<<\<close> of a number that is not negative writes its decimal digits.\<close>

fun show_nat :: "nat \<Rightarrow> string" where
  "show_nat n = (if n < 10 then [char_of (48 + n)]
     else show_nat (n div 10) @ [char_of (48 + n mod 10)])"

declare show_nat.simps [simp del]

section \<open>Containers\<close>

text \<open>
  \<open>std::unordered_map\<close> as an association list in its iteration order: \<open>emplace\<close> keeps an
  existing entry, \<open>erase\<close> removes the entry of the key.
\<close>

definition umap_find :: "('k \<times> 'v) list \<Rightarrow> 'k \<Rightarrow> 'v option" where
  "umap_find m k = map_of m k"

definition umap_emplace :: "'k \<Rightarrow> 'v \<Rightarrow> ('k \<times> 'v) list \<Rightarrow> ('k \<times> 'v) list" where
  "umap_emplace k v m = (if k \<in> fst ` set m then m else (k, v) # m)"

definition umap_erase :: "'k \<Rightarrow> ('k \<times> 'v) list \<Rightarrow> ('k \<times> 'v) list" where
  "umap_erase k m = filter (\<lambda>e. fst e \<noteq> k) m"

definition umap_ok :: "('k \<times> 'v) list \<Rightarrow> bool" where
  "umap_ok m \<longleftrightarrow> distinct (map fst m)"

text \<open>
  \<open>std::map\<close> as a partial function: \<open>operator[]\<close> on the left of an assignment
  overwrites, \<open>erase\<close> removes.
\<close>

definition smap_assign :: "'k \<Rightarrow> 'v \<Rightarrow> ('k \<rightharpoonup> 'v) \<Rightarrow> ('k \<rightharpoonup> 'v)" where
  "smap_assign k v m = m(k \<mapsto> v)"

definition smap_erase :: "'k \<Rightarrow> ('k \<rightharpoonup> 'v) \<Rightarrow> ('k \<rightharpoonup> 'v)" where
  "smap_erase k m = m(k := None)"

lemma umap_find_Nil [simp]: "umap_find [] k = None"
  by (simp add: umap_find_def)

lemma umap_find_emplace:
  "umap_find (umap_emplace k v m) =
     (case umap_find m k of None \<Rightarrow> (umap_find m)(k \<mapsto> v) | Some _ \<Rightarrow> umap_find m)"
  by (auto simp: umap_find_def umap_emplace_def fun_eq_iff map_of_eq_None_iff
      split: option.splits dest: map_of_SomeD)
     (metis image_eqI map_of_SomeD option.exhaust_sel fst_conv)+

lemma umap_find_erase: "umap_find (umap_erase k m) = (umap_find m)(k := None)"
  by (induction m) (auto simp: umap_find_def umap_erase_def fun_eq_iff)

lemma umap_ok_emplace: "umap_ok m \<Longrightarrow> umap_ok (umap_emplace k v m)"
  by (auto simp: umap_ok_def umap_emplace_def)

lemma umap_ok_erase: "umap_ok m \<Longrightarrow> umap_ok (umap_erase k m)"
  by (auto simp: umap_ok_def umap_erase_def distinct_map inj_on_def)

lemma umap_ok_filter: "umap_ok m \<Longrightarrow> umap_ok (filter P m)"
  by (auto simp: umap_ok_def distinct_map inj_on_def)

lemma umap_find_in_set: "umap_ok m \<Longrightarrow> umap_find m k = Some v \<longleftrightarrow> (k, v) \<in> set m"
  by (simp add: umap_ok_def umap_find_def)

lemma umap_find_filter:
  assumes "umap_ok m"
  shows "umap_find (filter P m) k =
     (case umap_find m k of None \<Rightarrow> None | Some v \<Rightarrow> if P (k, v) then Some v else None)"
  using assms
proof (induction m)
  case Nil
  then show ?case by simp
next
  case (Cons e m)
  then show ?case
    by (cases e) (auto simp: umap_ok_def umap_find_def map_of_eq_None_iff image_iff
        split: option.splits)
qed

section \<open>The table interfaces\<close>

text \<open>
  A keyed table as its clients see it: \<open>find\<close> and \<open>erase\<close>. The id-to-loop registry, the
  sessions of a dispatcher, the timers of a timer manager and the handlers of an HTTP server
  are such tables.
\<close>

locale id_table =
  fixes find :: "'t \<Rightarrow> 'k \<Rightarrow> 'v option"
    and erase :: "'k \<Rightarrow> 't \<Rightarrow> 't"
    and wf :: "'t \<Rightarrow> bool"
  assumes find_erase: "wf t \<Longrightarrow> find (erase k t) = (find t)(k := None)"
    and wf_erase: "wf t \<Longrightarrow> wf (erase k t)"
begin

lemma erased_not_found: "wf t \<Longrightarrow> find (erase k t) k = None"
  by (simp add: find_erase)

lemma erase_keeps_others: "wf t \<Longrightarrow> j \<noteq> k \<Longrightarrow> find (erase k t) j = find t j"
  by (simp add: find_erase)

lemma erase_twice: "wf t \<Longrightarrow> find (erase k (erase k t)) = find (erase k t)"
  by (simp add: find_erase wf_erase)

lemma erase_commute: "wf t \<Longrightarrow> find (erase j (erase k t)) = find (erase k (erase j t))"
  by (auto simp: find_erase wf_erase)

lemma wf_erase_all: "wf t \<Longrightarrow> wf (fold erase ks t)"
  by (induction ks arbitrary: t) (auto simp: wf_erase)

lemma find_erase_all: "wf t \<Longrightarrow> find (fold erase ks t) = (find t) |` (- set ks)"
  by (induction ks arbitrary: t) (auto simp: wf_erase find_erase fun_eq_iff restrict_map_def)

end

text \<open>A table whose insertion overwrites (\<open>std::map\<close>'s \<open>operator[]\<close>).\<close>

locale assign_table = id_table +
  fixes assign :: "'b \<Rightarrow> 'c \<Rightarrow> 'a \<Rightarrow> 'a"
  assumes find_assign: "wf t \<Longrightarrow> find (assign k v t) = (find t)(k \<mapsto> v)"
    and wf_assign: "wf t \<Longrightarrow> wf (assign k v t)"
begin

lemma assigned_found: "wf t \<Longrightarrow> find (assign k v t) k = Some v"
  by (simp add: find_assign)

lemma assign_keeps_others: "wf t \<Longrightarrow> j \<noteq> k \<Longrightarrow> find (assign k v t) j = find t j"
  by (simp add: find_assign)

lemma assign_then_erase: "wf t \<Longrightarrow> find (erase k (assign k v t)) = find (erase k t)"
  by (simp add: find_assign find_erase wf_assign)

lemma last_assign_wins: "wf t \<Longrightarrow> find (assign k v (assign k w t)) = find (assign k v t)"
  by (simp add: find_assign wf_assign)

end

text \<open>A table whose insertion keeps an existing entry (\<open>std::unordered_map::emplace\<close>).\<close>

locale emplace_table = id_table +
  fixes emplace :: "'b \<Rightarrow> 'c \<Rightarrow> 'a \<Rightarrow> 'a"
  assumes find_emplace: "wf t \<Longrightarrow>
      find (emplace k v t) = (case find t k of None \<Rightarrow> (find t)(k \<mapsto> v) | Some _ \<Rightarrow> find t)"
    and wf_emplace: "wf t \<Longrightarrow> wf (emplace k v t)"
begin

lemma emplaced_fresh_found: "wf t \<Longrightarrow> find t k = None \<Longrightarrow> find (emplace k v t) k = Some v"
  by (simp add: find_emplace)

lemma emplace_keeps_old: "wf t \<Longrightarrow> find t k = Some w \<Longrightarrow> find (emplace k v t) = find t"
  by (simp add: find_emplace)

lemma emplace_keeps_others: "wf t \<Longrightarrow> j \<noteq> k \<Longrightarrow> find (emplace k v t) j = find t j"
  by (simp add: find_emplace split: option.split)

lemma emplace_fresh_then_erase:
  "wf t \<Longrightarrow> find t k = None \<Longrightarrow> find (erase k (emplace k v t)) = find t"
  by (auto simp: find_emplace find_erase wf_emplace)

end

end
