(* ===== verification/Streams.thy ===== *)
theory Streams
  imports Prelude
begin

text \<open>
  The byte stream a TCP session shows to the code above it: the reading side
  (\<open>getInputBufferLength\<close>, \<open>viewInputBuffer\<close>, \<open>readInputBuffer\<close>) and the writing side
  (\<open>send\<close>). The environment \<open>'e\<close> (libevent) is an argument of every operation, and \<open>ok\<close> says
  that it and the session state are as the operations need them.
\<close>

locale input_stream =
  fixes ok :: "'e \<Rightarrow> 's \<Rightarrow> bool"
    and pending :: "'e \<Rightarrow> 's \<Rightarrow> byte list"
    and len :: "'e \<Rightarrow> 's \<Rightarrow> u32"
    and view :: "'e \<Rightarrow> 's \<Rightarrow> u32 \<Rightarrow> byte list option \<times> 's"
    and read :: "'e \<Rightarrow> 's \<Rightarrow> u32 \<Rightarrow> bool \<times> byte list \<times> 's"
    and arrive :: "'e \<Rightarrow> byte list \<Rightarrow> 's \<Rightarrow> 's"
  assumes len_pending: "ok e s \<Longrightarrow> len e s = of_nat (length (pending e s))"
    and view_bytes: "ok e s \<Longrightarrow> 0 < n \<Longrightarrow> fst (view e s n) =
      (if unat n \<le> length (pending e s) then Some (take (unat n) (pending e s)) else None)"
    and view_ok: "ok e s \<Longrightarrow> ok e (snd (view e s n))"
    and view_pending: "ok e s \<Longrightarrow> pending e (snd (view e s n)) = pending e s"
    and read_succeeds: "ok e s \<Longrightarrow> fst (read e s n)"
    and read_bytes: "ok e s \<Longrightarrow> fst (snd (read e s n)) = take (unat n) (pending e s)"
    and read_ok: "ok e s \<Longrightarrow> ok e (snd (snd (read e s n)))"
    and read_pending: "ok e s \<Longrightarrow> pending e (snd (snd (read e s n))) = drop (unat n) (pending e s)"
    and arrive_ok: "ok e s \<Longrightarrow> ok e (arrive e d s)"
    and arrive_pending: "ok e s \<Longrightarrow> pending e (arrive e d s) = pending e s @ d"
begin

lemma viewE:
  assumes "ok e s" and "0 < n"
  obtains (short) s1 where "view e s n = (None, s1)" "ok e s1" "pending e s1 = pending e s"
      "length (pending e s) < unat n"
  | (bytes) s1 where "view e s n = (Some (take (unat n) (pending e s)), s1)" "ok e s1"
      "pending e s1 = pending e s" "unat n \<le> length (pending e s)"
proof (cases "unat n \<le> length (pending e s)")
  case True
  with assms show ?thesis
    using bytes view_bytes view_ok view_pending by (metis prod.collapse)
next
  case False
  with assms show ?thesis
    using short view_bytes view_ok view_pending by (metis not_le prod.collapse)
qed

lemma readE:
  assumes "ok e s"
  obtains s1 where "read e s n = (True, take (unat n) (pending e s), s1)" "ok e s1"
      "pending e s1 = drop (unat n) (pending e s)"
  using assms read_succeeds read_bytes read_ok read_pending by (metis (full_types) prod.collapse)

text \<open>Reading everything that is pending empties the stream.\<close>

lemma read_all:
  assumes "ok e s" and "length (pending e s) \<le> unat n"
  shows "fst (snd (read e s n)) = pending e s" and "pending e (snd (snd (read e s n))) = []"
  using assms by (simp_all add: read_bytes read_pending)

text \<open>Two reads in a row return what one read of both sizes returns.\<close>

lemma read_read:
  assumes "ok e s"
  shows "fst (snd (read e s m)) @ fst (snd (read e (snd (snd (read e s m))) n))
    = take (unat m + unat n) (pending e s)"
  using assms by (simp add: read_bytes read_ok read_pending take_add)

end

locale output_stream =
  fixes ready :: "'e \<Rightarrow> 's \<Rightarrow> bool"
    and written :: "'e \<Rightarrow> 's \<Rightarrow> byte list"
    and send :: "'e \<Rightarrow> byte list \<Rightarrow> u32 \<Rightarrow> 's \<Rightarrow> bool \<times> 's"
  assumes send_ready: "ready e s \<Longrightarrow> ready e (snd (send e d n s))"
    and send_accepted: "ready e s \<Longrightarrow> fst (send e d n s) \<Longrightarrow>
      written e (snd (send e d n s)) = written e s @ take (unat n) d"
    and send_refused: "ready e s \<Longrightarrow> \<not> fst (send e d n s) \<Longrightarrow>
      written e (snd (send e d n s)) = written e s"
begin

lemma sendE:
  assumes "ready e s"
  obtains (accepted) s1 where "send e d n s = (True, s1)" "ready e s1"
      "written e s1 = written e s @ take (unat n) d"
  | (refused) s1 where "send e d n s = (False, s1)" "ready e s1" "written e s1 = written e s"
  using assms send_ready send_accepted send_refused by (metis (full_types) prod.collapse)

end

end
