(* ===== verification/TcpSocket.thy ===== *)
theory TcpSocket
  imports Streams
begin

text \<open>
  The class \<open>TcpSocket\<close> (include/translib/tcpSocket.h, src/translib/tcpSocket.cpp), the base of
  \<open>TcpSession\<close> and \<open>TcpClient\<close>: a libevent bufferevent and the flag of a close that waits for
  the output to drain.

  libevent's evbuffer is a parameter: \<open>evbuffer_api\<close> holds its functions over an unknown
  buffer type \<open>'b\<close>, and \<open>evbuffer_laws\<close> states what its documentation promises of them, over
  the bytes a buffer holds. The sockets' system calls are recorded as effects.
\<close>

section \<open>libevent's buffers\<close>

record 'b evbuffer_api =
  evbuffer_new :: 'b
  evbuffer_get_length :: "'b \<Rightarrow> u64"
  evbuffer_pullup :: "'b \<Rightarrow> u32 \<Rightarrow> byte list option \<times> 'b"
  evbuffer_remove :: "'b \<Rightarrow> u32 \<Rightarrow> int \<times> byte list \<times> 'b"
  evbuffer_drain :: "'b \<Rightarrow> u64 \<Rightarrow> 'b"
  evbuffer_add :: "'b \<Rightarrow> byte list \<Rightarrow> int \<times> 'b"
  evbuffer_receive :: "'b \<Rightarrow> byte list \<Rightarrow> 'b"

text \<open>
  \<open>evbuffer_pullup\<close> returns a pointer through which the given number of bytes can be read,
  \<open>NULL\<close> when the buffer holds fewer, and does not change what the buffer holds;
  \<open>evbuffer_remove\<close> copies out at most the given number of bytes and returns how many;
  \<open>evbuffer_add\<close> appends or fails with \<open>-1\<close>. \<open>evbuffer_receive\<close> is libevent's own appending of
  the bytes it reads from the socket.
\<close>

definition evbuffer_laws :: "'b evbuffer_api \<Rightarrow> ('b \<Rightarrow> byte list) \<Rightarrow> bool" where
  "evbuffer_laws api bytes \<longleftrightarrow>
     bytes (evbuffer_new api) = []
   \<and> (\<forall>b. evbuffer_get_length api b = of_nat (length (bytes b)))
   \<and> (\<forall>b n. bytes (snd (evbuffer_pullup api b n)) = bytes b)
   \<and> (\<forall>b n. 0 < n \<longrightarrow> fst (evbuffer_pullup api b n) =
        (if unat n \<le> length (bytes b) then Some (take (unat n) (bytes b)) else None))
   \<and> (\<forall>b n. fst (evbuffer_remove api b n) = int (min (unat n) (length (bytes b)))
        \<and> fst (snd (evbuffer_remove api b n)) = take (unat n) (bytes b)
        \<and> bytes (snd (snd (evbuffer_remove api b n))) = drop (unat n) (bytes b))
   \<and> (\<forall>b n. bytes (evbuffer_drain api b n) = drop (unat n) (bytes b))
   \<and> (\<forall>b d. fst (evbuffer_add api b d) \<noteq> - 1 \<longrightarrow> bytes (snd (evbuffer_add api b d)) = bytes b @ d)
   \<and> (\<forall>b d. fst (evbuffer_add api b d) = - 1 \<longrightarrow> bytes (snd (evbuffer_add api b d)) = bytes b)
   \<and> (\<forall>b d. bytes (evbuffer_receive api b d) = bytes b @ d)"

lemma evbuffer_lawsD:
  assumes "evbuffer_laws api bytes"
  shows "bytes (evbuffer_new api) = []"
    and "evbuffer_get_length api b = of_nat (length (bytes b))"
    and "bytes (snd (evbuffer_pullup api b n)) = bytes b"
    and "0 < n \<Longrightarrow> fst (evbuffer_pullup api b n) =
      (if unat n \<le> length (bytes b) then Some (take (unat n) (bytes b)) else None)"
    and "fst (evbuffer_remove api b n) = int (min (unat n) (length (bytes b)))"
    and "fst (snd (evbuffer_remove api b n)) = take (unat n) (bytes b)"
    and "bytes (snd (snd (evbuffer_remove api b n))) = drop (unat n) (bytes b)"
    and "bytes (evbuffer_drain api b m) = drop (unat m) (bytes b)"
    and "fst (evbuffer_add api b d) \<noteq> - 1 \<Longrightarrow> bytes (snd (evbuffer_add api b d)) = bytes b @ d"
    and "fst (evbuffer_add api b d) = - 1 \<Longrightarrow> bytes (snd (evbuffer_add api b d)) = bytes b"
    and "bytes (evbuffer_receive api b d) = bytes b @ d"
  using assms unfolding evbuffer_laws_def by blast+

text \<open>A buffer that is its bytes; the laws hold of it, so they can hold.\<close>

definition list_api :: "byte list evbuffer_api" where
  "list_api = \<lparr>evbuffer_new = [], evbuffer_get_length = (\<lambda>b. of_nat (length b)),
     evbuffer_pullup = (\<lambda>b n. (if unat n \<le> length b then Some (take (unat n) b) else None, b)),
     evbuffer_remove = (\<lambda>b n. (int (min (unat n) (length b)), take (unat n) b, drop (unat n) b)),
     evbuffer_drain = (\<lambda>b n. drop (unat n) b),
     evbuffer_add = (\<lambda>b d. (0, b @ d)),
     evbuffer_receive = (\<lambda>b d. b @ d)\<rparr>"

lemma list_api_laws: "evbuffer_laws list_api (\<lambda>b. b)"
  by (simp add: evbuffer_laws_def list_api_def)

section \<open>State\<close>

text \<open>
  A bufferevent: its socket, its input and output buffers, which directions are enabled, and
  whether freeing it closes the socket (\<open>BEV_OPT_CLOSE_ON_FREE\<close>).
\<close>

record 'b bufferevent =
  be_fd :: int
  be_input :: 'b
  be_output :: 'b
  be_read :: bool
  be_write :: bool
  be_close_on_free :: bool

record 'b tcpsocket =
  s_bev :: "'b bufferevent option"
  s_isClosing :: bool

datatype sock_effect = ShutdownFd int | CloseFd int

text \<open>A method that passes a null bufferevent to libevent dereferences it.\<close>

datatype sock_error = NullDeref

definition SOCKET_FD_INVALID :: int where
  "SOCKET_FD_INVALID = - 1"

section \<open>Operations\<close>

definition TcpSocket_new :: "'b tcpsocket" where
  "TcpSocket_new = \<lparr>s_bev = None, s_isClosing = False\<rparr>"

text \<open>Freeing closes a descriptor only when there is one and the option was given.\<close>

definition bufferevent_free :: "'b bufferevent \<Rightarrow> sock_effect list" where
  "bufferevent_free bev = (if be_close_on_free bev \<and> 0 \<le> be_fd bev then [CloseFd (be_fd bev)] else [])"

definition TcpSocket_destroy ::
    "('b, 'z) tcpsocket_scheme \<Rightarrow> ('b, 'z) tcpsocket_scheme \<times> sock_effect list" where
  "TcpSocket_destroy s =
     (case s_bev s of
        None \<Rightarrow> (s, [])
      | Some bev \<Rightarrow> (s\<lparr>s_bev := None\<rparr>, bufferevent_free bev))"

definition TcpSocket_socket :: "('b, 'z) tcpsocket_scheme \<Rightarrow> int" where
  "TcpSocket_socket s = (case s_bev s of None \<Rightarrow> SOCKET_FD_INVALID | Some bev \<Rightarrow> be_fd bev)"

text \<open>
  \<open>sizeof(struct sockaddr_in)\<close> and \<open>getpeername\<close> are parameters; \<open>dest\<close> is what the caller's
  buffer holds, which a failing call leaves alone.
\<close>

definition TcpSocket_getAddr ::
    "u32 \<Rightarrow> (int \<Rightarrow> 'a option) \<Rightarrow> 'a \<Rightarrow> u32 \<Rightarrow> ('b, 'z) tcpsocket_scheme \<Rightarrow> 'a" where
  "TcpSocket_getAddr addrSize getpeername dest sz s =
     (if s_bev s = None \<or> sz < addrSize then dest
      else case getpeername (TcpSocket_socket s) of None \<Rightarrow> dest | Some addr \<Rightarrow> addr)"

text \<open>\<open>bufferevent_write\<close> appends to the output buffer, enabled for writing or not.\<close>

definition TcpSocket_send ::
    "'b evbuffer_api \<Rightarrow> byte list \<Rightarrow> u32 \<Rightarrow> ('b, 'z) tcpsocket_scheme
      \<Rightarrow> bool \<times> ('b, 'z) tcpsocket_scheme" where
  "TcpSocket_send api data sz s =
     (case s_bev s of
        None \<Rightarrow> (False, s)
      | Some bev \<Rightarrow>
          if s_isClosing s then (False, s)
          else (let (ret, out) = evbuffer_add api (be_output bev) (take (unat sz) data)
                in (ret \<noteq> - 1, s\<lparr>s_bev := Some (bev\<lparr>be_output := out\<rparr>)\<rparr>)))"

definition TcpSocket_getInputBufferLength ::
    "'b evbuffer_api \<Rightarrow> ('b, 'z) tcpsocket_scheme \<Rightarrow> u32" where
  "TcpSocket_getInputBufferLength api s =
     (case s_bev s of
        None \<Rightarrow> 0
      | Some bev \<Rightarrow> ucast (evbuffer_get_length api (be_input bev)))"

definition TcpSocket_viewInputBuffer ::
    "'b evbuffer_api \<Rightarrow> ('b, 'z) tcpsocket_scheme \<Rightarrow> u32
      \<Rightarrow> byte list option \<times> ('b, 'z) tcpsocket_scheme" where
  "TcpSocket_viewInputBuffer api s sz =
     (case s_bev s of
        None \<Rightarrow> (None, s)
      | Some bev \<Rightarrow>
          (let (buf, inp) = evbuffer_pullup api (be_input bev) sz
           in (buf, s\<lparr>s_bev := Some (bev\<lparr>be_input := inp\<rparr>)\<rparr>)))"

text \<open>The bytes written to the caller's \<open>dest\<close> are part of the result.\<close>

definition TcpSocket_readInputBuffer ::
    "'b evbuffer_api \<Rightarrow> ('b, 'z) tcpsocket_scheme \<Rightarrow> u32
      \<Rightarrow> bool \<times> byte list \<times> ('b, 'z) tcpsocket_scheme" where
  "TcpSocket_readInputBuffer api s sz =
     (case s_bev s of
        None \<Rightarrow> (False, [], s)
      | Some bev \<Rightarrow>
          (let (ret, dest, inp) = evbuffer_remove api (be_input bev) sz
           in (ret \<noteq> - 1, dest, s\<lparr>s_bev := Some (bev\<lparr>be_input := inp\<rparr>)\<rparr>)))"

text \<open>At most \<open>UINT32_MAX\<close> bytes are drained.\<close>

definition TcpSocket_clearInputBuffer ::
    "'b evbuffer_api \<Rightarrow> ('b, 'z) tcpsocket_scheme \<Rightarrow> ('b, 'z) tcpsocket_scheme" where
  "TcpSocket_clearInputBuffer api s =
     (case s_bev s of
        None \<Rightarrow> s
      | Some bev \<Rightarrow>
          s\<lparr>s_bev := Some (bev\<lparr>be_input := evbuffer_drain api (be_input bev) (ucast (- 1 :: u32))\<rparr>)\<rparr>)"

definition TcpSocket_closeImpl ::
    "'b evbuffer_api \<Rightarrow> ('b, 'z) tcpsocket_scheme
      \<Rightarrow> sock_error + ('b, 'z) tcpsocket_scheme \<times> sock_effect list" where
  "TcpSocket_closeImpl api s =
     (let s1 = TcpSocket_clearInputBuffer api (s\<lparr>s_isClosing := False\<rparr>)
      in case s_bev s1 of
           None \<Rightarrow> Inl NullDeref
         | Some bev \<Rightarrow>
             (let s2 = s1\<lparr>s_bev := Some (bev\<lparr>be_write := False\<rparr>)\<rparr>
              in Inr (s2, [ShutdownFd (TcpSocket_socket s2)])))"

definition TcpSocket_close ::
    "'b evbuffer_api \<Rightarrow> bool \<Rightarrow> ('b, 'z) tcpsocket_scheme
      \<Rightarrow> sock_error + ('b, 'z) tcpsocket_scheme \<times> sock_effect list" where
  "TcpSocket_close api waiting s =
     (case s_bev s of
        None \<Rightarrow> Inr (s, [])
      | Some bev \<Rightarrow>
          if waiting \<and> evbuffer_get_length api (be_output bev) > 0
          then Inr (s\<lparr>s_isClosing := True\<rparr>, [])
          else TcpSocket_closeImpl api s)"

definition TcpSocket_checkClosing ::
    "'b evbuffer_api \<Rightarrow> ('b, 'z) tcpsocket_scheme
      \<Rightarrow> sock_error + ('b, 'z) tcpsocket_scheme \<times> sock_effect list" where
  "TcpSocket_checkClosing api s =
     (if s_isClosing s
      then (case s_bev s of
              None \<Rightarrow> Inl NullDeref
            | Some bev \<Rightarrow>
                if evbuffer_get_length api (be_output bev) = 0
                then TcpSocket_closeImpl api (s\<lparr>s_isClosing := False\<rparr>)
                else Inr (s, []))
      else Inr (s, []))"

text \<open>libevent reads from the socket into the input buffer.\<close>

definition socket_arrive ::
    "'b evbuffer_api \<Rightarrow> byte list \<Rightarrow> ('b, 'z) tcpsocket_scheme \<Rightarrow> ('b, 'z) tcpsocket_scheme" where
  "socket_arrive api d s =
     (case s_bev s of
        None \<Rightarrow> s
      | Some bev \<Rightarrow> s\<lparr>s_bev := Some (bev\<lparr>be_input := evbuffer_receive api (be_input bev) d\<rparr>)\<rparr>)"

section \<open>The socket as a byte stream\<close>

text \<open>
  The environment of the stream interfaces is libevent's evbuffer with the bytes its buffers
  hold; a socket is fit for use when it has a bufferevent.
\<close>

type_synonym 'b evbuffer_env = "'b evbuffer_api \<times> ('b \<Rightarrow> byte list)"

definition socket_ok :: "'b evbuffer_env \<Rightarrow> ('b, 'z) tcpsocket_scheme \<Rightarrow> bool" where
  "socket_ok e s \<longleftrightarrow> evbuffer_laws (fst e) (snd e) \<and> s_bev s \<noteq> None"

definition socket_input :: "'b evbuffer_env \<Rightarrow> ('b, 'z) tcpsocket_scheme \<Rightarrow> byte list" where
  "socket_input e s = (case s_bev s of None \<Rightarrow> [] | Some bev \<Rightarrow> snd e (be_input bev))"

definition socket_output :: "'b evbuffer_env \<Rightarrow> ('b, 'z) tcpsocket_scheme \<Rightarrow> byte list" where
  "socket_output e s = (case s_bev s of None \<Rightarrow> [] | Some bev \<Rightarrow> snd e (be_output bev))"

lemmas socket_reading = TcpSocket_getInputBufferLength_def TcpSocket_viewInputBuffer_def
  TcpSocket_readInputBuffer_def socket_arrive_def

lemma socket_okE:
  assumes "socket_ok e s"
  obtains bev where "s_bev s = Some bev" "evbuffer_laws (fst e) (snd e)"
  using assms by (auto simp: socket_ok_def)

interpretation sock_in: input_stream socket_ok socket_input
  "\<lambda>e. TcpSocket_getInputBufferLength (fst e)" "\<lambda>e. TcpSocket_viewInputBuffer (fst e)"
  "\<lambda>e. TcpSocket_readInputBuffer (fst e)" "\<lambda>e. socket_arrive (fst e)"
  by unfold_locales
    (auto simp: socket_reading socket_input_def socket_ok_def evbuffer_lawsD case_prod_beta
      ucast_of_nat_down)

interpretation sock_out: output_stream socket_ok socket_output
  "\<lambda>e. TcpSocket_send (fst e)"
  by unfold_locales
    (auto simp: TcpSocket_send_def socket_output_def socket_ok_def evbuffer_lawsD case_prod_beta)

section \<open>The life of a connection\<close>

text \<open>
  What happens to a connected socket: the program sends, reads and closes; libevent receives
  bytes, writes output bytes to the socket as long as writing is enabled, and calls
  \<open>writeCallback\<close>, which is \<open>checkClosing\<close>. Because of \<open>BEV_OPT_DEFER_CALLBACKS\<close> anything may
  happen between the write and the callback, so they are two steps.
\<close>

datatype sock_op = OpSend "byte list" | OpRead u32 | OpClose bool | OpArrive "byte list"
  | OpFlush u32 | OpWriteCb

text \<open>
  With the socket: the bytes that \<open>send\<close> accepted, the bytes that reached the wire, and the
  system calls on the descriptor.
\<close>

record 'b conn =
  c_sock :: "'b tcpsocket"
  c_accepted :: "byte list"
  c_wire :: "byte list"
  c_effects :: "sock_effect list"

definition conn_new :: "'b tcpsocket \<Rightarrow> 'b conn" where
  "conn_new s = \<lparr>c_sock = s, c_accepted = [], c_wire = [], c_effects = []\<rparr>"

definition conn_effect :: "'b conn \<Rightarrow> 'b tcpsocket \<times> sock_effect list \<Rightarrow> 'b conn" where
  "conn_effect c r = c\<lparr>c_sock := fst r, c_effects := c_effects c @ snd r\<rparr>"

definition conn_flush :: "'b evbuffer_api \<Rightarrow> u32 \<Rightarrow> 'b conn \<Rightarrow> 'b conn" where
  "conn_flush api n c =
     (case s_bev (c_sock c) of
        None \<Rightarrow> c
      | Some bev \<Rightarrow>
          if be_write bev
          then (let (k, d, out) = evbuffer_remove api (be_output bev) n
                in c\<lparr>c_sock := (c_sock c)\<lparr>s_bev := Some (bev\<lparr>be_output := out\<rparr>)\<rparr>,
                     c_wire := c_wire c @ d\<rparr>)
          else c)"

fun conn_step :: "'b evbuffer_api \<Rightarrow> sock_op \<Rightarrow> 'b conn \<Rightarrow> sock_error + 'b conn" where
  "conn_step api (OpSend d) c =
     (let (r, s1) = TcpSocket_send api d (of_nat (length d)) (c_sock c)
      in Inr (c\<lparr>c_sock := s1, c_accepted := c_accepted c @ (if r then take (unat (of_nat (length d) :: u32)) d else [])\<rparr>))"
| "conn_step api (OpRead n) c =
     Inr (c\<lparr>c_sock := snd (snd (TcpSocket_readInputBuffer api (c_sock c) n))\<rparr>)"
| "conn_step api (OpClose waiting) c =
     map_sum id (conn_effect c) (TcpSocket_close api waiting (c_sock c))"
| "conn_step api (OpArrive d) c = Inr (c\<lparr>c_sock := socket_arrive api d (c_sock c)\<rparr>)"
| "conn_step api (OpFlush n) c = Inr (conn_flush api n c)"
| "conn_step api OpWriteCb c = map_sum id (conn_effect c) (TcpSocket_checkClosing api (c_sock c))"

fun conn_run :: "'b evbuffer_api \<Rightarrow> sock_op list \<Rightarrow> 'b conn \<Rightarrow> sock_error + 'b conn" where
  "conn_run api [] c = Inr c"
| "conn_run api (x # xs) c =
     (case conn_step api x c of Inl err \<Rightarrow> Inl err | Inr c1 \<Rightarrow> conn_run api xs c1)"

text \<open>Every byte that was accepted is on the wire or in the output buffer, in order.\<close>

definition conn_ok :: "'b evbuffer_env \<Rightarrow> 'b conn \<Rightarrow> bool" where
  "conn_ok e c \<longleftrightarrow> socket_ok e (c_sock c) \<and> c_accepted c = c_wire c @ socket_output e (c_sock c)"

lemma send_conn:
  assumes "socket_ok e s"
  shows "socket_ok e (snd (TcpSocket_send (fst e) d n s))"
    and "socket_output e (snd (TcpSocket_send (fst e) d n s)) =
      socket_output e s @ (if fst (TcpSocket_send (fst e) d n s) then take (unat n) d else [])"
  using assms by (auto intro: sock_out.send_ready simp: sock_out.send_accepted sock_out.send_refused)

lemma closeImpl_conn:
  assumes "socket_ok e s"
  obtains s1 where "TcpSocket_closeImpl (fst e) s = Inr (s1, [ShutdownFd (TcpSocket_socket s)])"
    "socket_ok e s1" "socket_output e s1 = socket_output e s" "socket_input e s1 = drop (2 ^ 32 - 1) (socket_input e s)"
    "s_bev s1 \<noteq> None \<and> \<not> be_write (the (s_bev s1))" "\<not> s_isClosing s1"
proof -
  obtain bev where bev: "s_bev s = Some bev" "evbuffer_laws (fst e) (snd e)"
    using assms by (rule socket_okE)
  have "unat (ucast (- 1 :: u32) :: u64) = 2 ^ 32 - 1"
    by (simp add: unsigned_ucast_eq unsigned_minus_1_eq_mask mask_eq_exp_minus_1 take_bit_eq_mod)
  with bev show ?thesis
    by (intro that)
      (auto simp: TcpSocket_closeImpl_def TcpSocket_clearInputBuffer_def TcpSocket_socket_def
        socket_ok_def socket_output_def socket_input_def evbuffer_lawsD Let_def)
qed

lemma output_empty_iff:
  assumes "evbuffer_laws api bytes" and "length (bytes b) < 2 ^ 64"
  shows "evbuffer_get_length api b = 0 \<longleftrightarrow> bytes b = []"
  using assms by (simp add: evbuffer_lawsD unat_eq_0 [symmetric] unat_of_nat del: unat_eq_0)

text \<open>No step fails on a connected socket, and each keeps the accounting of the bytes.\<close>

lemma close_conn:
  assumes "conn_ok e c" and "TcpSocket_closeImpl (fst e) (c_sock c) = r"
  obtains c1 where "map_sum id (conn_effect c) r = Inr c1" "conn_ok e c1"
    "c_wire c1 = c_wire c" "c_accepted c1 = c_accepted c"
    "c_effects c1 = c_effects c @ [ShutdownFd (TcpSocket_socket (c_sock c))]"
    "socket_output e (c_sock c1) = socket_output e (c_sock c)"
proof -
  have "socket_ok e (c_sock c)" using assms(1) by (simp add: conn_ok_def)
  then obtain s1 where "r = Inr (s1, [ShutdownFd (TcpSocket_socket (c_sock c))])" "socket_ok e s1"
    "socket_output e s1 = socket_output e (c_sock c)"
    using assms(2) by (metis closeImpl_conn)
  then show ?thesis using that assms(1) by (simp add: conn_effect_def conn_ok_def)
qed

lemma flush_conn:
  assumes "conn_ok e c"
  shows "conn_ok e (conn_flush (fst e) n c)"
    and "c_accepted (conn_flush (fst e) n c) = c_accepted c"
    and "c_effects (conn_flush (fst e) n c) = c_effects c"
    and "s_isClosing (c_sock (conn_flush (fst e) n c)) = s_isClosing (c_sock c)"
  using assms
  by (auto simp: conn_flush_def conn_ok_def socket_ok_def socket_output_def evbuffer_lawsD
      case_prod_beta split: option.splits)

lemma isClosing_irrelevant:
  "conn_ok e (c\<lparr>c_sock := (c_sock c)\<lparr>s_isClosing := b\<rparr>\<rparr>) = conn_ok e c"
  "socket_output e (s\<lparr>s_isClosing := b\<rparr>) = socket_output e s"
  "socket_ok e (s\<lparr>s_isClosing := b\<rparr>) = socket_ok e s"
  by (simp_all add: conn_ok_def socket_ok_def socket_output_def)

lemma closeImpl_isClosing:
  "TcpSocket_closeImpl api (s\<lparr>s_isClosing := b\<rparr>) = TcpSocket_closeImpl api s"
  by (simp add: TcpSocket_closeImpl_def)

lemma conn_step_ok:
  assumes ok: "conn_ok e c"
  shows "\<exists>c1. conn_step (fst e) x c = Inr c1 \<and> conn_ok e c1"
proof -
  have sock: "socket_ok e (c_sock c)" using ok by (simp add: conn_ok_def)
  then obtain bev where bev: "s_bev (c_sock c) = Some bev" "evbuffer_laws (fst e) (snd e)"
    by (rule socket_okE)
  obtain c1 where c1: "map_sum id (conn_effect c) (TcpSocket_closeImpl (fst e) (c_sock c)) = Inr c1"
    "conn_ok e c1"
    by (rule close_conn [OF ok refl])
  show ?thesis
  proof (cases x)
    case (OpSend d)
    with ok sock show ?thesis
      by (simp add: case_prod_beta conn_ok_def send_conn)
  next
    case (OpRead n)
    with ok sock show ?thesis
      by (simp add: conn_ok_def sock_in.read_ok)
        (simp add: TcpSocket_readInputBuffer_def socket_output_def case_prod_beta bev)
  next
    case (OpClose waiting)
    with ok c1 show ?thesis
      by (auto simp: TcpSocket_close_def bev conn_effect_def)
        (simp add: conn_ok_def socket_ok_def socket_output_def)
  next
    case (OpArrive d)
    with ok sock show ?thesis
      by (simp add: conn_ok_def sock_in.arrive_ok)
        (simp add: socket_arrive_def socket_output_def bev)
  next
    case (OpFlush n)
    with flush_conn(1) [OF ok] show ?thesis by simp
  next
    case OpWriteCb
    with ok c1 show ?thesis
      by (auto simp: TcpSocket_checkClosing_def bev conn_effect_def closeImpl_isClosing)
  qed
qed

lemma conn_run_ok: "conn_ok e c \<Longrightarrow> \<exists>c1. conn_run (fst e) xs c = Inr c1 \<and> conn_ok e c1"
proof (induction xs arbitrary: c)
  case Nil
  then show ?case by simp
next
  case (Cons x xs)
  obtain c1 where "conn_step (fst e) x c = Inr c1" "conn_ok e c1"
    using conn_step_ok [OF Cons.prems] by blast
  with Cons.IH [of c1] show ?case by simp
qed

lemma conn_run_append:
  "conn_run api (xs @ ys) c = (case conn_run api xs c of Inl err \<Rightarrow> Inl err | Inr c1 \<Rightarrow> conn_run api ys c1)"
  by (induction xs arbitrary: c) (auto split: sum.splits)

lemma conn_run_prefix: "conn_run api xs c = Inr c1 \<Longrightarrow> conn_run api (xs @ ys) c = conn_run api ys c1"
  by (simp add: conn_run_append)

text \<open>A socket just connected.\<close>

definition fresh_socket :: "'b evbuffer_api \<Rightarrow> int \<Rightarrow> 'b tcpsocket" where
  "fresh_socket api fd =
     \<lparr>s_bev = Some \<lparr>be_fd = fd, be_input = evbuffer_new api, be_output = evbuffer_new api,
        be_read = True, be_write = True, be_close_on_free = True\<rparr>,
      s_isClosing = False\<rparr>"

lemma fresh_socket_ok:
  assumes "evbuffer_laws api bytes"
  shows "socket_ok (api, bytes) (fresh_socket api fd)"
    and "socket_input (api, bytes) (fresh_socket api fd) = []"
    and "socket_output (api, bytes) (fresh_socket api fd) = []"
  using assms by (simp_all add: fresh_socket_def socket_ok_def socket_input_def socket_output_def
      evbuffer_lawsD)

text \<open>A socket over the list buffer on which bytes have arrived.\<close>

lemma arrived_ok: "socket_ok (list_api, \<lambda>b. b) (socket_arrive list_api d (fresh_socket list_api fd))"
  by (rule sock_in.arrive_ok [of "(list_api, \<lambda>b. b)", simplified fst_conv])
    (rule fresh_socket_ok [OF list_api_laws])

lemma arrived_input:
  "socket_input (list_api, \<lambda>b. b) (socket_arrive list_api d (fresh_socket list_api fd)) = d"
  by (simp add: socket_arrive_def fresh_socket_def list_api_def socket_input_def)

lemma fresh_conn_ok:
  "evbuffer_laws api bytes \<Longrightarrow> conn_ok (api, bytes) (conn_new (fresh_socket api fd))"
  by (simp add: conn_ok_def conn_new_def fresh_socket_ok)

text \<open>A shutdown that is not a \<open>close(false)\<close> happens when the output buffer is empty.\<close>

lemma shutdown_when_drained:
  assumes ok: "conn_ok e c" and step: "conn_step (fst e) x c = Inr c1"
    and eff: "c_effects c1 \<noteq> c_effects c" and x: "x \<noteq> OpClose False"
    and len: "length (c_accepted c) < 2 ^ 64"
  shows "c_wire c1 = c_accepted c1 \<and>
    c_effects c1 = c_effects c @ [ShutdownFd (TcpSocket_socket (c_sock c))]"
proof -
  have sock: "socket_ok e (c_sock c)" using ok by (simp add: conn_ok_def)
  then obtain bev where bev: "s_bev (c_sock c) = Some bev" "evbuffer_laws (fst e) (snd e)"
    by (rule socket_okE)
  have out: "socket_output e (c_sock c) = snd e (be_output bev)"
    using bev by (simp add: socket_output_def)
  have "length (snd e (be_output bev)) < 2 ^ 64"
    using ok len out by (simp add: conn_ok_def)
  note empty = output_empty_iff [OF bev(2) this]
  obtain c2 where c2: "map_sum id (conn_effect c) (TcpSocket_closeImpl (fst e) (c_sock c)) = Inr c2"
    "conn_ok e c2" "c_wire c2 = c_wire c" "c_accepted c2 = c_accepted c"
    "c_effects c2 = c_effects c @ [ShutdownFd (TcpSocket_socket (c_sock c))]"
    by (rule close_conn [OF ok refl])
  have "c1 = c2 \<and> snd e (be_output bev) = []"
  proof (cases x)
    case (OpClose waiting)
    with x step eff c2(1) show ?thesis
      by (auto simp: TcpSocket_close_def bev conn_effect_def empty word_neq_0_conv [symmetric]
          split: if_splits)
  next
    case (OpFlush n)
    with step eff flush_conn(3) [OF ok] show ?thesis by auto
  next
    case OpWriteCb
    with step eff c2(1) show ?thesis
      by (auto simp: TcpSocket_checkClosing_def bev conn_effect_def empty closeImpl_isClosing
          split: if_splits)
  qed (use step eff in \<open>auto simp: case_prod_beta\<close>)
  with c2 out ok show ?thesis by (simp add: conn_ok_def)
qed

text \<open>While a graceful close waits, nothing is accepted.\<close>

lemma sends_while_closing:
  assumes "s_isClosing (c_sock c)"
  shows "conn_run api (map OpSend ds @ xs) c = conn_run api xs c"
proof (induction ds)
  case Nil
  then show ?case by simp
next
  case (Cons d ds)
  have "TcpSocket_send api d n (c_sock c) = (False, c_sock c)" for n
    using assms by (simp add: TcpSocket_send_def split: option.split)
  with Cons show ?case by simp
qed

text \<open>Once writing is disabled no byte reaches the wire.\<close>

definition write_disabled :: "'b conn \<Rightarrow> bool" where
  "write_disabled c \<longleftrightarrow> (\<exists>bev. s_bev (c_sock c) = Some bev \<and> \<not> be_write bev)"

lemmas sock_op_defs = TcpSocket_send_def TcpSocket_close_def TcpSocket_closeImpl_def
  TcpSocket_checkClosing_def TcpSocket_clearInputBuffer_def TcpSocket_readInputBuffer_def
  socket_arrive_def conn_flush_def conn_effect_def

lemma disabled_step:
  assumes "write_disabled c" and "conn_step api x c = Inr c1"
  shows "write_disabled c1 \<and> c_wire c1 = c_wire c \<and> (\<exists>ys. c_accepted c1 = c_accepted c @ ys)"
  using assms
  by (cases x) (auto simp: write_disabled_def sock_op_defs Let_def case_prod_beta split: if_splits)

lemma disabled_run:
  "write_disabled c \<Longrightarrow> conn_run api xs c = Inr c1 \<Longrightarrow>
    c_wire c1 = c_wire c \<and> (\<exists>ys. c_accepted c1 = c_accepted c @ ys)"
proof (induction xs arbitrary: c)
  case Nil
  then show ?case by simp
next
  case (Cons x xs)
  obtain c2 where c2: "conn_step api x c = Inr c2" "conn_run api xs c2 = Inr c1"
    using Cons.prems(2) by (auto split: sum.splits)
  from disabled_step [OF Cons.prems(1) c2(1)] Cons.IH [OF _ c2(2)] show ?case by auto
qed

section \<open>Properties\<close>

text \<open>C5: Whatever a program and libevent do with a connected socket, no method dereferences a
  null bufferevent, and every byte that \<open>send\<close> accepted is on the wire or still in the output
  buffer, once and in order.\<close>

theorem socket_bytes_accounted:
  assumes "evbuffer_laws api bytes"
  shows "\<exists>c. conn_run api ops (conn_new (fresh_socket api fd)) = Inr c
    \<and> c_accepted c = c_wire c @ socket_output (api, bytes) (c_sock c)"
  using conn_run_ok [OF fresh_conn_ok [OF assms], of ops fd] by (auto simp: conn_ok_def)

theorem socket_bytes_accounted_witness:
  "\<exists>c. conn_run list_api [OpSend [1, 2, 3], OpFlush 2, OpClose True] (conn_new (fresh_socket list_api 5)) = Inr c
    \<and> c_accepted c = c_wire c @ socket_output (list_api, \<lambda>b. b) (c_sock c)"
  by (rule socket_bytes_accounted [OF list_api_laws])

text \<open>C6: A graceful close loses nothing: when a socket that is only ever closed with
  \<open>close(true)\<close> shuts its descriptor down, every byte ever accepted is on the wire.\<close>

theorem socket_graceful_shutdown:
  assumes "evbuffer_laws api bytes"
    and "conn_run api ops (conn_new (fresh_socket api fd)) = Inr c"
    and "conn_step api x c = Inr c1" and "c_effects c1 \<noteq> c_effects c"
    and "x \<noteq> OpClose False" and "length (c_accepted c) < 2 ^ 64"
  shows "c_wire c1 = c_accepted c1
    \<and> c_effects c1 = c_effects c @ [ShutdownFd (TcpSocket_socket (c_sock c))]"
proof -
  have "conn_ok (api, bytes) c"
    using conn_run_ok [OF fresh_conn_ok [OF assms(1)], of ops fd] assms(2) by simp
  from shutdown_when_drained [OF this _ assms(4-6)] assms(3) show ?thesis by simp
qed

lemmas conn_eval = conn_new_def fresh_socket_def list_api_def sock_op_defs TcpSocket_socket_def
  Let_def

theorem socket_graceful_shutdown_witness:
  "\<exists>c1. conn_run list_api [OpSend [1, 2, 3], OpClose True, OpFlush 3, OpWriteCb]
      (conn_new (fresh_socket list_api 5)) = Inr c1
    \<and> c_wire c1 = [1, 2, 3] \<and> c_effects c1 = [ShutdownFd 5]"
proof -
  obtain c where c: "conn_run list_api [OpSend [1, 2, 3], OpClose True, OpFlush 3]
      (conn_new (fresh_socket list_api 5)) = Inr c" "c_effects c = []" "c_accepted c = [1, 2, 3]"
      "TcpSocket_socket (c_sock c) = 5"
    by (simp add: conn_eval)
  obtain c1 where c1: "conn_step list_api OpWriteCb c = Inr c1" "c_effects c1 \<noteq> c_effects c"
      "c_accepted c1 = [1, 2, 3]"
    using c(1) by (auto simp: conn_eval)
  have "conn_run list_api ([OpSend [1, 2, 3], OpClose True, OpFlush 3] @ [OpWriteCb])
      (conn_new (fresh_socket list_api 5)) = Inr c1"
    using c1(1) by (simp only: conn_run_prefix [OF c(1)] conn_run.simps sum.case)
  then show ?thesis
    using socket_graceful_shutdown [OF list_api_laws c(1) c1(1,2)] c c1(3) by simp
qed

text \<open>C29: A graceful close completes: after \<open>close(true)\<close> with output pending, sends are refused,
  and once libevent has written the pending bytes its write callback shuts the descriptor
  down.\<close>

theorem socket_graceful_completes:
  assumes "conn_ok (api, bytes) c" and "s_bev (c_sock c) = Some bev" and "be_write bev"
    and "bytes (be_output bev) \<noteq> []" and "length (bytes (be_output bev)) \<le> unat n"
  shows "\<exists>c1. conn_run api (OpClose True # map OpSend ds @ [OpFlush n, OpWriteCb]) c = Inr c1
    \<and> c_wire c1 = c_accepted c \<and> c_accepted c1 = c_accepted c
    \<and> c_effects c1 = c_effects c @ [ShutdownFd (be_fd bev)]"
proof -
  have laws: "evbuffer_laws api bytes" using assms(1) by (simp add: conn_ok_def socket_ok_def)
  have n: "unat n < 2 ^ 32" using unat_lt_2p [of n] by simp
  then have len: "length (bytes (be_output bev)) < 2 ^ 64" using assms(5) by simp
  let ?c = "c\<lparr>c_sock := (c_sock c)\<lparr>s_isClosing := True\<rparr>\<rparr>"
  let ?out = "snd (snd (evbuffer_remove api (be_output bev) n))"
  have "0 < evbuffer_get_length api (be_output bev)"
    using output_empty_iff [OF laws len] assms(4) by (simp add: word_neq_0_conv)
  then have "conn_step api (OpClose True) c = Inr ?c"
    using assms(2) by (simp add: TcpSocket_close_def conn_effect_def)
  then have "conn_run api (OpClose True # map OpSend ds @ [OpFlush n, OpWriteCb]) c =
      conn_run api [OpFlush n, OpWriteCb] ?c"
    using sends_while_closing [of ?c api ds] by (simp del: conn_step.simps)
  also have "\<dots> = conn_step api OpWriteCb (conn_flush api n ?c)"
    by (simp split: sum.split)
  also have "evbuffer_get_length api ?out = 0"
    by (simp add: evbuffer_lawsD [OF laws] assms(5))
  then have "conn_step api OpWriteCb (conn_flush api n ?c) =
      Inr (conn_effect (conn_flush api n ?c)
        ((c_sock c)\<lparr>s_isClosing := False, s_bev := Some (bev\<lparr>be_output := ?out,
            be_input := evbuffer_drain api (be_input bev) (ucast (- 1 :: u32)), be_write := False\<rparr>)\<rparr>,
         [ShutdownFd (be_fd bev)]))"
    using assms(2,3)
    by (simp add: conn_flush_def case_prod_beta TcpSocket_checkClosing_def TcpSocket_closeImpl_def
        TcpSocket_clearInputBuffer_def TcpSocket_socket_def Let_def)
  finally show ?thesis
    using assms(1-3,5)
    by (simp add: conn_effect_def conn_flush_def case_prod_beta evbuffer_lawsD [OF laws] conn_ok_def
        socket_output_def)
qed

theorem socket_graceful_completes_witness:
  "\<exists>c c1. conn_run list_api [OpSend [1, 2]] (conn_new (fresh_socket list_api 5)) = Inr c
    \<and> conn_run list_api [OpClose True, OpSend [9], OpFlush 8, OpWriteCb] c = Inr c1
    \<and> c_wire c1 = [1, 2] \<and> c_effects c1 = [ShutdownFd 5]"
proof -
  let ?bev = "\<lparr>be_fd = 5, be_input = [], be_output = [1, 2], be_read = True, be_write = True,
    be_close_on_free = True\<rparr>"
  obtain c where c: "conn_run list_api [OpSend [1, 2]] (conn_new (fresh_socket list_api 5)) = Inr c"
    "conn_ok (list_api, \<lambda>b. b) c"
    using conn_run_ok [OF fresh_conn_ok [OF list_api_laws], of "[OpSend [1, 2]]" 5] by auto
  then have bev: "s_bev (c_sock c) = Some ?bev" "c_accepted c = [1, 2]" "c_effects c = []"
    by (auto simp: conn_eval)
  from socket_graceful_completes [OF c(2) bev(1), of 8 "[[9]]"] bev(2,3) c(1) show ?thesis
    by (auto simp del: conn_run.simps conn_step.simps)
qed

text \<open>After the shutdown \<open>send\<close> still reports success, but none of what it accepts ever
  reaches the wire: writing has been disabled and nothing records that the socket is closed.\<close>

theorem socket_send_after_close_lost:
  assumes "conn_ok (api, bytes) c" and "\<forall>b d. fst (evbuffer_add api b d) \<noteq> - 1"
    and "length d < 2 ^ 32" and "conn_run api (OpClose False # OpSend d # xs) c = Inr c1"
  shows "c_wire c1 = c_wire c \<and> (\<exists>ys. c_accepted c1 = c_accepted c @ d @ ys)"
proof -
  obtain bev where bev: "s_bev (c_sock c) = Some bev"
    using assms(1) by (auto simp: conn_ok_def socket_ok_def)
  obtain c2 where c2: "conn_run api [OpClose False, OpSend d] c = Inr c2" "write_disabled c2"
    "c_wire c2 = c_wire c" "c_accepted c2 = c_accepted c @ d"
    using bev assms(2,3)
    by (auto simp: sock_op_defs case_prod_beta write_disabled_def unat_of_nat Let_def)
  have "conn_run api xs c2 = Inr c1"
    using assms(4) c2(1) conn_run_append [of api "[OpClose False, OpSend d]" xs c] by simp
  from disabled_run [OF c2(2) this] c2(3,4) show ?thesis by auto
qed

theorem socket_send_after_close_lost_witness:
  "\<exists>c1 ys. conn_run list_api [OpClose False, OpSend [7], OpFlush 8] (conn_new (fresh_socket list_api 5)) = Inr c1
    \<and> c_wire c1 = [] \<and> c_accepted c1 = [7] @ ys"
proof -
  let ?c = "conn_new (fresh_socket list_api 5)"
  note ok = fresh_conn_ok [OF list_api_laws, of 5]
  obtain c1 where run: "conn_run list_api (OpClose False # OpSend [7] # [OpFlush 8]) ?c = Inr c1"
    using conn_run_ok [OF ok, of "[OpClose False, OpSend [7], OpFlush 8]"] by auto
  have "\<forall>b d. fst (evbuffer_add list_api b d) \<noteq> - 1" by (simp add: list_api_def)
  from socket_send_after_close_lost [OF ok this _ run] show ?thesis
    using run by (auto simp: conn_new_def)
qed

end
