(* ===== verification/TcpSession.thy ===== *)
theory TcpSession
  imports TcpSocket
begin

text \<open>
  The class \<open>TcpSession\<close> (include/translib/tcpSession.h, src/translib/tcpSession.cpp) and its
  factory (include/translib/tcpSessionFactory.h): the server's end of a connection.

  The virtual functions of the server that a session calls are user code, a parameter: they
  may change the session through its methods and the rest of the program (\<open>'w\<close>), and call
  \<open>addSession\<close> and \<open>removeSession\<close> of the session's dispatcher; these calls are listed in the
  result, in order, for the dispatcher to execute.
\<close>

type_synonym session_id = u64

definition SESSION_ID_INVALID :: session_id where
  "SESSION_ID_INVALID = 0"

record 'b tcpsession = "'b tcpsocket" +
  ts_dispatcher :: "nat option"
  ts_id :: session_id

datatype session_call = AddSession session_id int | RemoveSession session_id

record ('b, 'w) server_code =
  onSessionRead :: "'b tcpsession \<Rightarrow> 'w \<Rightarrow> 'b tcpsession \<times> session_call list \<times> 'w"
  onSessionDisconnected :: "'b tcpsession \<Rightarrow> 'w \<Rightarrow> 'b tcpsession \<times> session_call list \<times> 'w"
  onNewSession :: "'b tcpsession \<Rightarrow> 'w \<Rightarrow> 'b tcpsession \<times> session_call list \<times> 'w"

text \<open>The virtual functions of \<open>TcpServer\<close> itself do nothing.\<close>

definition TcpServer_code :: "('b, 'w) server_code" where
  "TcpServer_code = \<lparr>onSessionRead = (\<lambda>s w. (s, [], w)),
     onSessionDisconnected = (\<lambda>s w. (s, [], w)), onNewSession = (\<lambda>s w. (s, [], w))\<rparr>"

text \<open>Whether \<open>bufferevent_socket_new\<close> and \<open>bufferevent_enable\<close> succeed.\<close>

record attach_env =
  bufferevent_socket_new_ok :: bool
  bufferevent_enable_ok :: bool

definition TcpSession_new :: "'b tcpsession" where
  "TcpSession_new = \<lparr>s_bev = None, s_isClosing = False, ts_dispatcher = None,
     ts_id = SESSION_ID_INVALID\<rparr>"

definition TcpSessionFactory_create :: "'b tcpsession" where
  "TcpSessionFactory_create = TcpSession_new"

definition TcpSession_attach ::
    "'b evbuffer_api \<Rightarrow> ('b, 'w) server_code \<Rightarrow> attach_env \<Rightarrow> nat \<Rightarrow> session_id \<Rightarrow> int
      \<Rightarrow> 'b tcpsession \<Rightarrow> 'w \<Rightarrow> bool \<times> 'b tcpsession \<times> sock_effect list \<times> session_call list \<times> 'w" where
  "TcpSession_attach api code env dispatcher i sock s w =
     (let s1 = s\<lparr>ts_id := i, ts_dispatcher := Some dispatcher\<rparr>
      in if SOCKET_FD_INVALID = sock then (False, s1, [], [], w)
         else if \<not> bufferevent_socket_new_ok env then (False, s1\<lparr>s_bev := None\<rparr>, [], [], w)
         else
           let bev = \<lparr>be_fd = sock, be_input = evbuffer_new api, be_output = evbuffer_new api,
                 be_read = True, be_write = True, be_close_on_free = False\<rparr>
           in if \<not> bufferevent_enable_ok env
              then (False, s1\<lparr>s_bev := None\<rparr>, bufferevent_free bev, [], w)
              else
                let (s2, calls, w1) = onNewSession code (s1\<lparr>s_bev := Some bev\<rparr>) w
                in (True, s2, [], calls, w1))"

definition TcpSession_onRead ::
    "('b, 'w) server_code \<Rightarrow> 'b tcpsession \<Rightarrow> 'w \<Rightarrow> 'b tcpsession \<times> session_call list \<times> 'w" where
  "TcpSession_onRead code s w = onSessionRead code s w"

definition TcpSession_handleEvent ::
    "('b, 'w) server_code \<Rightarrow> 'b tcpsession \<Rightarrow> 'w
      \<Rightarrow> sock_error + 'b tcpsession \<times> sock_effect list \<times> session_call list \<times> 'w" where
  "TcpSession_handleEvent code s w =
     (case s_bev s of
        None \<Rightarrow> Inl NullDeref
      | Some bev \<Rightarrow>
          (let s1 = s\<lparr>s_bev := Some (bev\<lparr>be_read := False, be_write := False\<rparr>)\<rparr>;
               effects = [CloseFd (TcpSocket_socket s1)];
               (s2, calls, w1) = onSessionDisconnected code s1 w
           in Inr (s2, effects, calls @ [RemoveSession (ts_id s2)], w1)))"

text \<open>libevent's callbacks of a session.\<close>

datatype session_event = ReadReady | WriteDone | Disconnect

definition TcpSession_callback ::
    "'b evbuffer_api \<Rightarrow> ('b, 'w) server_code \<Rightarrow> session_event \<Rightarrow> 'b tcpsession \<Rightarrow> 'w
      \<Rightarrow> sock_error + 'b tcpsession \<times> sock_effect list \<times> session_call list \<times> 'w" where
  "TcpSession_callback api code ev s w =
     (case ev of
        ReadReady \<Rightarrow> (let (s1, calls, w1) = TcpSession_onRead code s w in Inr (s1, [], calls, w1))
      | WriteDone \<Rightarrow>
          (case TcpSocket_checkClosing api s of
             Inl err \<Rightarrow> Inl err
           | Inr (s1, effects) \<Rightarrow> Inr (s1, effects, [], w))
      | Disconnect \<Rightarrow> TcpSession_handleEvent code s w)"

section \<open>User code\<close>

text \<open>
  What stays the same under the methods a user has: the id, the descriptor of the bufferevent
  and whether freeing it closes the descriptor.
\<close>

definition session_key :: "'b tcpsession \<Rightarrow> session_id \<times> (int \<times> bool) option" where
  "session_key s = (ts_id s, map_option (\<lambda>b. (be_fd b, be_close_on_free b)) (s_bev s))"

definition server_code_ok :: "('b, 'w) server_code \<Rightarrow> bool" where
  "server_code_ok code \<longleftrightarrow>
     (\<forall>s w. session_key (fst (onSessionRead code s w)) = session_key s)
   \<and> (\<forall>s w. session_key (fst (onSessionDisconnected code s w)) = session_key s)
   \<and> (\<forall>s w. session_key (fst (onNewSession code s w)) = session_key s)"

lemma TcpServer_code_ok: "server_code_ok TcpServer_code"
  by (simp add: server_code_ok_def TcpServer_code_def)

text \<open>The methods of a session keep its key, so user code that uses them is such code.\<close>

lemma methods_keep_key:
  "session_key (snd (TcpSocket_send api d n s)) = session_key s"
  "session_key (snd (snd (TcpSocket_readInputBuffer api s n))) = session_key s"
  "session_key (snd (TcpSocket_viewInputBuffer api s n)) = session_key s"
  "session_key (TcpSocket_clearInputBuffer api s) = session_key s"
  "TcpSocket_close api waiting s = Inr (s1, eff) \<Longrightarrow> session_key s1 = session_key s"
  "TcpSocket_checkClosing api s = Inr (s1, eff) \<Longrightarrow> session_key s1 = session_key s"
  by (auto simp: session_key_def TcpSocket_send_def TcpSocket_readInputBuffer_def
      TcpSocket_viewInputBuffer_def TcpSocket_clearInputBuffer_def TcpSocket_close_def
      TcpSocket_checkClosing_def TcpSocket_closeImpl_def case_prod_beta Let_def
      split: option.splits if_splits)

text \<open>The outcome of \<open>attach\<close>.\<close>

definition attach_ok :: "attach_env \<Rightarrow> int \<Rightarrow> bool" where
  "attach_ok env sock \<longleftrightarrow>
     sock \<noteq> SOCKET_FD_INVALID \<and> bufferevent_socket_new_ok env \<and> bufferevent_enable_ok env"

definition attached :: "'b evbuffer_api \<Rightarrow> nat \<Rightarrow> session_id \<Rightarrow> int \<Rightarrow> 'b tcpsession" where
  "attached api dispatcher i sock =
     \<lparr>s_bev = Some \<lparr>be_fd = sock, be_input = evbuffer_new api, be_output = evbuffer_new api,
        be_read = True, be_write = True, be_close_on_free = False\<rparr>,
      s_isClosing = False, ts_dispatcher = Some dispatcher, ts_id = i\<rparr>"

lemma attach_result:
  "TcpSession_attach api code env dsp i sock TcpSession_new w =
     (if attach_ok env sock
      then let (s, calls, w1) = onNewSession code (attached api dsp i sock) w in (True, s, [], calls, w1)
      else (False, TcpSession_new\<lparr>ts_id := i, ts_dispatcher := Some dsp\<rparr>, [], [], w))"
  by (simp add: TcpSession_attach_def attach_ok_def attached_def TcpSession_new_def
      bufferevent_free_def Let_def)

end
