(* ===== verification/Shared.thy ===== *)
theory Shared
  imports Prelude
begin

text \<open>
  Objects behind \<open>std::shared_ptr\<close>: a heap with use counts. The timers of a \<open>TimerManager\<close> and
  the sessions of a \<open>TcpServerDispatcher\<close> live there. The lemmas relate the counts to the number
  of pointers that exist.
\<close>

type_synonym addr = nat

text \<open>The objects in memory, each with the use count of the pointers to it.\<close>

type_synonym 'o sheap = "addr \<rightharpoonup> 'o \<times> nat"

definition shared_new :: "addr \<Rightarrow> 'o \<Rightarrow> 'o sheap \<Rightarrow> 'o sheap" where
  "shared_new a x h = h(a \<mapsto> (x, 1))"

definition shared_copy :: "addr \<Rightarrow> 'o sheap \<Rightarrow> 'o sheap" where
  "shared_copy a h = (case h a of None \<Rightarrow> h | Some (t, n) \<Rightarrow> h(a \<mapsto> (t, n + 1)))"

text \<open>Dropping the last pointer destroys the object and frees it.\<close>

definition shared_drop :: "addr \<Rightarrow> 'o sheap \<Rightarrow> 'o sheap" where
  "shared_drop a h =
     (case h a of None \<Rightarrow> h | Some (t, n) \<Rightarrow> if n \<le> 1 then h(a := None) else h(a \<mapsto> (t, n - 1)))"

text \<open>The use counts are the numbers \<open>r\<close> of pointers, and only referenced objects exist.\<close>

definition refs_ok :: "'o sheap \<Rightarrow> (addr \<Rightarrow> nat) \<Rightarrow> bool" where
  "refs_ok h r \<longleftrightarrow> (\<forall>a. case h a of None \<Rightarrow> r a = 0 | Some (t, n) \<Rightarrow> n = r a \<and> 0 < n)"

lemma refs_okD:
  assumes "refs_ok h r"
  shows "h a = None \<longleftrightarrow> r a = 0" and "h a = Some (t, n) \<Longrightarrow> n = r a"
  using assms [unfolded refs_ok_def, rule_format, of a] by (auto split: option.splits)

lemma refs_upd:
  assumes "refs_ok h r" and "case v of None \<Rightarrow> n = 0 | Some (t, k) \<Rightarrow> k = n \<and> 0 < n"
  shows "refs_ok (h(a := v)) (r(a := n))"
  unfolding refs_ok_def
proof
  fix b
  show "case (h(a := v)) b of None \<Rightarrow> (r(a := n)) b = 0 | Some (t, k) \<Rightarrow> k = (r(a := n)) b \<and> 0 < k"
    using assms(1) [unfolded refs_ok_def, rule_format, of b] assms(2)
    by (cases "b = a") (auto split: option.splits)
qed

lemma refs_new: "refs_ok h r \<Longrightarrow> refs_ok (shared_new a x h) (r(a := 1))"
  unfolding shared_new_def by (rule refs_upd) simp_all

lemma refs_cell:
  assumes "refs_ok h r" and "0 < r a"
  obtains t where "h a = Some (t, r a)"
  using assms refs_okD [OF assms(1), of a] by (cases "h a") auto

lemma refs_copy:
  assumes "refs_ok h r" and "0 < r a"
  shows "refs_ok (shared_copy a h) (r(a := r a + 1))"
proof -
  obtain t where "h a = Some (t, r a)" using assms by (rule refs_cell)
  then show ?thesis by (simp add: shared_copy_def refs_upd [OF assms(1)])
qed

lemma refs_drop:
  assumes "refs_ok h r" and "0 < r a"
  shows "refs_ok (shared_drop a h) (r(a := r a - 1))"
proof -
  obtain t where "h a = Some (t, r a)" using assms by (rule refs_cell)
  then show ?thesis using assms(2) by (simp add: shared_drop_def refs_upd [OF assms(1)])
qed

lemma refs_use: "refs_ok h r \<Longrightarrow> h a = Some (t, n) \<Longrightarrow> refs_ok (h(a \<mapsto> (t1, n))) r"
  by (auto simp: refs_ok_def split: option.splits)

lemma drop_other: "b \<noteq> a \<Longrightarrow> shared_drop a h b = h b"
  by (simp add: shared_drop_def split: option.split)

lemma drop_keeps: "shared_drop a h b = Some (t, n) \<Longrightarrow> \<exists>k. h b = Some (t, k)"
  by (auto simp: shared_drop_def split: option.splits if_splits prod.splits)

end
