(* ===== verification/TcpServerDispatcher.thy ===== *)
theory TcpServerDispatcher
  imports TcpSession Shared
begin

text \<open>
  The class \<open>TcpServerDispatcher\<close> (include/translib/tcpServerDispatcher.h,
  src/translib/tcpServerDispatcher.cpp): the sessions of one loop, and the queue of additions
  and removals that \<open>onFrame\<close> works off.

  Each method holds the recursive mutex while it uses the members, so it is one step. The
  session objects live in a heap with use counts; the pointer handed out by \<open>getSession\<close> is a
  count.
\<close>

section \<open>State\<close>

record session_action =
  sa_id :: session_id
  sa_sock :: int

record ('b, 'w) dispatcher =
  d_no :: nat
  d_sessions :: "session_id \<rightharpoonup> addr"
  d_actions :: "session_action list"
  d_heap :: "'b tcpsession sheap"
  d_next :: addr
  d_effects :: "sock_effect list"
  d_user :: 'w

text \<open>
  \<open>d_no\<close> tells the dispatchers of a server apart; \<open>d_next\<close> is the address of the next session;
  \<open>d_effects\<close> are the system calls made so far, and \<open>d_user\<close> is the state of the user's code.
\<close>

definition TcpServerDispatcher_new :: "nat \<Rightarrow> 'w \<Rightarrow> ('b, 'w) dispatcher" where
  "TcpServerDispatcher_new k w = \<lparr>d_no = k, d_sessions = (\<lambda>i. None), d_actions = [],
     d_heap = (\<lambda>a. None), d_next = 0, d_effects = [], d_user = w\<rparr>"

section \<open>Operations\<close>

text \<open>Dropping a pointer to a session; the last one runs the destructor.\<close>

definition release_session :: "addr \<Rightarrow> ('b, 'w) dispatcher \<Rightarrow> ('b, 'w) dispatcher" where
  "release_session a d =
     (case d_heap d a of
        None \<Rightarrow> d
      | Some (s, n) \<Rightarrow>
          d\<lparr>d_heap := shared_drop a (d_heap d),
            d_effects := d_effects d @ (if n \<le> 1 then snd (TcpSocket_destroy s) else [])\<rparr>)"

definition TcpServerDispatcher_getSession ::
    "session_id \<Rightarrow> ('b, 'w) dispatcher \<Rightarrow> addr option \<times> ('b, 'w) dispatcher" where
  "TcpServerDispatcher_getSession i d =
     (case d_sessions d i of
        None \<Rightarrow> (None, d)
      | Some a \<Rightarrow> (Some a, d\<lparr>d_heap := shared_copy a (d_heap d)\<rparr>))"

definition TcpServerDispatcher_addSession ::
    "session_id \<Rightarrow> int \<Rightarrow> ('b, 'w) dispatcher \<Rightarrow> ('b, 'w) dispatcher" where
  "TcpServerDispatcher_addSession i sock d =
     d\<lparr>d_actions := d_actions d @ [\<lparr>sa_id = i, sa_sock = sock\<rparr>]\<rparr>"

definition TcpServerDispatcher_removeSession ::
    "session_id \<Rightarrow> ('b, 'w) dispatcher \<Rightarrow> ('b, 'w) dispatcher" where
  "TcpServerDispatcher_removeSession i d =
     d\<lparr>d_actions := d_actions d @ [\<lparr>sa_id = i, sa_sock = SOCKET_FD_INVALID\<rparr>]\<rparr>"

fun do_call :: "session_call \<Rightarrow> ('b, 'w) dispatcher \<Rightarrow> ('b, 'w) dispatcher" where
  "do_call (AddSession i sock) d = TcpServerDispatcher_addSession i sock d"
| "do_call (RemoveSession i) d = TcpServerDispatcher_removeSession i d"

text \<open>\<open>_sessions[session->id()] = session\<close>: the entry that was there is released.\<close>

definition store_session :: "session_id \<Rightarrow> addr \<Rightarrow> ('b, 'w) dispatcher \<Rightarrow> ('b, 'w) dispatcher" where
  "store_session i a d =
     (let old = d_sessions d i;
          d1 = d\<lparr>d_heap := shared_copy a (d_heap d), d_sessions := smap_assign i a (d_sessions d)\<rparr>
      in case old of None \<Rightarrow> d1 | Some b \<Rightarrow> release_session b d1)"

text \<open>The branch of \<open>onFrame\<close> that adds a session; its local pointer is released at the end.\<close>

definition add_action ::
    "'b evbuffer_api \<Rightarrow> ('b, 'w) server_code \<Rightarrow> (session_id \<Rightarrow> attach_env) \<Rightarrow> session_action
      \<Rightarrow> ('b, 'w) dispatcher \<Rightarrow> ('b, 'w) dispatcher" where
  "add_action api code env action d =
     (let a = d_next d;
          d1 = d\<lparr>d_next := d_next d + 1, d_heap := shared_new a TcpSessionFactory_create (d_heap d)\<rparr>;
          (ok, s, effects, calls, w) = TcpSession_attach api code (env (sa_id action)) (d_no d)
             (sa_id action) (sa_sock action) TcpSessionFactory_create (d_user d1);
          d2 = d1\<lparr>d_heap := (d_heap d1)(a \<mapsto> (s, 1)), d_effects := d_effects d1 @ effects,
             d_user := w\<rparr>;
          d3 = fold do_call calls d2;
          d4 = (if ok then store_session (ts_id s) a d3 else d3)
      in release_session a d4)"

text \<open>The branch that removes a session.\<close>

definition remove_action :: "session_action \<Rightarrow> ('b, 'w) dispatcher \<Rightarrow> ('b, 'w) dispatcher" where
  "remove_action action d =
     (let old = d_sessions d (sa_id action);
          d1 = d\<lparr>d_sessions := smap_erase (sa_id action) (d_sessions d)\<rparr>
      in case old of None \<Rightarrow> d1 | Some a \<Rightarrow> release_session a d1)"

text \<open>The loop of \<open>onFrame\<close>; the queue may grow while it runs.\<close>

partial_function (option) on_frame_loop ::
    "'b evbuffer_api \<Rightarrow> ('b, 'w) server_code \<Rightarrow> (session_id \<Rightarrow> attach_env)
      \<Rightarrow> ('b, 'w) dispatcher \<Rightarrow> ('b, 'w) dispatcher option" where
  "on_frame_loop api code env d =
     (case d_actions d of
        [] \<Rightarrow> Some d
      | action # rest \<Rightarrow>
          let d1 = (if sa_sock action \<noteq> SOCKET_FD_INVALID then add_action api code env action d
                    else remove_action action d)
          in on_frame_loop api code env (d1\<lparr>d_actions := tl (d_actions d1)\<rparr>))"

definition TcpServerDispatcher_onFrame ::
    "'b evbuffer_api \<Rightarrow> ('b, 'w) server_code \<Rightarrow> (session_id \<Rightarrow> attach_env)
      \<Rightarrow> ('b, 'w) dispatcher \<Rightarrow> ('b, 'w) dispatcher option" where
  "TcpServerDispatcher_onFrame api code env d =
     (if d_actions d = [] then Some d else on_frame_loop api code env d)"

text \<open>libevent calls back the session at \<open>a\<close>.\<close>

definition session_callback ::
    "'b evbuffer_api \<Rightarrow> ('b, 'w) server_code \<Rightarrow> session_event \<Rightarrow> addr
      \<Rightarrow> ('b, 'w) dispatcher \<Rightarrow> sock_error + ('b, 'w) dispatcher" where
  "session_callback api code ev a d =
     (case d_heap d a of
        None \<Rightarrow> Inl NullDeref
      | Some (s, n) \<Rightarrow>
          (case TcpSession_callback api code ev s (d_user d) of
             Inl err \<Rightarrow> Inl err
           | Inr (s1, effects, calls, w) \<Rightarrow>
               Inr (fold do_call calls (d\<lparr>d_heap := (d_heap d)(a \<mapsto> (s1, n)),
                 d_effects := d_effects d @ effects, d_user := w\<rparr>))))"

section \<open>The sessions as a table\<close>

text \<open>What a client of a dispatcher can see: which ids have a session, and on which socket.\<close>

definition session_at :: "('b, 'w) dispatcher \<Rightarrow> session_id \<rightharpoonup> int" where
  "session_at d i =
     (case d_sessions d i of
        None \<Rightarrow> None
      | Some a \<Rightarrow> map_option (\<lambda>(s, n). TcpSocket_socket s) (d_heap d a))"

text \<open>What an action means.\<close>

definition action_spec ::
    "(session_id \<Rightarrow> attach_env) \<Rightarrow> session_action \<Rightarrow> (session_id \<rightharpoonup> int) \<Rightarrow> (session_id \<rightharpoonup> int)" where
  "action_spec env action m =
     (if sa_sock action = SOCKET_FD_INVALID then m(sa_id action := None)
      else if attach_ok (env (sa_id action)) (sa_sock action) then m(sa_id action \<mapsto> sa_sock action)
      else m)"

section \<open>The invariant\<close>

text \<open>
  Every session in the table is connected and has its key as its id; a session exists exactly
  as long as the table or the program (\<open>held\<close>) points to it; addresses are not used again; and
  destroying a session does not close its descriptor.
\<close>

definition fd_kept :: "'b tcpsession \<Rightarrow> bool" where
  "fd_kept s \<longleftrightarrow> (\<forall>b. s_bev s = Some b \<longrightarrow> \<not> be_close_on_free b)"

definition table_refs :: "('b, 'w) dispatcher \<Rightarrow> (addr \<Rightarrow> nat) \<Rightarrow> addr \<Rightarrow> nat" where
  "table_refs d held a = (if a \<in> ran (d_sessions d) then 1 else 0) + held a"

definition dispatcher_ok :: "('b, 'w) dispatcher \<Rightarrow> (addr \<Rightarrow> nat) \<Rightarrow> bool" where
  "dispatcher_ok d held \<longleftrightarrow>
     refs_ok (d_heap d) (table_refs d held)
   \<and> (\<forall>i a s n. d_sessions d i = Some a \<longrightarrow> d_heap d a = Some (s, n) \<longrightarrow> ts_id s = i \<and> s_bev s \<noteq> None)
   \<and> (\<forall>a. d_next d \<le> a \<longrightarrow> d_heap d a = None)
   \<and> (\<forall>a s n. d_heap d a = Some (s, n) \<longrightarrow> fd_kept s)"

lemma do_call_fields [simp]:
  "d_sessions (do_call c d) = d_sessions d" "d_heap (do_call c d) = d_heap d"
  "d_next (do_call c d) = d_next d" "d_effects (do_call c d) = d_effects d"
  "d_user (do_call c d) = d_user d" "d_no (do_call c d) = d_no d"
  by (cases c; simp add: TcpServerDispatcher_addSession_def TcpServerDispatcher_removeSession_def)+

lemma do_calls_fields [simp]:
  "d_sessions (fold do_call cs d) = d_sessions d" "d_heap (fold do_call cs d) = d_heap d"
  "d_next (fold do_call cs d) = d_next d" "d_effects (fold do_call cs d) = d_effects d"
  "d_user (fold do_call cs d) = d_user d" "d_no (fold do_call cs d) = d_no d"
  by (induction cs arbitrary: d) simp_all

fun action_of :: "session_call \<Rightarrow> session_action" where
  "action_of (AddSession i sock) = \<lparr>sa_id = i, sa_sock = sock\<rparr>"
| "action_of (RemoveSession i) = \<lparr>sa_id = i, sa_sock = SOCKET_FD_INVALID\<rparr>"

lemma do_calls_actions: "d_actions (fold do_call cs d) = d_actions d @ map action_of cs"
proof (induction cs arbitrary: d)
  case Nil
  then show ?case by simp
next
  case (Cons c cs)
  then show ?case
    by (cases c) (simp_all add: TcpServerDispatcher_addSession_def
        TcpServerDispatcher_removeSession_def)
qed

lemma release_fields [simp]:
  "d_sessions (release_session a d) = d_sessions d" "d_heap (release_session a d) = shared_drop a (d_heap d)"
  "d_next (release_session a d) = d_next d" "d_actions (release_session a d) = d_actions d"
  "d_user (release_session a d) = d_user d" "d_no (release_session a d) = d_no d"
  by (auto simp: release_session_def shared_drop_def split: option.splits)

lemma dispatcher_okD:
  assumes "dispatcher_ok d held"
  shows "refs_ok (d_heap d) (table_refs d held)"
    and "d_sessions d i = Some a \<Longrightarrow> \<exists>s n. d_heap d a = Some (s, n) \<and> ts_id s = i \<and> s_bev s \<noteq> None"
    and "d_sessions d i = Some a \<Longrightarrow> d_sessions d j = Some a \<Longrightarrow> i = j"
    and "d_heap d (d_next d) = None" "held (d_next d) = 0" "d_sessions d i \<noteq> Some (d_next d)"
    and "d_heap d a = Some (s, n) \<Longrightarrow> fd_kept s"
proof -
  show "fd_kept s" if "d_heap d a = Some (s, n)"
    using assms that unfolding dispatcher_ok_def by blast
  show refs: "refs_ok (d_heap d) (table_refs d held)" using assms by (simp add: dispatcher_ok_def)
  show session: "\<exists>s n. d_heap d a = Some (s, n) \<and> ts_id s = i \<and> s_bev s \<noteq> None"
    if at: "d_sessions d i = Some a" for i a
  proof -
    have "0 < table_refs d held a" using at by (auto simp: table_refs_def intro: ranI)
    with refs obtain s where s: "d_heap d a = Some (s, table_refs d held a)" by (rule refs_cell)
    with assms at show ?thesis unfolding dispatcher_ok_def by blast
  qed
  show "i = j" if "d_sessions d i = Some a" "d_sessions d j = Some a"
    using session [OF that(1)] session [OF that(2)] by auto
  show fresh: "d_heap d (d_next d) = None" using assms by (simp add: dispatcher_ok_def)
  then have none: "table_refs d held (d_next d) = 0" using refs_okD(1) [OF refs] by blast
  then show "held (d_next d) = 0" by (simp add: table_refs_def)
  show "d_sessions d i \<noteq> Some (d_next d)"
    using none by (auto simp: table_refs_def ran_def split: if_splits)
qed

lemma dispatcher_okI:
  assumes "refs_ok (d_heap d) (table_refs d held)"
    and "\<And>i a s n. d_sessions d i = Some a \<Longrightarrow> d_heap d a = Some (s, n) \<Longrightarrow> ts_id s = i \<and> s_bev s \<noteq> None"
    and "\<And>a. d_next d \<le> a \<Longrightarrow> d_heap d a = None"
    and "\<And>a s n. d_heap d a = Some (s, n) \<Longrightarrow> fd_kept s"
  shows "dispatcher_ok d held"
  using assms unfolding dispatcher_ok_def by blast

lemma dispatcher_ok_same:
  assumes "dispatcher_ok d held" and "d_sessions d1 = d_sessions d" "d_heap d1 = d_heap d"
    "d_next d \<le> d_next d1"
  shows "dispatcher_ok d1 held" and "session_at d1 = session_at d"
proof -
  have refs: "table_refs d1 held = table_refs d held" by (rule ext) (simp add: table_refs_def assms(2))
  show "dispatcher_ok d1 held"
    using assms(1,4) unfolding dispatcher_ok_def assms(2,3) refs by (metis le_trans)
  show "session_at d1 = session_at d" by (rule ext) (simp only: session_at_def assms(2,3))
qed

text \<open>Taking an entry out of the table, with its pointer.\<close>

lemma table_refs_erase:
  assumes "dispatcher_ok d held" and "d_sessions d i = Some a"
    and "d_sessions d1 = (d_sessions d)(i := None)"
  shows "table_refs d1 held = (table_refs d held)(a := table_refs d held a - 1)"
proof
  fix b
  have "a \<notin> ran ((d_sessions d)(i := None))"
    using dispatcher_okD(3) [OF assms(1,2)] by (auto simp: ran_def)
  moreover have "b \<in> ran ((d_sessions d)(i := None)) \<longleftrightarrow> b \<in> ran (d_sessions d)" if "b \<noteq> a"
    using assms(2) that by (auto simp: ran_def) (metis option.inject)
  moreover have "a \<in> ran (d_sessions d)" using assms(2) by (rule ranI)
  ultimately show "table_refs d1 held b = ((table_refs d held)(a := table_refs d held a - 1)) b"
    by (simp add: table_refs_def assms(3))
qed

lemma erase_entry_ok:
  assumes ok: "dispatcher_ok d held" and some: "d_sessions d i = Some a"
    and fields: "d_sessions d1 = (d_sessions d)(i := None)" "d_heap d1 = shared_drop a (d_heap d)"
      "d_next d1 = d_next d"
  shows "dispatcher_ok d1 held" and "session_at d1 = (session_at d)(i := None)"
proof -
  have other: "d_heap d1 b = d_heap d b" "d_sessions d j = Some b" if "d_sessions d1 j = Some b" for j b
  proof -
    show at: "d_sessions d j = Some b" using that by (simp add: fields split: if_splits)
    have "b \<noteq> a" using dispatcher_okD(3) [OF ok some, of j] that by (auto simp: fields split: if_splits)
    then show "d_heap d1 b = d_heap d b" by (simp add: fields drop_other)
  qed
  have kept: "\<exists>m. d_heap d b = Some (s, m)" if "d_heap d1 b = Some (s, n)" for b s n
    using that drop_keeps [of a "d_heap d" b] by (auto simp: fields)
  have "0 < table_refs d held a" using some by (auto simp: table_refs_def intro: ranI)
  then have "refs_ok (d_heap d1) (table_refs d1 held)"
    unfolding table_refs_erase [OF ok some fields(1)] fields(2)
    by (rule refs_drop [OF dispatcher_okD(1) [OF ok]])
  then show "dispatcher_ok d1 held"
  proof (rule dispatcher_okI)
    show "ts_id s = j \<and> s_bev s \<noteq> None" if "d_sessions d1 j = Some b" "d_heap d1 b = Some (s, n)" for j b s n
      using dispatcher_okD(2) [OF ok other(2) [OF that(1)]] other(1) [OF that(1)] that(2) by auto
    show "d_heap d1 b = None" if "d_next d1 \<le> b" for b
      using ok that kept [of b] by (cases "d_heap d1 b") (auto simp: fields dispatcher_ok_def)
    show "fd_kept s" if "d_heap d1 b = Some (s, n)" for b s n
      using kept [OF that] dispatcher_okD(7) [OF ok] by blast
  qed
  show "session_at d1 = (session_at d)(i := None)"
  proof
    show "session_at d1 j = ((session_at d)(i := None)) j" for j
      using other(1) [of j] by (cases "d_sessions d1 j") (auto simp: session_at_def fields(1) split: if_splits)
  qed
qed

text \<open>Putting a new session into the table.\<close>

lemma new_entry_ok:
  assumes ok: "dispatcher_ok d held" and none: "d_sessions d i = None"
    and key: "session_key s = (i, Some (sock, False))"
    and fields: "d_sessions d1 = (d_sessions d)(i \<mapsto> d_next d)"
      "d_heap d1 = (d_heap d)(d_next d \<mapsto> (s, 1))" "d_next d1 = d_next d + 1"
  shows "dispatcher_ok d1 held" and "session_at d1 = (session_at d)(i \<mapsto> sock)"
proof -
  note fresh = dispatcher_okD(4-6) [OF ok]
  have refs: "table_refs d1 held = (table_refs d held)(d_next d := 1)"
    using fresh none by (auto simp: table_refs_def fields(1) ran_def fun_eq_iff)
  have "refs_ok (d_heap d1) (table_refs d1 held)"
    unfolding refs fields(2) by (rule refs_upd [OF dispatcher_okD(1) [OF ok]]) simp
  then show "dispatcher_ok d1 held"
  proof (rule dispatcher_okI)
    show "ts_id s1 = j \<and> s_bev s1 \<noteq> None" if "d_sessions d1 j = Some b" "d_heap d1 b = Some (s1, n)" for j b s1 n
      using that dispatcher_okD(2) [OF ok, of j b] key fresh(3)
      by (auto simp: fields session_key_def split: if_splits)
    show "d_heap d1 b = None" if "d_next d1 \<le> b" for b
      using that ok by (auto simp: fields dispatcher_ok_def)
    show "fd_kept s1" if "d_heap d1 b = Some (s1, n)" for b s1 n
      using that dispatcher_okD(7) [OF ok, of b s1] key
      by (auto simp: fields fd_kept_def session_key_def split: if_splits)
  qed
  have "TcpSocket_socket s = sock" using key by (auto simp: session_key_def TcpSocket_socket_def)
  then show "session_at d1 = (session_at d)(i \<mapsto> sock)"
    using fresh(3) by (auto simp: session_at_def fields fun_eq_iff split: option.split)
qed

lemma remove_action_ok:
  assumes ok: "dispatcher_ok d held"
  shows "dispatcher_ok (remove_action action d) held"
    and "session_at (remove_action action d) = (session_at d)(sa_id action := None)"
proof (atomize (full), cases "d_sessions d (sa_id action)")
  case None
  then have "remove_action action d = d"
    by (simp add: remove_action_def smap_erase_def fun_upd_idem)
  with ok None show "dispatcher_ok (remove_action action d) held
      \<and> session_at (remove_action action d) = (session_at d)(sa_id action := None)"
    by (auto simp: session_at_def)
next
  case (Some a)
  let ?d = "remove_action action d"
  have "d_sessions ?d = (d_sessions d)(sa_id action := None)" "d_heap ?d = shared_drop a (d_heap d)"
    "d_next ?d = d_next d"
    using Some by (simp_all add: remove_action_def smap_erase_def Let_def)
  from erase_entry_ok [OF ok Some this] show "dispatcher_ok ?d held
      \<and> session_at ?d = (session_at d)(sa_id action := None)" ..
qed

text \<open>A dispatcher is a table of sessions: removing an id erases it.\<close>

interpretation sessions: id_table session_at
  "\<lambda>i. remove_action \<lparr>sa_id = i, sa_sock = SOCKET_FD_INVALID\<rparr>" "\<lambda>d. \<exists>held. dispatcher_ok d held"
  by unfold_locales (auto simp: remove_action_ok(2) intro: remove_action_ok(1))

lemma add_action_failed:
  assumes "\<not> attach_ok (env (sa_id action)) (sa_sock action)" and "d_heap d (d_next d) = None"
  shows "add_action api code env action d = d\<lparr>d_next := d_next d + 1\<rparr>"
proof -
  have "TcpSession_attach api code (env (sa_id action)) (d_no d) (sa_id action) (sa_sock action)
      TcpSessionFactory_create w = (False, TcpSession_new\<lparr>ts_id := sa_id action,
        ts_dispatcher := Some (d_no d)\<rparr>, [], [], w)" for w
    using assms(1) by (simp add: attach_result TcpSessionFactory_create_def)
  then show ?thesis
    using assms(2)
    by (simp add: add_action_def release_session_def shared_new_def shared_drop_def
        TcpSocket_destroy_def TcpSession_new_def fun_upd_idem)
qed

lemma add_action_done:
  assumes ok: "dispatcher_ok d held" and attach: "attach_ok (env (sa_id action)) (sa_sock action)"
    and new: "onNewSession code (attached api (d_no d) (sa_id action) (sa_sock action)) (d_user d) = (s, calls, w)"
    and key: "ts_id s = sa_id action"
  shows "let d1 = add_action api code env action d in
      d_sessions d1 = (d_sessions d)(sa_id action \<mapsto> d_next d)
    \<and> d_heap d1 = (case d_sessions d (sa_id action) of None \<Rightarrow> d_heap d
        | Some b \<Rightarrow> shared_drop b (d_heap d))(d_next d \<mapsto> (s, 1))
    \<and> d_next d1 = d_next d + 1 \<and> d_actions d1 = d_actions d @ map action_of calls
    \<and> d_user d1 = w \<and> d_no d1 = d_no d"
proof -
  let ?a = "d_next d" and ?i = "sa_id action"
  define d3 where "d3 = fold do_call calls
      (d\<lparr>d_next := ?a + 1, d_heap := (d_heap d)(?a \<mapsto> (s, 1)), d_effects := d_effects d @ [], d_user := w\<rparr>)"
  have run: "add_action api code env action d = release_session ?a (store_session ?i ?a d3)"
    using attach new key
    by (simp add: add_action_def attach_result TcpSessionFactory_create_def shared_new_def d3_def Let_def)
  have d3: "d_sessions d3 = d_sessions d" "d_heap d3 = (d_heap d)(?a \<mapsto> (s, 1))" "d_next d3 = ?a + 1"
    "d_actions d3 = d_actions d @ map action_of calls" "d_user d3 = w" "d_no d3 = d_no d"
    by (simp_all add: d3_def do_calls_actions)
  have other: "b \<noteq> ?a" if "d_sessions d ?i = Some b" for b
    using dispatcher_okD(6) [OF ok, of ?i] that by auto
  show ?thesis
    unfolding run Let_def
    by (cases "d_sessions d ?i")
      (auto simp: store_session_def d3 smap_assign_def shared_copy_def shared_drop_def Let_def
        dest: other split: option.splits)
qed

lemma add_action_ok:
  assumes ok: "dispatcher_ok d held" and attach: "attach_ok (env (sa_id action)) (sa_sock action)"
    and new: "onNewSession code (attached api (d_no d) (sa_id action) (sa_sock action)) (d_user d) = (s, calls, w)"
    and code: "server_code_ok code"
  shows "dispatcher_ok (add_action api code env action d) held"
    and "session_at (add_action api code env action d) = (session_at d)(sa_id action \<mapsto> sa_sock action)"
proof -
  let ?a = "d_next d" and ?i = "sa_id action" and ?d = "add_action api code env action d"
  let ?rm = "remove_action \<lparr>sa_id = ?i, sa_sock = SOCKET_FD_INVALID\<rparr> d"
  have key: "session_key s = (?i, Some (sa_sock action, False))"
  proof -
    have "session_key s = session_key (attached api (d_no d) ?i (sa_sock action))"
      using code new by (metis server_code_ok_def fst_conv)
    then show ?thesis by (simp add: session_key_def attached_def)
  qed
  have id: "ts_id s = ?i" using key by (simp add: session_key_def)
  note outcome = add_action_done [OF ok _ new id, of env, OF attach, unfolded Let_def]
  have d0: "d_sessions ?rm = (d_sessions d)(?i := None)" "d_next ?rm = ?a"
    "d_heap ?rm = (case d_sessions d ?i of None \<Rightarrow> d_heap d | Some b \<Rightarrow> shared_drop b (d_heap d))"
    by (simp_all add: remove_action_def smap_erase_def Let_def split: option.split)
  have none: "d_sessions ?rm ?i = None" by (simp add: d0)
  have "d_sessions ?d = (d_sessions ?rm)(?i \<mapsto> d_next ?rm)"
    "d_heap ?d = (d_heap ?rm)(d_next ?rm \<mapsto> (s, 1))" "d_next ?d = d_next ?rm + 1"
    using outcome by (simp_all add: d0)
  note new_entry_ok [OF remove_action_ok(1) [OF ok] none key this]
  then show "dispatcher_ok ?d held" "session_at ?d = (session_at d)(?i \<mapsto> sa_sock action)"
    by (simp_all add: remove_action_ok(2) [OF ok])
qed

section \<open>A frame\<close>

text \<open>User code that removes sessions, but adds none, when a session is new.\<close>

definition only_removes :: "('b, 'w) server_code \<Rightarrow> bool" where
  "only_removes code \<longleftrightarrow>
     (\<forall>s w. \<forall>c \<in> set (fst (snd (onNewSession code s w))). sa_sock (action_of c) = SOCKET_FD_INVALID)"

text \<open>The actions that the calls of \<open>onNewSession\<close> append while the queue is worked off.\<close>

fun frame_pushes ::
    "'b evbuffer_api \<Rightarrow> ('b, 'w) server_code \<Rightarrow> (session_id \<Rightarrow> attach_env) \<Rightarrow> nat
      \<Rightarrow> session_action list \<Rightarrow> 'w \<Rightarrow> session_action list \<times> 'w" where
  "frame_pushes api code env k [] w = ([], w)"
| "frame_pushes api code env k (action # acts) w =
     (if attach_ok (env (sa_id action)) (sa_sock action)
      then let (s, calls, w1) = onNewSession code (attached api k (sa_id action) (sa_sock action)) w;
               (pushes, w2) = frame_pushes api code env k acts w1
           in (map action_of calls @ pushes, w2)
      else frame_pushes api code env k acts w)"

lemma attach_ok_valid: "attach_ok e sock \<Longrightarrow> sock \<noteq> SOCKET_FD_INVALID"
  by (simp add: attach_ok_def)

lemma remove_action_fields:
  "d_actions (remove_action action d) = d_actions d" "d_user (remove_action action d) = d_user d"
  "d_no (remove_action action d) = d_no d" "d_next (remove_action action d) = d_next d"
  by (simp_all add: remove_action_def Let_def split: option.split)

lemma pop_ok:
  "dispatcher_ok (d\<lparr>d_actions := acts\<rparr>) held = dispatcher_ok d held"
  "session_at (d\<lparr>d_actions := acts\<rparr>) = session_at d"
  by (simp add: dispatcher_ok_def table_refs_def [abs_def])
    (auto simp: session_at_def fun_eq_iff split: option.split)

text \<open>The removals at the end of the queue.\<close>

lemma on_frame_removes:
  "dispatcher_ok d held \<Longrightarrow> d_actions d = rs \<Longrightarrow> \<forall>r \<in> set rs. sa_sock r = SOCKET_FD_INVALID \<Longrightarrow>
    \<exists>d1. on_frame_loop api code env d = Some d1 \<and> dispatcher_ok d1 held \<and> d_actions d1 = []
      \<and> session_at d1 = fold (action_spec env) rs (session_at d) \<and> d_user d1 = d_user d"
proof (induction rs arbitrary: d)
  case Nil
  then show ?case by (subst on_frame_loop.simps) simp
next
  case (Cons r rs)
  let ?d = "(remove_action r d)\<lparr>d_actions := rs\<rparr>"
  have "dispatcher_ok ?d held" by (simp add: pop_ok remove_action_ok(1) [OF Cons.prems(1)])
  from Cons.IH [OF this] Cons.prems(3) obtain d1 where
    "on_frame_loop api code env ?d = Some d1" "dispatcher_ok d1 held" "d_actions d1 = []"
    "session_at d1 = fold (action_spec env) rs (session_at ?d)" "d_user d1 = d_user ?d" by auto
  then show ?case
    using Cons.prems(2,3)
    by (subst on_frame_loop.simps)
      (simp add: remove_action_fields pop_ok remove_action_ok(2) [OF Cons.prems(1)] action_spec_def Let_def)
qed

lemma frame_pushes_Cons:
  "frame_pushes api code env k [action] w = (pushes, w1) \<Longrightarrow>
    frame_pushes api code env k (action # acts) w =
      (pushes @ fst (frame_pushes api code env k acts w1), snd (frame_pushes api code env k acts w1))"
  by (auto simp: case_prod_beta Let_def split: if_splits)

text \<open>One turn of the loop: the action is carried out, and what the user's code asks for is queued.\<close>

lemma on_frame_turn:
  assumes ok: "dispatcher_ok d held" and acts: "d_actions d = action # rest"
    and code: "server_code_ok code" "only_removes code"
  obtains d1 pushes where "on_frame_loop api code env d = on_frame_loop api code env d1"
    "dispatcher_ok d1 held" "d_actions d1 = rest @ pushes"
    "\<forall>r \<in> set pushes. sa_sock r = SOCKET_FD_INVALID"
    "session_at d1 = action_spec env action (session_at d)" "d_no d1 = d_no d"
    "frame_pushes api code env (d_no d) [action] (d_user d) = (pushes, d_user d1)"
proof -
  let ?i = "sa_id action" and ?sock = "sa_sock action"
  define d0 where "d0 = (if ?sock \<noteq> SOCKET_FD_INVALID then add_action api code env action d
    else remove_action action d)"
  have turn: "on_frame_loop api code env d = on_frame_loop api code env (d0\<lparr>d_actions := tl (d_actions d0)\<rparr>)"
    using acts by (subst on_frame_loop.simps) (simp add: d0_def Let_def)
  show thesis
  proof (cases "attach_ok (env ?i) ?sock")
    case True
    obtain s calls w where new: "onNewSession code (attached api (d_no d) ?i ?sock) (d_user d) = (s, calls, w)"
      by (rule prod_cases3)
    have "session_key s = session_key (attached api (d_no d) ?i ?sock)"
      using code(1) new by (metis server_code_ok_def fst_conv)
    then have "ts_id s = ?i" by (simp add: session_key_def attached_def)
    note add = add_action_ok [OF ok _ new code(1), of env, OF True]
      add_action_done [OF ok _ new this, of env, OF True, unfolded Let_def]
    have d0: "d0 = add_action api code env action d" using attach_ok_valid [OF True] by (simp add: d0_def)
    have "\<forall>r \<in> set (map action_of calls). sa_sock r = SOCKET_FD_INVALID"
      using code(2) new by (auto simp: only_removes_def) (metis fst_conv snd_conv)
    then show thesis
      using that [OF turn, of "map action_of calls"] True add acts attach_ok_valid [OF True]
      by (simp add: d0 pop_ok new action_spec_def)
  next
    case False
    have fresh: "d_heap d (d_next d) = None" using ok by (rule dispatcher_okD)
    have "dispatcher_ok d0 held" "session_at d0 = action_spec env action (session_at d)"
      "d_actions d0 = d_actions d" "d_user d0 = d_user d" "d_no d0 = d_no d"
      using False remove_action_ok [OF ok] dispatcher_ok_same [OF ok, of "d\<lparr>d_next := d_next d + 1\<rparr>"]
      by (simp_all add: d0_def action_spec_def remove_action_fields add_action_failed [OF _ fresh])
    then show thesis using that [OF turn, of "[]"] False acts by (simp add: pop_ok)
  qed
qed

lemma on_frame_works_off:
  "dispatcher_ok d held \<Longrightarrow> d_actions d = acts @ rs \<Longrightarrow>
    \<forall>r \<in> set rs. sa_sock r = SOCKET_FD_INVALID \<Longrightarrow> server_code_ok code \<Longrightarrow> only_removes code \<Longrightarrow>
    \<exists>d1. on_frame_loop api code env d = Some d1 \<and> dispatcher_ok d1 held \<and> d_actions d1 = []
      \<and> session_at d1 = fold (action_spec env)
          (acts @ rs @ fst (frame_pushes api code env (d_no d) acts (d_user d))) (session_at d)
      \<and> d_user d1 = snd (frame_pushes api code env (d_no d) acts (d_user d))"
proof (induction acts arbitrary: d rs)
  case Nil
  then show ?case using on_frame_removes by fastforce
next
  case (Cons action acts)
  have "d_actions d = action # acts @ rs" using Cons.prems(2) by simp
  with Cons.prems(1) obtain d0 pushes where
    d0: "on_frame_loop api code env d = on_frame_loop api code env d0" "dispatcher_ok d0 held"
      "d_actions d0 = (acts @ rs) @ pushes" "\<forall>r \<in> set pushes. sa_sock r = SOCKET_FD_INVALID"
      "session_at d0 = action_spec env action (session_at d)" "d_no d0 = d_no d"
      "frame_pushes api code env (d_no d) [action] (d_user d) = (pushes, d_user d0)"
    using Cons.prems(4,5) by (rule on_frame_turn)
  have "\<forall>r \<in> set (rs @ pushes). sa_sock r = SOCKET_FD_INVALID" using Cons.prems(3) d0(4) by auto
  from Cons.IH [OF d0(2) _ this Cons.prems(4,5)] show ?case
    by (simp add: d0(1,3,5,6) frame_pushes_Cons [OF d0(7)] del: frame_pushes.simps)
qed

text \<open>Releasing a session makes no system call.\<close>

lemma release_no_effect: "dispatcher_ok d held \<Longrightarrow> d_effects (release_session a d) = d_effects d"
  using dispatcher_okD(7) [of d held a]
  by (auto simp: release_session_def TcpSocket_destroy_def bufferevent_free_def fd_kept_def
      split: option.split)

lemma remove_no_effect:
  assumes "dispatcher_ok d held"
  shows "d_effects (remove_action action d) = d_effects d"
proof -
  have "d_effects (release_session a (d\<lparr>d_sessions := m\<rparr>)) = d_effects (release_session a d)" for a m
    by (simp add: release_session_def split: option.split)
  then show ?thesis
    using release_no_effect [OF assms] by (simp add: remove_action_def Let_def split: option.split)
qed

text \<open>The loop keeps the invariant, whatever the user's code pushes, when it returns.\<close>

lemma add_action_keeps:
  assumes "dispatcher_ok d held" and "server_code_ok code"
  shows "dispatcher_ok (add_action api code env action d) held"
proof (cases "attach_ok (env (sa_id action)) (sa_sock action)")
  case True
  obtain s calls w where "onNewSession code (attached api (d_no d) (sa_id action) (sa_sock action)) (d_user d)
    = (s, calls, w)" by (rule prod_cases3)
  from add_action_ok(1) [OF assms(1) _ this assms(2), of env, OF True] show ?thesis .
next
  case False
  from add_action_failed [of env, OF False dispatcher_okD(4) [OF assms(1)]] show ?thesis
    by (simp add: dispatcher_ok_same(1) [OF assms(1)])
qed

lemma on_frame_keeps:
  assumes "on_frame_loop api code env d = Some d1" and "server_code_ok code" and "dispatcher_ok d held"
  shows "dispatcher_ok d1 held \<and> d_actions d1 = []"
proof -
  have "server_code_ok code \<longrightarrow> dispatcher_ok d held \<longrightarrow> dispatcher_ok d1 held \<and> d_actions d1 = []"
  proof (rule on_frame_loop.raw_induct [where
        P = "\<lambda>api code env d d1. server_code_ok code \<longrightarrow> dispatcher_ok d held \<longrightarrow>
          dispatcher_ok d1 held \<and> d_actions d1 = []", OF _ assms(1)])
    fix f api code env d d1
    assume IH: "\<And>api code env d d1. f api code env d = Some d1 \<Longrightarrow>
        server_code_ok code \<longrightarrow> dispatcher_ok d held \<longrightarrow> dispatcher_ok d1 held \<and> d_actions d1 = []"
      and run: "(case d_actions d of [] \<Rightarrow> Some d | action # rest \<Rightarrow>
          let d1 = (if sa_sock action \<noteq> SOCKET_FD_INVALID then add_action api code env action d
                    else remove_action action d)
          in f api code env (d1\<lparr>d_actions := tl (d_actions d1)\<rparr>)) = Some d1"
    show "server_code_ok code \<longrightarrow> dispatcher_ok d held \<longrightarrow> dispatcher_ok d1 held \<and> d_actions d1 = []"
    proof (cases "d_actions d")
      case Nil
      with run show ?thesis by auto
    next
      case (Cons action rest)
      define d2 where "d2 = (if sa_sock action \<noteq> SOCKET_FD_INVALID then add_action api code env action d
        else remove_action action d)"
      have "f api code env (d2\<lparr>d_actions := tl (d_actions d2)\<rparr>) = Some d1"
        using run Cons by (simp only: d2_def list.case Let_def)
      moreover have "dispatcher_ok d2 held" if "server_code_ok code" "dispatcher_ok d held"
        using that by (simp add: d2_def add_action_keeps remove_action_ok(1))
      ultimately show ?thesis using IH by (metis pop_ok(1))
    qed
  qed
  with assms(2,3) show ?thesis by blast
qed

section \<open>The life of a dispatcher\<close>

text \<open>
  What happens to a dispatcher by itself: frames, pointers to sessions taken and dropped,
  callbacks of sessions, and uses of a session by its holder.
\<close>

inductive dispatcher_work ::
    "'b evbuffer_api \<Rightarrow> ('b, 'w) server_code \<Rightarrow> (session_id \<Rightarrow> attach_env)
      \<Rightarrow> ('b, 'w) dispatcher \<times> (addr \<Rightarrow> nat) \<Rightarrow> ('b, 'w) dispatcher \<times> (addr \<Rightarrow> nat) \<Rightarrow> bool"
  for api :: "'b evbuffer_api" and code :: "('b, 'w) server_code"
    and env :: "session_id \<Rightarrow> attach_env" where
  frame: "TcpServerDispatcher_onFrame api code env d = Some d1 \<Longrightarrow>
    dispatcher_work api code env (d, held) (d1, held)"
| get: "TcpServerDispatcher_getSession i d = (Some a, d1) \<Longrightarrow>
    dispatcher_work api code env (d, held) (d1, held(a := held a + 1))"
| drop: "0 < held a \<Longrightarrow>
    dispatcher_work api code env (d, held) (release_session a d, held(a := held a - 1))"
| event: "session_callback api code ev a d = Inr d1 \<Longrightarrow>
    dispatcher_work api code env (d, held) (d1, held)"
| use: "d_heap d a = Some (s, n) \<Longrightarrow> session_key s1 = session_key s \<Longrightarrow>
    dispatcher_work api code env (d, held) (d\<lparr>d_heap := (d_heap d)(a \<mapsto> (s1, n))\<rparr>, held)"

text \<open>Any thread may also add and remove sessions.\<close>

inductive dispatcher_step ::
    "'b evbuffer_api \<Rightarrow> ('b, 'w) server_code \<Rightarrow> (session_id \<Rightarrow> attach_env)
      \<Rightarrow> ('b, 'w) dispatcher \<times> (addr \<Rightarrow> nat) \<Rightarrow> ('b, 'w) dispatcher \<times> (addr \<Rightarrow> nat) \<Rightarrow> bool"
  for api :: "'b evbuffer_api" and code :: "('b, 'w) server_code"
    and env :: "session_id \<Rightarrow> attach_env" where
  call: "dispatcher_step api code env (d, held) (do_call c d, held)"
| work: "dispatcher_work api code env s s1 \<Longrightarrow> dispatcher_step api code env s s1"

inductive dispatcher_reach ::
    "'b evbuffer_api \<Rightarrow> ('b, 'w) server_code \<Rightarrow> (session_id \<Rightarrow> attach_env)
      \<Rightarrow> ('b, 'w) dispatcher \<times> (addr \<Rightarrow> nat) \<Rightarrow> bool"
  for api :: "'b evbuffer_api" and code :: "('b, 'w) server_code"
    and env :: "session_id \<Rightarrow> attach_env" where
  new: "dispatcher_reach api code env (TcpServerDispatcher_new k w, (\<lambda>a. 0))"
| step: "dispatcher_reach api code env s \<Longrightarrow> dispatcher_step api code env s s1 \<Longrightarrow>
    dispatcher_reach api code env s1"

lemma dispatcher_ok_new: "dispatcher_ok (TcpServerDispatcher_new k w) (\<lambda>a. 0)"
  by (simp add: dispatcher_ok_def TcpServerDispatcher_new_def refs_ok_def table_refs_def)

lemma session_key_bev: "session_key s1 = session_key s \<Longrightarrow>
    ts_id s1 = ts_id s \<and> (s_bev s1 = None \<longleftrightarrow> s_bev s = None) \<and> fd_kept s1 = fd_kept s"
  by (cases "s_bev s"; cases "s_bev s1") (auto simp: session_key_def fd_kept_def)

lemma dispatcher_ok_use:
  assumes ok: "dispatcher_ok d held" and at: "d_heap d a = Some (s, n)"
    and key: "session_key s1 = session_key s"
  shows "dispatcher_ok (d\<lparr>d_heap := (d_heap d)(a \<mapsto> (s1, n))\<rparr>) held"
proof (rule dispatcher_okI)
  let ?d = "d\<lparr>d_heap := (d_heap d)(a \<mapsto> (s1, n))\<rparr>"
  note kept = session_key_bev [OF key]
  have "table_refs ?d held = table_refs d held" by (rule ext) (simp add: table_refs_def)
  then show "refs_ok (d_heap ?d) (table_refs ?d held)"
    using refs_use [OF dispatcher_okD(1) [OF ok] at] by simp
  show "ts_id s2 = i \<and> s_bev s2 \<noteq> None" if "d_sessions ?d i = Some b" "d_heap ?d b = Some (s2, m)" for i b s2 m
    using that kept at dispatcher_okD(2) [OF ok, of i b] by (cases "b = a") auto
  show "d_heap ?d b = None" if "d_next ?d \<le> b" for b
    using that ok at by (auto simp: dispatcher_ok_def)
  show "fd_kept s2" if "d_heap ?d b = Some (s2, m)" for b s2 m
    using that kept dispatcher_okD(7) [OF ok] at by (cases "b = a") auto
qed

lemma dispatcher_ok_refs:
  assumes ok: "dispatcher_ok d held" and refs: "refs_ok h (table_refs d held1)"
    and same: "\<And>b s n. h b = Some (s, n) \<Longrightarrow> \<exists>m. d_heap d b = Some (s, m)"
    and d1: "d_sessions d1 = d_sessions d" "d_heap d1 = h" "d_next d1 = d_next d"
  shows "dispatcher_ok d1 held1"
proof (rule dispatcher_okI)
  have "table_refs d1 held1 = table_refs d held1" by (rule ext) (simp add: table_refs_def d1)
  then show "refs_ok (d_heap d1) (table_refs d1 held1)" using refs d1 by simp
  show "ts_id s = i \<and> s_bev s \<noteq> None" if "d_sessions d1 i = Some b" "d_heap d1 b = Some (s, m)" for i b s m
    using that same [of b s m] dispatcher_okD(2) [OF ok, of i b] by (auto simp: d1)
  show "d_heap d1 b = None" if "d_next d1 \<le> b" for b
  proof (cases "h b")
    case (Some x)
    then show ?thesis using that same [of b "fst x" "snd x"] ok by (auto simp: d1 dispatcher_ok_def)
  qed (simp add: d1)
  show "fd_kept s" if "d_heap d1 b = Some (s, m)" for b s m
    using that same [of b s m] dispatcher_okD(7) [OF ok, of b] by (auto simp: d1)
qed

lemma copy_keeps: "shared_copy a h b = Some (x, n) \<Longrightarrow> \<exists>m. h b = Some (x, m)"
  by (auto simp: shared_copy_def split: option.splits if_splits prod.splits)

lemma get_session_ok:
  assumes ok: "dispatcher_ok d held" and get: "TcpServerDispatcher_getSession i d = (Some a, d1)"
  shows "dispatcher_ok d1 (held(a := held a + 1))"
proof -
  have at: "d_sessions d i = Some a" and d1: "d1 = d\<lparr>d_heap := shared_copy a (d_heap d)\<rparr>"
    using get by (auto simp: TcpServerDispatcher_getSession_def split: option.splits)
  have "table_refs d (held(a := held a + 1)) = (table_refs d held)(a := table_refs d held a + 1)"
    by (rule ext) (simp add: table_refs_def)
  moreover have "0 < table_refs d held a" using at by (auto simp: table_refs_def intro: ranI)
  ultimately have "refs_ok (shared_copy a (d_heap d)) (table_refs d (held(a := held a + 1)))"
    using refs_copy [OF dispatcher_okD(1) [OF ok]] by simp
  then show ?thesis by (rule dispatcher_ok_refs [OF ok]) (auto simp: d1 dest: copy_keeps)
qed

lemma drop_session_ok:
  assumes ok: "dispatcher_ok d held" and pos: "0 < held a"
  shows "dispatcher_ok (release_session a d) (held(a := held a - 1))"
proof -
  have "table_refs d (held(a := held a - 1)) = (table_refs d held)(a := table_refs d held a - 1)"
    using pos by (intro ext) (simp add: table_refs_def)
  moreover have "0 < table_refs d held a" using pos by (simp add: table_refs_def)
  ultimately have "refs_ok (shared_drop a (d_heap d)) (table_refs d (held(a := held a - 1)))"
    using refs_drop [OF dispatcher_okD(1) [OF ok]] by simp
  then show ?thesis by (rule dispatcher_ok_refs [OF ok]) (auto dest: drop_keeps)
qed

text \<open>A callback keeps the key of its session.\<close>

lemma callback_key:
  assumes "server_code_ok code" and "TcpSession_callback api code ev s w = Inr (s1, effects, calls, w1)"
  shows "session_key s1 = session_key s"
proof -
  note code = assms(1) [unfolded server_code_ok_def]
  show ?thesis
  proof (cases ev)
    case ReadReady
    then show ?thesis
      using assms(2) code
      by (auto simp: TcpSession_callback_def TcpSession_onRead_def split: prod.splits)
        (metis fst_conv)
  next
    case WriteDone
    then show ?thesis
      using assms(2) methods_keep_key(6)
      by (auto simp: TcpSession_callback_def split: sum.splits prod.splits)
  next
    case Disconnect
    then obtain bev where bev: "s_bev s = Some bev"
      using assms(2) by (auto simp: TcpSession_callback_def TcpSession_handleEvent_def split: option.splits)
    let ?s = "s\<lparr>s_bev := Some (bev\<lparr>be_read := False, be_write := False\<rparr>)\<rparr>"
    have "s1 = fst (onSessionDisconnected code ?s w)"
      using assms(2) Disconnect bev
      by (auto simp: TcpSession_callback_def TcpSession_handleEvent_def Let_def split: prod.splits)
    then have "session_key s1 = session_key ?s" using code by blast
    then show ?thesis by (simp add: session_key_def bev)
  qed
qed

lemma session_callback_ok:
  assumes ok: "dispatcher_ok d held" and code: "server_code_ok code"
    and run: "session_callback api code ev a d = Inr d1"
  shows "dispatcher_ok d1 held"
proof -
  obtain s n s1 effects calls w where cb: "d_heap d a = Some (s, n)"
    "TcpSession_callback api code ev s (d_user d) = Inr (s1, effects, calls, w)"
    "d1 = fold do_call calls (d\<lparr>d_heap := (d_heap d)(a \<mapsto> (s1, n)),
       d_effects := d_effects d @ effects, d_user := w\<rparr>)"
    using run by (auto simp: session_callback_def split: option.splits sum.splits prod.splits)
  from dispatcher_ok_use [OF ok cb(1) callback_key [OF code cb(2)]]
  show ?thesis by (rule dispatcher_ok_same) (simp_all add: cb(3))
qed

lemma do_call_ok: "dispatcher_ok d held \<Longrightarrow> dispatcher_ok (do_call c d) held"
  by (rule dispatcher_ok_same [of d]) simp_all

lemma dispatcher_work_ok:
  "dispatcher_work api code env s s1 \<Longrightarrow> server_code_ok code \<Longrightarrow> dispatcher_ok (fst s) (snd s) \<Longrightarrow>
    dispatcher_ok (fst s1) (snd s1)"
proof (induction rule: dispatcher_work.induct)
  case (frame d d1 held)
  then show ?case
    using on_frame_keeps by (fastforce simp: TcpServerDispatcher_onFrame_def split: if_splits)
next
  case (get i d a d1 held)
  then show ?case using get_session_ok [of d held i a d1] by (simp add: fun_upd_def)
next
  case (drop held a d)
  then show ?case using drop_session_ok [of d held a] by (simp add: fun_upd_def)
next
  case (event ev a d d1 held)
  then show ?case by (simp add: session_callback_ok)
next
  case (use d a s n s1 held)
  then show ?case by (simp add: dispatcher_ok_use)
qed

lemma dispatcher_step_ok:
  "dispatcher_step api code env s s1 \<Longrightarrow> server_code_ok code \<Longrightarrow> dispatcher_ok (fst s) (snd s) \<Longrightarrow>
    dispatcher_ok (fst s1) (snd s1)"
  by (induction rule: dispatcher_step.induct) (simp_all add: do_call_ok dispatcher_work_ok)

lemma dispatcher_reach_ok:
  "dispatcher_reach api code env s \<Longrightarrow> server_code_ok code \<Longrightarrow> dispatcher_ok (fst s) (snd s)"
  by (induction rule: dispatcher_reach.induct) (simp add: dispatcher_ok_new, rule dispatcher_step_ok)

section \<open>The ids a dispatcher knows\<close>

text \<open>The ids with a session or with an addition in the queue.\<close>

definition known_ids :: "('b, 'w) dispatcher \<Rightarrow> session_id set" where
  "known_ids d = dom (d_sessions d)
     \<union> sa_id ` {x \<in> set (d_actions d). sa_sock x \<noteq> SOCKET_FD_INVALID}"

text \<open>User code that adds no session in any of its callbacks.\<close>

definition adds_nothing :: "('b, 'w) server_code \<Rightarrow> bool" where
  "adds_nothing code \<longleftrightarrow> only_removes code
   \<and> (\<forall>s w. \<forall>c \<in> set (fst (snd (onSessionRead code s w))). sa_sock (action_of c) = SOCKET_FD_INVALID)
   \<and> (\<forall>s w. \<forall>c \<in> set (fst (snd (onSessionDisconnected code s w))).
        sa_sock (action_of c) = SOCKET_FD_INVALID)"

lemma TcpServer_code_adds_nothing: "adds_nothing TcpServer_code"
  by (simp add: adds_nothing_def only_removes_def TcpServer_code_def)

lemma known_ids_new: "known_ids (TcpServerDispatcher_new k w) = {}"
  by (simp add: known_ids_def TcpServerDispatcher_new_def)

lemma known_ids_call:
  "known_ids (TcpServerDispatcher_addSession i sock d) \<subseteq> insert i (known_ids d)"
  "known_ids (TcpServerDispatcher_removeSession i d) = known_ids d"
  by (auto simp: known_ids_def TcpServerDispatcher_addSession_def TcpServerDispatcher_removeSession_def)

lemma known_ids_mono:
  assumes "dom (d_sessions d1) \<subseteq> known_ids d"
    and "\<And>x. x \<in> set (d_actions d1) \<Longrightarrow> sa_sock x \<noteq> SOCKET_FD_INVALID \<Longrightarrow> x \<in> set (d_actions d)"
  shows "known_ids d1 \<subseteq> known_ids d"
  using assms unfolding known_ids_def by blast

lemma known_ids_action:
  assumes ok: "dispatcher_ok d held" and code: "server_code_ok code" "only_removes code"
    and acts: "d_actions d = action # rest"
    and d2: "d2 = (if sa_sock action \<noteq> SOCKET_FD_INVALID then add_action api code env action d
      else remove_action action d)"
  shows "known_ids (d2\<lparr>d_actions := tl (d_actions d2)\<rparr>) \<subseteq> known_ids d"
proof (cases "attach_ok (env (sa_id action)) (sa_sock action)")
  case True
  obtain s calls w where new: "onNewSession code (attached api (d_no d) (sa_id action) (sa_sock action))
    (d_user d) = (s, calls, w)" by (rule prod_cases3)
  have "session_key s = session_key (attached api (d_no d) (sa_id action) (sa_sock action))"
    using code(1) new by (metis server_code_ok_def fst_conv)
  then have "ts_id s = sa_id action" by (simp add: session_key_def attached_def)
  from add_action_done [OF ok _ new this, of env, OF True] attach_ok_valid [OF True]
  have "d_sessions d2 = (d_sessions d)(sa_id action \<mapsto> d_next d)"
    "d_actions d2 = action # rest @ map action_of calls"
    by (simp_all add: d2 acts Let_def)
  moreover have "\<forall>c \<in> set calls. sa_sock (action_of c) = SOCKET_FD_INVALID"
    using code(2) new by (metis only_removes_def fst_conv snd_conv)
  ultimately show ?thesis
    using attach_ok_valid [OF True] acts by (intro known_ids_mono) (auto simp: known_ids_def)
next
  case False
  have "d_sessions d2 = d_sessions d \<and> d_actions d2 = d_actions d
    \<or> d_sessions d2 = (d_sessions d)(sa_id action := None) \<and> d_actions d2 = d_actions d"
    using add_action_failed [of env, OF False dispatcher_okD(4) [OF ok]]
    by (simp add: d2 remove_action_fields) (simp add: remove_action_def smap_erase_def Let_def split: option.split)
  then show ?thesis
    using acts by (intro known_ids_mono) (auto simp: known_ids_def split: if_splits)
qed

lemma on_frame_known_ids:
  assumes "on_frame_loop api code env d = Some d1" and "server_code_ok code" and "only_removes code"
    and "dispatcher_ok d held"
  shows "known_ids d1 \<subseteq> known_ids d"
proof -
  have "server_code_ok code \<and> only_removes code \<longrightarrow> dispatcher_ok d held \<longrightarrow> known_ids d1 \<subseteq> known_ids d"
  proof (rule on_frame_loop.raw_induct [where
        P = "\<lambda>api code env d d1. server_code_ok code \<and> only_removes code \<longrightarrow> dispatcher_ok d held \<longrightarrow>
          known_ids d1 \<subseteq> known_ids d", OF _ assms(1)])
    fix f api code env d d1
    assume IH: "\<And>api code env d d1. f api code env d = Some d1 \<Longrightarrow>
        server_code_ok code \<and> only_removes code \<longrightarrow> dispatcher_ok d held \<longrightarrow> known_ids d1 \<subseteq> known_ids d"
      and run: "(case d_actions d of [] \<Rightarrow> Some d | action # rest \<Rightarrow>
          let d1 = (if sa_sock action \<noteq> SOCKET_FD_INVALID then add_action api code env action d
                    else remove_action action d)
          in f api code env (d1\<lparr>d_actions := tl (d_actions d1)\<rparr>)) = Some d1"
    show "server_code_ok code \<and> only_removes code \<longrightarrow> dispatcher_ok d held \<longrightarrow> known_ids d1 \<subseteq> known_ids d"
    proof (intro impI)
      assume code: "server_code_ok code \<and> only_removes code" and ok: "dispatcher_ok d held"
      show "known_ids d1 \<subseteq> known_ids d"
      proof (cases "d_actions d")
        case Nil
        with run show ?thesis by auto
      next
        case (Cons action rest)
        define d2 where "d2 = (if sa_sock action \<noteq> SOCKET_FD_INVALID then add_action api code env action d
          else remove_action action d)"
        have "f api code env (d2\<lparr>d_actions := tl (d_actions d2)\<rparr>) = Some d1"
          using run Cons by (simp only: d2_def list.case Let_def)
        moreover have "dispatcher_ok d2 held"
          using ok code by (simp add: d2_def add_action_keeps remove_action_ok(1))
        ultimately have "known_ids d1 \<subseteq> known_ids (d2\<lparr>d_actions := tl (d_actions d2)\<rparr>)"
          using IH code by (simp add: pop_ok)
        also have "\<dots> \<subseteq> known_ids d"
          by (rule known_ids_action [OF ok _ _ Cons d2_def]) (use code in simp_all)
        finally show ?thesis .
      qed
    qed
  qed
  with assms(2-4) show ?thesis by blast
qed

lemma callback_removes:
  assumes "adds_nothing code" and "TcpSession_callback api code ev s w = Inr (s1, effects, calls, w1)"
  shows "\<forall>c \<in> set calls. sa_sock (action_of c) = SOCKET_FD_INVALID"
proof (cases ev)
  case ReadReady
  then have "calls = fst (snd (onSessionRead code s w))"
    using assms(2) by (auto simp: TcpSession_callback_def TcpSession_onRead_def split: prod.splits)
  then show ?thesis using assms(1) unfolding adds_nothing_def by blast
next
  case WriteDone
  then show ?thesis
    using assms(2) by (auto simp: TcpSession_callback_def split: sum.splits prod.splits)
next
  case Disconnect
  then obtain s2 i where "calls = fst (snd (onSessionDisconnected code s2 w)) @ [RemoveSession i]"
    using assms(2)
    by (auto simp: TcpSession_callback_def TcpSession_handleEvent_def Let_def
        split: option.splits prod.splits) (metis fst_conv snd_conv)
  then show ?thesis using assms(1) unfolding adds_nothing_def by auto
qed

text \<open>Nothing a dispatcher does by itself makes it know a new id.\<close>

lemma work_known_ids:
  "dispatcher_work api code env s s1 \<Longrightarrow> server_code_ok code \<Longrightarrow> adds_nothing code \<Longrightarrow>
    dispatcher_ok (fst s) (snd s) \<Longrightarrow> known_ids (fst s1) \<subseteq> known_ids (fst s)"
proof (induction rule: dispatcher_work.induct)
  case (frame d d1 held)
  then show ?case
    using on_frame_known_ids [of api code env d d1 held]
    by (auto simp: TcpServerDispatcher_onFrame_def adds_nothing_def split: if_splits)
next
  case (get i d a d1 held)
  then show ?case
    by (auto simp: TcpServerDispatcher_getSession_def known_ids_def split: option.splits)
next
  case (drop held a d)
  then show ?case by (simp add: known_ids_def)
next
  case (event ev a d d1 held)
  obtain s n s1 effects calls w where cb: "d_heap d a = Some (s, n)"
    "TcpSession_callback api code ev s (d_user d) = Inr (s1, effects, calls, w)"
    "d1 = fold do_call calls (d\<lparr>d_heap := (d_heap d)(a \<mapsto> (s1, n)),
       d_effects := d_effects d @ effects, d_user := w\<rparr>)"
    using event.hyps by (auto simp: session_callback_def split: option.splits sum.splits prod.splits)
  have "\<forall>c \<in> set calls. sa_sock (action_of c) = SOCKET_FD_INVALID"
    using callback_removes [OF event.prems(2) cb(2)] .
  then show ?case
    by (intro known_ids_mono) (auto simp: cb(3) do_calls_actions known_ids_def)
next
  case (use d a s n s1 held)
  then show ?case by (simp add: known_ids_def)
qed

section \<open>Properties\<close>

text \<open>C7: \<open>onFrame\<close> returns, empties the queue, and does to the sessions what the actions say, in
  the order in which they were queued, followed by the removals that \<open>onNewSession\<close> asked for
  meanwhile: an addition that cannot attach has no effect, a removal of an unknown id neither.
  User code that only removes sessions when one is new is assumed.\<close>

theorem dispatcher_frame_refines:
  assumes "dispatcher_reach api code env (d, held)" and "server_code_ok code" and "only_removes code"
  shows "\<exists>d1. TcpServerDispatcher_onFrame api code env d = Some d1 \<and> d_actions d1 = []
    \<and> session_at d1 = fold (action_spec env)
        (d_actions d @ fst (frame_pushes api code env (d_no d) (d_actions d) (d_user d))) (session_at d)"
proof -
  have ok: "dispatcher_ok d held" using dispatcher_reach_ok [OF assms(1,2)] by simp
  show ?thesis
  proof (cases "d_actions d = []")
    case True
    then show ?thesis by (simp add: TcpServerDispatcher_onFrame_def)
  next
    case False
    from on_frame_works_off [OF ok _ _ assms(2,3), of "d_actions d" "[]"] False show ?thesis
      by (auto simp: TcpServerDispatcher_onFrame_def)
  qed
qed

text \<open>A dispatcher with two connections queued, and one of them to be removed again.\<close>

definition all_attach :: "session_id \<Rightarrow> attach_env" where
  "all_attach i = \<lparr>bufferevent_socket_new_ok = True, bufferevent_enable_ok = True\<rparr>"

definition queued :: "(byte list, unit) dispatcher" where
  "queued = fold do_call [AddSession 1 10, AddSession 2 20, RemoveSession 1] (TcpServerDispatcher_new 0 ())"

lemma queued_reach: "dispatcher_reach list_api TcpServer_code all_attach (queued, (\<lambda>a. 0))"
  unfolding queued_def
  by (simp del: do_call.simps) (rule dispatcher_reach.step [OF _ dispatcher_step.call]
      dispatcher_reach.new)+

lemma queued_eval: "d_actions queued = [\<lparr>sa_id = 1, sa_sock = 10\<rparr>, \<lparr>sa_id = 2, sa_sock = 20\<rparr>,
    \<lparr>sa_id = 1, sa_sock = SOCKET_FD_INVALID\<rparr>]" "session_at queued i = None" "d_no queued = 0"
  by (simp_all add: queued_def TcpServerDispatcher_new_def TcpServerDispatcher_addSession_def
      TcpServerDispatcher_removeSession_def session_at_def)

lemma TcpServer_code_removes: "only_removes TcpServer_code"
  by (simp add: only_removes_def TcpServer_code_def)

lemma TcpServer_code_pushes: "frame_pushes api TcpServer_code env k acts w = ([], w)"
  by (induction acts) (simp_all add: TcpServer_code_def Let_def)

lemma queued_spec:
  "fold (action_spec all_attach) (d_actions queued) (session_at queued) 1 = None"
  "fold (action_spec all_attach) (d_actions queued) (session_at queued) 2 = Some 20"
  by (simp_all add: queued_eval action_spec_def all_attach_def attach_ok_def SOCKET_FD_INVALID_def)

theorem dispatcher_frame_refines_witness:
  "\<exists>d1. TcpServerDispatcher_onFrame list_api TcpServer_code all_attach queued = Some d1
    \<and> session_at d1 1 = None \<and> session_at d1 2 = Some 20"
proof -
  obtain d1 where d1: "TcpServerDispatcher_onFrame list_api TcpServer_code all_attach queued = Some d1"
    "session_at d1 = fold (action_spec all_attach) (d_actions queued @ fst (frame_pushes list_api
      TcpServer_code all_attach (d_no queued) (d_actions queued) (d_user queued))) (session_at queued)"
    using dispatcher_frame_refines [OF queued_reach TcpServer_code_ok TcpServer_code_removes] by blast
  have "session_at d1 = fold (action_spec all_attach) (d_actions queued) (session_at queued)"
    by (simp only: d1(2) TcpServer_code_pushes fst_conv append_Nil2)
  with d1(1) show ?thesis by (simp add: queued_spec)
qed

text \<open>C9: Whatever the methods called, frames, callbacks and pointers taken and dropped, a session
  object exists exactly as long as the table or the program points to it, every session in the
  table is connected and found under its own id, and none is found under two ids.\<close>

theorem dispatcher_sessions_consistent:
  assumes "dispatcher_reach api code env (d, held)" and "server_code_ok code"
  shows "(d_heap d a \<noteq> None \<longleftrightarrow> a \<in> ran (d_sessions d) \<or> 0 < held a)
    \<and> (d_sessions d i = Some a \<longrightarrow> (\<exists>s n. d_heap d a = Some (s, n) \<and> ts_id s = i \<and> s_bev s \<noteq> None))
    \<and> (d_sessions d i = Some a \<longrightarrow> d_sessions d j = Some a \<longrightarrow> i = j)"
proof -
  have ok: "dispatcher_ok d held" using dispatcher_reach_ok [OF assms] by simp
  have "d_heap d a \<noteq> None \<longleftrightarrow> a \<in> ran (d_sessions d) \<or> 0 < held a"
    using refs_okD(1) [OF dispatcher_okD(1) [OF ok], of a] by (simp add: table_refs_def)
  with dispatcher_okD(2,3) [OF ok] show ?thesis by blast
qed

lemma queued_frame:
  obtains d1 where "TcpServerDispatcher_onFrame list_api TcpServer_code all_attach queued = Some d1"
    "session_at d1 2 = Some 20" "d_actions d1 = []"
proof -
  have ok: "dispatcher_ok queued (\<lambda>a. 0)"
    using dispatcher_reach_ok [OF queued_reach TcpServer_code_ok] by simp
  obtain d1 where d1: "on_frame_loop list_api TcpServer_code all_attach queued = Some d1"
    "session_at d1 = fold (action_spec all_attach) (d_actions queued) (session_at queued)"
    "d_actions d1 = []"
    using on_frame_works_off [OF ok _ _ TcpServer_code_ok TcpServer_code_removes, of "d_actions queued" "[]"
        list_api all_attach]
    by (auto simp: TcpServer_code_pushes simp del: fold_simps)
  moreover have "d_actions queued \<noteq> []" by (simp add: queued_eval)
  ultimately show ?thesis
    using that [of d1] by (simp add: TcpServerDispatcher_onFrame_def queued_spec)
qed

text \<open>After the frame the second connection has its session.\<close>

theorem dispatcher_sessions_consistent_witness:
  "\<exists>d1 a s n. TcpServerDispatcher_onFrame list_api TcpServer_code all_attach queued = Some d1
    \<and> d_sessions d1 2 = Some a \<and> d_heap d1 a = Some (s, n) \<and> ts_id s = 2"
proof -
  obtain d1 where d1: "TcpServerDispatcher_onFrame list_api TcpServer_code all_attach queued = Some d1"
    "session_at d1 2 = Some 20"
    by (rule queued_frame)
  have "dispatcher_reach list_api TcpServer_code all_attach (d1, (\<lambda>a. 0))"
    by (rule dispatcher_reach.step [OF queued_reach dispatcher_step.work, OF dispatcher_work.frame, OF d1(1)])
  note consistent = dispatcher_sessions_consistent [OF this TcpServer_code_ok]
  obtain a where "d_sessions d1 2 = Some a" using d1(2) by (auto simp: session_at_def split: option.splits)
  with consistent [of a 2] d1(1) show ?thesis by blast
qed

text \<open>A connection whose session cannot attach is lost, and its socket is never closed: the
  frame leaves no session for it and makes no system call.\<close>

theorem dispatcher_failed_attach_leaks:
  assumes "dispatcher_reach api code env (d, held)" and "server_code_ok code"
    and "d_actions d = [\<lparr>sa_id = i, sa_sock = sock\<rparr>]" and "sock \<noteq> SOCKET_FD_INVALID"
    and "\<not> attach_ok (env i) sock"
  shows "\<exists>d1. TcpServerDispatcher_onFrame api code env d = Some d1 \<and> d_actions d1 = []
    \<and> session_at d1 = session_at d \<and> d_effects d1 = d_effects d"
proof -
  have ok: "dispatcher_ok d held" using dispatcher_reach_ok [OF assms(1,2)] by simp
  note fresh = dispatcher_okD(4) [OF ok]
  let ?a = "\<lparr>sa_id = i, sa_sock = sock\<rparr>"
  have add: "add_action api code env ?a d = d\<lparr>d_next := d_next d + 1\<rparr>"
    by (rule add_action_failed [of env]) (use assms(5) fresh in simp_all)
  have "TcpServerDispatcher_onFrame api code env d =
      on_frame_loop api code env (d\<lparr>d_next := d_next d + 1, d_actions := []\<rparr>)"
    using assms(3,4) add
    by (simp add: TcpServerDispatcher_onFrame_def) (subst on_frame_loop.simps, simp)
  also have "\<dots> = Some (d\<lparr>d_next := d_next d + 1, d_actions := []\<rparr>)"
    by (subst on_frame_loop.simps) simp
  finally show ?thesis
    using dispatcher_ok_same(2) [OF ok, of "d\<lparr>d_next := d_next d + 1, d_actions := []\<rparr>"] by simp
qed

theorem dispatcher_failed_attach_leaks_witness:
  "\<exists>d1. TcpServerDispatcher_onFrame list_api TcpServer_code
      (\<lambda>i. \<lparr>bufferevent_socket_new_ok = False, bufferevent_enable_ok = True\<rparr>)
      (do_call (AddSession 1 10) (TcpServerDispatcher_new 0 ())) = Some d1
    \<and> session_at d1 1 = None \<and> d_effects d1 = []"
proof -
  let ?env = "\<lambda>i :: session_id. \<lparr>bufferevent_socket_new_ok = False, bufferevent_enable_ok = True\<rparr>"
  let ?d = "do_call (AddSession 1 10) (TcpServerDispatcher_new 0 ()) :: (byte list, unit) dispatcher"
  have reach: "dispatcher_reach list_api TcpServer_code ?env (?d, (\<lambda>a. 0))"
    by (rule dispatcher_reach.step [OF dispatcher_reach.new dispatcher_step.call])
  have acts: "d_actions ?d = [\<lparr>sa_id = 1, sa_sock = 10\<rparr>]" and fail: "\<not> attach_ok (?env 1) 10"
    and valid: "10 \<noteq> SOCKET_FD_INVALID"
    by (simp_all add: TcpServerDispatcher_new_def TcpServerDispatcher_addSession_def attach_ok_def
        SOCKET_FD_INVALID_def)
  have before: "session_at ?d 1 = None" "d_effects ?d = []"
    by (simp_all add: TcpServerDispatcher_new_def TcpServerDispatcher_addSession_def session_at_def)
  obtain d1 where "TcpServerDispatcher_onFrame list_api TcpServer_code ?env ?d = Some d1"
    "session_at d1 = session_at ?d" "d_effects d1 = d_effects ?d"
    using dispatcher_failed_attach_leaks [OF reach TcpServer_code_ok acts valid fail] by blast
  moreover from this have "session_at d1 1 = None" "d_effects d1 = []"
    by (simp_all only: before)
  ultimately show ?thesis by blast
qed

text \<open>The event callback of a session in the table whose peer has gone.\<close>

lemma disconnect_callback:
  assumes ok: "dispatcher_ok d held" and code: "server_code_ok code"
    and quiet: "\<forall>s w. fst (snd (onSessionDisconnected code s w)) = []" and at: "d_sessions d i = Some a"
  obtains sock d1 where "session_at d i = Some sock" "session_callback api code Disconnect a d = Inr d1"
    "dispatcher_ok d1 held" "session_at d1 = session_at d" "d_effects d1 = d_effects d @ [CloseFd sock]"
    "d_actions d1 = d_actions d @ [\<lparr>sa_id = i, sa_sock = SOCKET_FD_INVALID\<rparr>]"
proof -
  obtain s n bev where s: "d_heap d a = Some (s, n)" "ts_id s = i" "s_bev s = Some bev"
    using dispatcher_okD(2) [OF ok at] by auto
  let ?s = "s\<lparr>s_bev := Some (bev\<lparr>be_read := False, be_write := False\<rparr>)\<rparr>"
  obtain s1 calls w where hook: "onSessionDisconnected code ?s (d_user d) = (s1, calls, w)"
    by (rule prod_cases3)
  have none: "calls = []" using quiet hook by (metis fst_conv snd_conv)
  have "session_key s1 = session_key ?s" using code hook by (metis server_code_ok_def fst_conv)
  then have key: "session_key s1 = session_key s" by (simp add: session_key_def s(3))
  then have id: "ts_id s1 = i" using session_key_bev s(2) by metis
  define d1 where "d1 = d\<lparr>d_heap := (d_heap d)(a \<mapsto> (s1, n)), d_effects := d_effects d @ [CloseFd (be_fd bev)],
    d_user := w, d_actions := d_actions d @ [\<lparr>sa_id = i, sa_sock = SOCKET_FD_INVALID\<rparr>]\<rparr>"
  have cb: "session_callback api code Disconnect a d = Inr d1"
    using s hook none id
    by (simp add: session_callback_def TcpSession_callback_def TcpSession_handleEvent_def Let_def
        TcpSocket_socket_def d1_def TcpServerDispatcher_removeSession_def)
  have "session_at d1 = session_at d"
    using key s by (auto simp: session_at_def d1_def TcpSocket_socket_def session_key_def fun_eq_iff
        split: option.splits)
  moreover have "session_at d i = Some (be_fd bev)"
    using at s by (simp add: session_at_def TcpSocket_socket_def)
  ultimately show thesis
    using that [OF _ cb session_callback_ok [OF ok code cb]] by (simp add: d1_def)
qed

text \<open>C22: When the peer disconnects, the session's socket is closed, once, and the next frame takes
  the session out of the table; its destruction closes nothing.\<close>

theorem dispatcher_disconnect_closes_once:
  assumes "dispatcher_reach api code env (d, held)" and "server_code_ok code"
    and "\<forall>s w. fst (snd (onSessionDisconnected code s w)) = []"
    and "d_actions d = []" and "d_sessions d i = Some a"
  shows "\<exists>sock d1 d2. session_at d i = Some sock \<and> session_callback api code Disconnect a d = Inr d1
    \<and> TcpServerDispatcher_onFrame api code env d1 = Some d2
    \<and> session_at d2 = (session_at d)(i := None) \<and> d_effects d2 = d_effects d @ [CloseFd sock]"
proof -
  have ok: "dispatcher_ok d held" using dispatcher_reach_ok [OF assms(1,2)] by simp
  let ?rm = "\<lparr>sa_id = i, sa_sock = SOCKET_FD_INVALID\<rparr>"
  obtain sock d1 where sock: "session_at d i = Some sock"
    and cb: "session_callback api code Disconnect a d = Inr d1" and ok1: "dispatcher_ok d1 held"
    and d1: "session_at d1 = session_at d" "d_effects d1 = d_effects d @ [CloseFd sock]"
      "d_actions d1 = d_actions d @ [?rm]"
    by (rule disconnect_callback [OF ok assms(2,3,5)])
  define d2 where "d2 = (remove_action ?rm d1)\<lparr>d_actions := []\<rparr>"
  have "TcpServerDispatcher_onFrame api code env d1 = on_frame_loop api code env d2"
    using assms(4) by (simp add: TcpServerDispatcher_onFrame_def d1)
      (subst on_frame_loop.simps, simp add: d2_def d1 remove_action_fields)
  also have "\<dots> = Some d2" by (subst on_frame_loop.simps) (simp add: d2_def)
  finally have frame: "TcpServerDispatcher_onFrame api code env d1 = Some d2" .
  have "session_at d2 = (session_at d)(i := None)" "d_effects d2 = d_effects d @ [CloseFd sock]"
    using remove_action_ok(2) [OF ok1, of ?rm] remove_no_effect [OF ok1]
    by (simp_all add: d2_def pop_ok d1)
  with sock cb frame show ?thesis by blast
qed

theorem dispatcher_disconnect_closes_once_witness:
  "\<exists>d a d1 d2. TcpServerDispatcher_onFrame list_api TcpServer_code all_attach queued = Some d
    \<and> session_callback list_api TcpServer_code Disconnect a d = Inr d1
    \<and> TcpServerDispatcher_onFrame list_api TcpServer_code all_attach d1 = Some d2
    \<and> session_at d 2 = Some 20 \<and> session_at d2 2 = None \<and> d_effects d2 = d_effects d @ [CloseFd 20]"
proof -
  obtain d where d: "TcpServerDispatcher_onFrame list_api TcpServer_code all_attach queued = Some d"
    "session_at d 2 = Some 20" "d_actions d = []"
    by (rule queued_frame)
  have reach: "dispatcher_reach list_api TcpServer_code all_attach (d, (\<lambda>a. 0))"
    by (rule dispatcher_reach.step [OF queued_reach dispatcher_step.work, OF dispatcher_work.frame, OF d(1)])
  obtain a where a: "d_sessions d 2 = Some a" using d(2) by (auto simp: session_at_def split: option.splits)
  have "\<forall>s w. fst (snd (onSessionDisconnected TcpServer_code s w)) = []"
    by (simp add: TcpServer_code_def)
  from dispatcher_disconnect_closes_once [OF reach TcpServer_code_ok this d(3) a]
  obtain d1 d2 where "session_callback list_api TcpServer_code Disconnect a d = Inr d1"
    "TcpServerDispatcher_onFrame list_api TcpServer_code all_attach d1 = Some d2"
    "session_at d2 = (session_at d)(2 := None)" "d_effects d2 = d_effects d @ [CloseFd 20]"
    using d(2) by auto
  with d(1,2) show ?thesis by (metis fun_upd_same)
qed


end
