(* ===== verification/Timer.thy ===== *)
theory Timer
  imports Prelude
begin

text \<open>
  The class \<open>Timer\<close> (include/translib/timer.h, src/translib/timer.cpp): a libevent timeout
  event that calls a handler for a number of rounds.

  libevent and the user's callbacks are parameters. Whether \<open>event_new\<close> and \<open>event_add\<close>
  succeed is the record \<open>event_env\<close>, an argument of every operation that calls them. What a
  user callback does, to the timer and to the rest of the program (\<open>'w\<close>), is the record
  \<open>user_code\<close>. libevent calls \<open>eventHandler\<close> only for an event that has been added;
  \<open>Timer_run\<close> is a sequence of such calls.
\<close>

section \<open>State\<close>

record timeval =
  tv_sec :: int
  tv_usec :: int

text \<open>A libevent event: its \<open>EV_PERSIST\<close> flag and, once added, its timeout.\<close>

record event =
  ev_persist :: bool
  ev_timeout :: "timeval option"

text \<open>
  The values a \<open>Timer::Handler\<close> takes: empty, a user function, the lambda of
  \<open>startAfter\<close> with what it captures, the lambda of \<open>startCB\<close>.
\<close>

datatype 'u handler =
    NullHandler
  | UserHandler 'u
  | AfterHandler u32 u64 "'u handler"
  | CBLambda

record 'u timer =
  t_event :: "event option"
  t_interval :: u32
  t_round :: u64
  t_curRound :: u64
  t_handler :: "'u handler"
  t_userData :: ptr
  t_CBHandler :: "'u option"
  t_tid :: int

record event_env =
  event_new_ok :: bool
  event_add_ok :: bool

record ('u, 'w) user_code =
  call_user :: "'u \<Rightarrow> 'u timer \<Rightarrow> 'w \<Rightarrow> 'u timer \<times> 'w"
  call_cb :: "'u \<Rightarrow> ptr \<Rightarrow> int \<Rightarrow> 'u timer \<Rightarrow> 'w \<Rightarrow> int \<times> 'u timer \<times> 'w"

text \<open>Calling an empty \<open>std::function\<close> throws.\<close>

datatype timer_error = BadFunctionCall

section \<open>Operations\<close>

definition Timer_new :: "'u timer" where
  "Timer_new = \<lparr>t_event = None, t_interval = 0, t_round = 1, t_curRound = 0,
     t_handler = NullHandler, t_userData = 0, t_CBHandler = None, t_tid = 0\<rparr>"

definition Timer_reset :: "'u timer \<Rightarrow> 'u timer" where
  "Timer_reset t =
     (if t_event t \<noteq> None then t\<lparr>t_event := None, t_curRound := t_round t + 1\<rparr> else t)"

definition Timer_stop :: "'u timer \<Rightarrow> 'u timer" where
  "Timer_stop t = Timer_reset t"

definition Timer_destroy :: "'u timer \<Rightarrow> 'u timer" where
  "Timer_destroy t = Timer_reset t"

text \<open>\<open>interval / 1000\<close> and \<open>interval % 1000 * 1000\<close> are \<open>uint32_t\<close> arithmetic.\<close>

definition interval_timeval :: "u32 \<Rightarrow> timeval" where
  "interval_timeval interval =
     \<lparr>tv_sec = uint (interval div 1000), tv_usec = uint (interval mod 1000 * 1000)\<rparr>"

definition Timer_startRounds ::
    "event_env \<Rightarrow> u32 \<Rightarrow> u64 \<Rightarrow> 'u handler \<Rightarrow> 'u timer \<Rightarrow> bool \<times> 'u timer" where
  "Timer_startRounds e interval round handler t =
     (if t_event t \<noteq> None then (False, t)
      else if \<not> event_new_ok e then (False, t)
      else
        let ev = \<lparr>ev_persist = (round > 1), ev_timeout = None\<rparr>;
            t1 = t\<lparr>t_event := Some ev\<rparr>
        in if \<not> event_add_ok e then (False, Timer_reset t1)
           else (True, t1\<lparr>t_event := Some (ev\<lparr>ev_timeout := Some (interval_timeval interval)\<rparr>),
                   t_interval := interval, t_round := round, t_curRound := 0,
                   t_handler := handler\<rparr>))"

definition Timer_startOnce ::
    "event_env \<Rightarrow> u32 \<Rightarrow> 'u handler \<Rightarrow> 'u timer \<Rightarrow> bool \<times> 'u timer" where
  "Timer_startOnce e interval handler t = Timer_startRounds e interval 1 handler t"

text \<open>The number of rounds is \<open>uint32_t(-1)\<close>, widened to \<open>uint64_t\<close>.\<close>

definition forever_rounds :: u64 where
  "forever_rounds = ucast (- 1 :: u32)"

lemma unat_forever_rounds: "unat forever_rounds = 4294967295"
  by (simp add: forever_rounds_def unsigned_ucast_eq unsigned_minus_1_eq_mask mask_eq_exp_minus_1
      take_bit_eq_mod)

definition Timer_startForever ::
    "event_env \<Rightarrow> u32 \<Rightarrow> 'u handler \<Rightarrow> 'u timer \<Rightarrow> bool \<times> 'u timer" where
  "Timer_startForever e interval handler t = Timer_startRounds e interval forever_rounds handler t"

definition Timer_startAfter ::
    "event_env \<Rightarrow> u32 \<Rightarrow> u32 \<Rightarrow> u64 \<Rightarrow> 'u handler \<Rightarrow> 'u timer \<Rightarrow> bool \<times> 'u timer" where
  "Timer_startAfter e after interval round handler t =
     Timer_startOnce e after (AfterHandler interval round handler) t"

definition Timer_startCB ::
    "event_env \<Rightarrow> u32 \<Rightarrow> 'u option \<Rightarrow> ptr \<Rightarrow> int \<Rightarrow> 'u timer \<Rightarrow> bool \<times> 'u timer" where
  "Timer_startCB e interval handler userData tid t =
     (let t1 = t\<lparr>t_tid := tid\<rparr>;
          t2 = t1\<lparr>t_userData := userData\<rparr>;
          t3 = t2\<lparr>t_CBHandler := handler\<rparr>
      in Timer_startForever e interval CBLambda t3)"

definition Timer_isFinished :: "'u timer \<Rightarrow> bool" where
  "Timer_isFinished t = (t_curRound t \<ge> t_round t)"

definition Timer_interval :: "'u timer \<Rightarrow> u32" where
  "Timer_interval t = t_interval t"

definition Timer_round :: "'u timer \<Rightarrow> u64" where
  "Timer_round t = t_round t"

definition Timer_curRound :: "'u timer \<Rightarrow> u64" where
  "Timer_curRound t = t_curRound t"

lemma Timer_accessors [simp]:
  "Timer_interval t = t_interval t" "Timer_round t = t_round t" "Timer_curRound t = t_curRound t"
  by (simp_all add: Timer_interval_def Timer_round_def Timer_curRound_def)

text \<open>The body of the lambda of \<open>startAfter\<close>: the result of \<open>startRounds\<close> is dropped.\<close>

definition after_lambda ::
    "event_env \<Rightarrow> u32 \<Rightarrow> u64 \<Rightarrow> 'u handler \<Rightarrow> 'u timer \<Rightarrow> 'u timer" where
  "after_lambda e interval round handler t = snd (Timer_startRounds e interval round handler t)"

text \<open>The body of the lambda of \<open>startCB\<close>.\<close>

definition cb_lambda ::
    "('u, 'w) user_code \<Rightarrow> 'u timer \<Rightarrow> 'w \<Rightarrow> timer_error + 'u timer \<times> 'w" where
  "cb_lambda uc t w =
     (case t_CBHandler t of
        None \<Rightarrow> Inl BadFunctionCall
      | Some c \<Rightarrow>
          (let (ret, t1, w1) = call_cb uc c (t_userData t) (t_tid t) t w
           in if ret = - 1 then Inr (Timer_stop t1, w1) else Inr (t1, w1)))"

fun call_handler ::
    "('u, 'w) user_code \<Rightarrow> event_env \<Rightarrow> 'u handler \<Rightarrow> 'u timer \<Rightarrow> 'w
      \<Rightarrow> timer_error + 'u timer \<times> 'w" where
  "call_handler uc e NullHandler t w = Inl BadFunctionCall"
| "call_handler uc e (UserHandler u) t w = Inr (call_user uc u t w)"
| "call_handler uc e (AfterHandler i r h) t w = Inr (after_lambda e i r h t, w)"
| "call_handler uc e CBLambda t w = cb_lambda uc t w"

definition event_del :: "'u timer \<Rightarrow> 'u timer" where
  "event_del t = t\<lparr>t_event := map_option (\<lambda>ev. ev\<lparr>ev_timeout := None\<rparr>) (t_event t)\<rparr>"

definition Timer_eventHandler ::
    "('u, 'w) user_code \<Rightarrow> event_env \<Rightarrow> 'u timer \<Rightarrow> 'w \<Rightarrow> timer_error + 'u timer \<times> 'w" where
  "Timer_eventHandler uc e t w =
     (let handler = t_handler t;
          t1 = t\<lparr>t_curRound := t_curRound t + 1\<rparr>;
          t2 = (if t_curRound t1 \<ge> t_round t1 then Timer_reset (event_del t1) else t1)
      in call_handler uc e handler t2 w)"

section \<open>Runs of the event loop\<close>

definition Timer_pending :: "'u timer \<Rightarrow> bool" where
  "Timer_pending t = (case t_event t of None \<Rightarrow> False | Some ev \<Rightarrow> ev_timeout ev \<noteq> None)"

text \<open>
  One timeout after another, as long as the event is pending; each timeout comes with the
  outcomes libevent gives to a start the handler may make.
\<close>

fun Timer_run ::
    "('u, 'w) user_code \<Rightarrow> event_env list \<Rightarrow> 'u timer \<Rightarrow> 'w \<Rightarrow> timer_error + 'u timer \<times> 'w" where
  "Timer_run uc [] t w = Inr (t, w)"
| "Timer_run uc (e # es) t w =
     (if Timer_pending t
      then (case Timer_eventHandler uc e t w of
              Inl err \<Rightarrow> Inl err
            | Inr (t1, w1) \<Rightarrow> Timer_run uc es t1 w1)
      else Inr (t, w))"

section \<open>The invariant\<close>

text \<open>
  A timer with an event is armed: the event has the interval's timeout, is persistent exactly
  for more than one round, and rounds remain. A timer without an event is fresh or has been
  reset.
\<close>

definition timer_ok :: "'u timer \<Rightarrow> bool" where
  "timer_ok t \<longleftrightarrow>
     (case t_event t of
        Some ev \<Rightarrow> ev_timeout ev = Some (interval_timeval (t_interval t))
          \<and> ev_persist ev = (t_round t > 1) \<and> t_curRound t < max 1 (t_round t)
      | None \<Rightarrow> t_curRound t = t_round t + 1 \<or> t_curRound t = 0 \<and> t_round t = 1)"

lemmas timer_start_defs = Timer_startOnce_def Timer_startForever_def Timer_startAfter_def
  Timer_startCB_def Let_def

lemma timer_ok_new [inv_pres]: "timer_ok Timer_new"
  by (simp add: timer_ok_def Timer_new_def)

lemma timer_ok_reset [inv_pres]: "timer_ok t \<Longrightarrow> timer_ok (Timer_reset t)"
  by (auto simp: timer_ok_def Timer_reset_def)

lemma timer_ok_stop [inv_pres]: "timer_ok t \<Longrightarrow> timer_ok (Timer_stop t)"
  by (simp add: Timer_stop_def inv_pres)

lemma timer_ok_startRounds [inv_pres]:
  "timer_ok t \<Longrightarrow> timer_ok (snd (Timer_startRounds e i r h t))"
  by (auto simp: timer_ok_def Timer_startRounds_def Timer_reset_def Let_def max_def
      word_neq_0_conv[symmetric])

lemma timer_ok_cb_fields [inv_pres]:
  "timer_ok t \<Longrightarrow> timer_ok (t\<lparr>t_tid := i, t_userData := p, t_CBHandler := c\<rparr>)"
  by (simp add: timer_ok_def split: option.splits)

lemma timer_ok_startCB [inv_pres]:
  "timer_ok t \<Longrightarrow> timer_ok (snd (Timer_startCB e i c p n t))"
  by (simp add: timer_start_defs inv_pres)

text \<open>What \<open>eventHandler\<close> does to the timer before it calls the handler.\<close>

definition timer_tick :: "'u timer \<Rightarrow> 'u timer" where
  "timer_tick t =
     (if t_curRound t + 1 \<ge> t_round t then t\<lparr>t_event := None, t_curRound := t_round t + 1\<rparr>
      else t\<lparr>t_curRound := t_curRound t + 1\<rparr>)"

lemma eventHandler_tick:
  "t_event t \<noteq> None \<Longrightarrow>
     Timer_eventHandler uc e t w = call_handler uc e (t_handler t) (timer_tick t) w"
  by (auto simp: Timer_eventHandler_def timer_tick_def Timer_reset_def event_del_def Let_def)

lemma timer_tick_ok:
  assumes "timer_ok t" and "t_event t = Some ev"
  shows "timer_ok (timer_tick t)"
proof (cases "t_curRound t + 1 \<ge> t_round t")
  case True
  then show ?thesis by (simp add: timer_tick_def timer_ok_def)
next
  case False
  with assms show ?thesis
    by (auto simp: timer_tick_def timer_ok_def max_def split: if_splits)
qed

text \<open>User code that drives the timer through its operations keeps the invariant.\<close>

definition well_behaved :: "('u, 'w) user_code \<Rightarrow> bool" where
  "well_behaved uc \<longleftrightarrow>
     (\<forall>u t w. timer_ok t \<longrightarrow> timer_ok (fst (call_user uc u t w)))
   \<and> (\<forall>c p n t w. timer_ok t \<longrightarrow> timer_ok (fst (snd (call_cb uc c p n t w))))"

lemma call_handler_ok:
  assumes "well_behaved uc" and "timer_ok t" and "call_handler uc e h t w = Inr (t1, w1)"
  shows "timer_ok t1"
proof (cases h)
  case NullHandler
  with assms(3) show ?thesis by simp
next
  case (UserHandler u)
  with assms(3) have "t1 = fst (call_user uc u t w)" by simp
  with assms(1,2) show ?thesis by (simp add: well_behaved_def)
next
  case (AfterHandler i r h1)
  with assms show ?thesis by (auto simp: after_lambda_def inv_pres)
next
  case CBLambda
  with assms(3) obtain c where c: "t_CBHandler t = Some c"
    by (auto simp: cb_lambda_def split: option.splits)
  obtain ret t2 w2 where r: "call_cb uc c (t_userData t) (t_tid t) t w = (ret, t2, w2)"
    by (cases "call_cb uc c (t_userData t) (t_tid t) t w") auto
  have "timer_ok (fst (snd (call_cb uc c (t_userData t) (t_tid t) t w)))"
    using assms(1,2) by (simp add: well_behaved_def)
  with r have "timer_ok t2" by simp
  with assms(3) CBLambda c r show ?thesis
    by (auto simp: cb_lambda_def inv_pres split: if_splits)
qed

lemma timer_ok_eventHandler:
  assumes "well_behaved uc" and "timer_ok t" and "t_event t \<noteq> None"
    and "Timer_eventHandler uc e t w = Inr (t1, w1)"
  shows "timer_ok t1"
  using assms call_handler_ok timer_tick_ok by (fastforce simp: eventHandler_tick)

section \<open>The life of a timer\<close>

text \<open>Everything a program can do with a timer, and libevent's timeouts.\<close>

inductive timer_step :: "('u, 'w) user_code \<Rightarrow> 'u timer \<times> 'w \<Rightarrow> 'u timer \<times> 'w \<Rightarrow> bool"
  for uc :: "('u, 'w) user_code" where
  rounds: "timer_step uc (t, w) (snd (Timer_startRounds e i r h t), w)"
| callback: "timer_step uc (t, w) (snd (Timer_startCB e i c p n t), w)"
| stop: "timer_step uc (t, w) (Timer_stop t, w)"
| timeout: "Timer_pending t \<Longrightarrow> Timer_eventHandler uc e t w = Inr (t1, w1) \<Longrightarrow>
    timer_step uc (t, w) (t1, w1)"

inductive timer_reach :: "('u, 'w) user_code \<Rightarrow> 'u timer \<times> 'w \<Rightarrow> bool"
  for uc :: "('u, 'w) user_code" where
  fresh: "timer_reach uc (Timer_new, w)"
| step: "timer_reach uc s \<Longrightarrow> timer_step uc s s1 \<Longrightarrow> timer_reach uc s1"

lemma timer_step_ok:
  "timer_step uc s s1 \<Longrightarrow> well_behaved uc \<Longrightarrow> timer_ok (fst s) \<Longrightarrow> timer_ok (fst s1)"
  by (induction rule: timer_step.induct)
    (auto simp: Timer_pending_def inv_pres split: option.splits intro: timer_ok_eventHandler)

lemma timer_reach_ok: "timer_reach uc s \<Longrightarrow> well_behaved uc \<Longrightarrow> timer_ok (fst s)"
  by (induction rule: timer_reach.induct) (auto simp: inv_pres dest: timer_step_ok)

section \<open>Counting rounds\<close>

text \<open>The rounds an armed timer still has: a round count of zero counts as one.\<close>

definition rounds_left :: "'u timer \<Rightarrow> nat" where
  "rounds_left t = max 1 (unat (t_round t)) - unat (t_curRound t)"

definition armed :: "'u timer \<Rightarrow> bool" where
  "armed t \<longleftrightarrow> timer_ok t \<and> t_event t \<noteq> None"

text \<open>How a timer looks once it has run out or has been stopped.\<close>

definition run_out :: "'u timer \<Rightarrow> 'u timer" where
  "run_out t = t\<lparr>t_event := None, t_curRound := t_round t + 1\<rparr>"

lemma armed_pending: "armed t \<Longrightarrow> Timer_pending t"
  by (auto simp: armed_def timer_ok_def Timer_pending_def split: option.splits)

lemma armed_curRound: "armed t \<Longrightarrow> t_curRound t < max 1 (t_round t)"
  by (auto simp: armed_def timer_ok_def split: option.splits)

lemma unat_max_1: "unat (max 1 (x :: u64)) = max 1 (unat x)"
  by (auto simp: max_def word_le_nat_alt)

lemma armed_curRound_unat:
  assumes "armed t"
  shows "unat (t_curRound t) < max 1 (unat (t_round t))"
  using armed_curRound [OF assms] by (simp add: word_less_nat_alt unat_max_1)

lemma max_1_pos [simp]: "(0 :: u64) < max 1 x"
  by (simp add: word_less_nat_alt unat_max_1)

lemma rounds_left_pos: "armed t \<Longrightarrow> 0 < rounds_left t"
  using armed_curRound_unat [of t] by (simp add: rounds_left_def)

lemma armed_next_round:
  assumes "armed t"
  shows "unat (t_curRound t + 1) = Suc (unat (t_curRound t))"
  using armed_curRound [OF assms] by (rule unat_plus_one_less)

lemma last_round_iff:
  assumes "armed t"
  shows "t_round t \<le> t_curRound t + 1 \<longleftrightarrow> rounds_left t = 1"
  using armed_curRound_unat [OF assms]
  by (auto simp: word_le_nat_alt armed_next_round [OF assms] rounds_left_def max_def)

lemma tick_last: "armed t \<Longrightarrow> rounds_left t = 1 \<Longrightarrow> timer_tick t = run_out t"
  by (simp add: timer_tick_def last_round_iff run_out_def)

lemma tick_more:
  assumes "armed t" and "rounds_left t \<noteq> 1"
  shows "timer_tick t = t\<lparr>t_curRound := t_curRound t + 1\<rparr>"
    and "armed (timer_tick t)" and "rounds_left (timer_tick t) = rounds_left t - 1"
proof -
  show eq: "timer_tick t = t\<lparr>t_curRound := t_curRound t + 1\<rparr>"
    using assms by (simp add: timer_tick_def last_round_iff)
  have "timer_ok (timer_tick t)" using assms(1) timer_tick_ok by (auto simp: armed_def)
  moreover have "t_event (timer_tick t) \<noteq> None" using assms(1) by (simp add: eq armed_def)
  ultimately show "armed (timer_tick t)" by (simp add: armed_def)
  show "rounds_left (timer_tick t) = rounds_left t - 1"
    by (simp add: eq rounds_left_def armed_next_round [OF assms(1)])
qed

lemma run_idle [simp]: "t_event t = None \<Longrightarrow> Timer_run uc es t w = Inr (t, w)"
  by (cases es) (simp_all add: Timer_pending_def)

lemma run_armed:
  "armed t \<Longrightarrow> Timer_run uc (e # es) t w =
     (case call_handler uc e (t_handler t) (timer_tick t) w of
        Inl err \<Rightarrow> Inl err | Inr (t1, w1) \<Rightarrow> Timer_run uc es t1 w1)"
  by (simp add: armed_pending eventHandler_tick armed_def)

lemma Timer_run_append:
  "Timer_run uc (es @ fs) t w =
     (case Timer_run uc es t w of Inl err \<Rightarrow> Inl err | Inr (t1, w1) \<Rightarrow> Timer_run uc fs t1 w1)"
proof (induction es arbitrary: t w)
  case Nil
  then show ?case by simp
next
  case (Cons e es)
  show ?case
  proof (cases "Timer_pending t")
    case True
    then show ?thesis by (simp add: Cons.IH split: sum.splits prod.splits)
  next
    case False
    then have "Timer_run uc fs t w = Inr (t, w)" by (cases fs) simp_all
    with False show ?thesis by simp
  qed
qed

text \<open>
  A handler that leaves the timer alone and does \<open>g\<close> to the rest of the program is called
  once per round; then the timer has run out and nothing more happens.
\<close>

lemma run_counts:
  assumes keeps: "\<And>e t w. call_handler uc e h t w = Inr (t, g w)"
  shows "armed t \<Longrightarrow> t_handler t = h \<Longrightarrow>
    Timer_run uc es t w =
      (if length es < rounds_left t
       then Inr (t\<lparr>t_curRound := t_curRound t + of_nat (length es)\<rparr>, (g ^^ length es) w)
       else Inr (run_out t, (g ^^ rounds_left t) w))"
proof (induction es arbitrary: t w)
  case Nil
  then show ?case by (simp add: rounds_left_pos)
next
  case (Cons e es)
  have step: "Timer_run uc (e # es) t w = Timer_run uc es (timer_tick t) (g w)"
    using Cons.prems keeps by (simp add: run_armed del: Timer_run.simps)
  show ?case
  proof (cases "rounds_left t = 1")
    case True
    with Cons.prems step show ?thesis by (simp add: tick_last run_out_def)
  next
    case False
    note more = tick_more [OF Cons.prems(1) False]
    have pos: "0 < rounds_left t" using Cons.prems(1) by (rule rounds_left_pos)
    have out: "run_out (timer_tick t) = run_out t" by (simp add: more(1) run_out_def)
    have pow: "(g ^^ (rounds_left t - 1)) (g w) = (g ^^ rounds_left t) w"
      using pos by (metis Suc_diff_1 comp_apply funpow_Suc_right)
    have adv: "(timer_tick t)\<lparr>t_curRound := t_curRound (timer_tick t) + of_nat (length es)\<rparr>
        = t\<lparr>t_curRound := t_curRound t + of_nat (length (e # es))\<rparr>"
      by (simp add: more(1) algebra_simps)
    have "t_handler (timer_tick t) = h" using Cons.prems(2) by (simp add: more(1))
    from Cons.IH [OF more(2) this, of "g w"]
    have "Timer_run uc (e # es) t w =
        (if length es < rounds_left t - 1
         then Inr (t\<lparr>t_curRound := t_curRound t + of_nat (length (e # es))\<rparr>,
                (g ^^ length es) (g w))
         else Inr (run_out t, (g ^^ rounds_left t) w))"
      unfolding step more(3) adv out pow .
    moreover have "length es < rounds_left t - 1 \<longleftrightarrow> length (e # es) < rounds_left t"
      using pos by auto
    moreover have "(g ^^ length es) (g w) = (g ^^ length (e # es)) w"
      by (simp add: funpow_swap1)
    ultimately show ?thesis by presburger
  qed
qed

lemma started_armed:
  assumes "Timer_startRounds e i r h t = (True, t0)"
  shows "armed t0" and "t_handler t0 = h" and "t_round t0 = r" and "t_curRound t0 = 0"
    and "rounds_left t0 = max 1 (unat r)"
  using assms
  by (auto simp: Timer_startRounds_def Let_def armed_def timer_ok_def rounds_left_def
      split: if_splits)

lemma armed_advance:
  assumes "armed t" and "n < rounds_left t"
  shows "armed (t\<lparr>t_curRound := t_curRound t + of_nat n\<rparr>)"
    and "rounds_left (t\<lparr>t_curRound := t_curRound t + of_nat n\<rparr>) = rounds_left t - n"
proof -
  have "unat (t_curRound t) + n < max 1 (unat (t_round t))"
    using assms(2) by (simp add: rounds_left_def)
  moreover have "max 1 (unat (t_round t)) < 2 ^ 64"
    using unat_lt_2p [of "t_round t"] by simp
  ultimately have u: "unat (t_curRound t + of_nat n) = unat (t_curRound t) + n"
    and lt: "t_curRound t + of_nat n < max 1 (t_round t)"
    by (simp_all add: unat_word_ariths unat_of_nat word_less_nat_alt unat_max_1)
  show "armed (t\<lparr>t_curRound := t_curRound t + of_nat n\<rparr>)"
    using assms(1) lt by (auto simp: armed_def timer_ok_def split: option.splits)
  show "rounds_left (t\<lparr>t_curRound := t_curRound t + of_nat n\<rparr>) = rounds_left t - n"
    by (simp add: rounds_left_def u)
qed

text \<open>
  The same count for a handler that behaves well only while the timer satisfies \<open>P\<close> and the
  program state \<open>Q\<close>: as long as both last, one call per timeout.
\<close>

lemma run_prefix:
  assumes keeps: "\<And>e t w. P t \<Longrightarrow> Q w \<Longrightarrow> call_handler uc e h t w = Inr (t, g w)"
    and tick: "\<And>t. P t \<Longrightarrow> P (timer_tick t)"
  shows "armed t \<Longrightarrow> P t \<Longrightarrow> t_handler t = h \<Longrightarrow> length es < rounds_left t \<Longrightarrow>
    \<forall>j < length es. Q ((g ^^ j) w) \<Longrightarrow>
    Timer_run uc es t w =
      Inr (t\<lparr>t_curRound := t_curRound t + of_nat (length es)\<rparr>, (g ^^ length es) w)"
proof (induction es arbitrary: t w)
  case Nil
  then show ?case by simp
next
  case (Cons e es)
  have left: "rounds_left t \<noteq> 1" using Cons.prems(4) by auto
  note more = tick_more [OF Cons.prems(1) left]
  have "Q w" using Cons.prems(5) by (metis funpow_0 length_greater_0_conv list.distinct(1))
  then have step: "Timer_run uc (e # es) t w = Timer_run uc es (timer_tick t) (g w)"
    using Cons.prems keeps tick by (simp add: run_armed del: Timer_run.simps)
  have "\<forall>j < length es. Q ((g ^^ j) (g w))"
    using Cons.prems(5) by (auto simp: funpow_swap1 dest: spec [of _ "Suc j" for j])
  then have "Timer_run uc es (timer_tick t) (g w) =
      Inr ((timer_tick t)\<lparr>t_curRound := t_curRound (timer_tick t) + of_nat (length es)\<rparr>,
        (g ^^ length es) (g w))"
    using Cons.IH [OF more(2) tick, of "g w"] Cons.prems more(1,3) by simp
  then show ?case by (simp add: step more(1) funpow_swap1 algebra_simps del: Timer_run.simps)
qed

lemma stop_run_out: "armed t \<Longrightarrow> Timer_stop (timer_tick t) = run_out t"
  by (auto simp: Timer_stop_def Timer_reset_def timer_tick_def run_out_def armed_def)

section \<open>Properties\<close>

text \<open>User code that leaves the timer alone; \<open>g\<close> is what it does to the rest.\<close>

definition user_keeps :: "('u, 'w) user_code \<Rightarrow> 'u \<Rightarrow> ('w \<Rightarrow> 'w) \<Rightarrow> bool" where
  "user_keeps uc u g \<longleftrightarrow> (\<forall>t w. call_user uc u t w = (t, g w))"

definition cb_keeps ::
    "('u, 'w) user_code \<Rightarrow> 'u \<Rightarrow> ptr \<Rightarrow> int \<Rightarrow> ('w \<Rightarrow> int) \<Rightarrow> ('w \<Rightarrow> 'w) \<Rightarrow> bool" where
  "cb_keeps uc c p n ret g \<longleftrightarrow> (\<forall>t w. call_cb uc c p n t w = (ret w, t, g w))"

text \<open>User code for the witnesses: the program state counts the calls.\<close>

definition counting_code :: "(nat, nat) user_code" where
  "counting_code = \<lparr>call_user = (\<lambda>u t w. (t, Suc w)),
     call_cb = (\<lambda>c p n t w. (if w = c then - 1 else 0, t, Suc w))\<rparr>"

definition good_env :: event_env where
  "good_env = \<lparr>event_new_ok = True, event_add_ok = True\<rparr>"

lemma counting_code_keeps: "user_keeps counting_code u Suc"
  by (simp add: user_keeps_def counting_code_def)

lemma counting_code_cb_keeps:
  "cb_keeps counting_code c p n (\<lambda>w. if w = c then - 1 else 0) Suc"
  by (simp add: cb_keeps_def counting_code_def)

lemma start_new_timer:
  "Timer_startRounds good_env i r h Timer_new = (True, snd (Timer_startRounds good_env i r h Timer_new))"
  by (simp add: Timer_startRounds_def good_env_def Timer_new_def Let_def)

text \<open>C12: A timer started for \<open>r\<close> rounds calls its handler exactly \<open>max 1 r\<close> times, once per
  timeout, whatever the number of timeouts libevent delivers; during the first rounds
  \<open>curRound\<close> counts the calls, and after the last one the event is gone and the handler is
  never called again.\<close>

theorem timer_fires_exactly:
  assumes "Timer_startRounds e i r (UserHandler u) t = (True, t0)"
    and "user_keeps uc u g"
  shows "Timer_run uc es t0 w =
    (if length es < max 1 (unat r)
     then Inr (t0\<lparr>t_curRound := of_nat (length es)\<rparr>, (g ^^ length es) w)
     else Inr (run_out t0, (g ^^ max 1 (unat r)) w))"
proof -
  note s = started_armed [OF assms(1)]
  have "call_handler uc e (UserHandler u) t w = Inr (t, g w)" for e t w
    using assms(2) by (simp add: user_keeps_def)
  from run_counts [OF this s(1,2), of es w] show ?thesis by (simp add: s(4,5))
qed

theorem timer_fires_exactly_witness:
  "Timer_run counting_code (replicate 5 good_env)
     (snd (Timer_startRounds good_env 250 3 (UserHandler 0) Timer_new)) 0
   = Inr (run_out (snd (Timer_startRounds good_env 250 3 (UserHandler 0) Timer_new)), 3)"
  by (subst timer_fires_exactly [OF start_new_timer counting_code_keeps])
    simp

text \<open>\<open>startForever\<close> does not run for ever: after \<open>2 ^ 32 - 1\<close> timeouts the timer has run
  out, and its handler has been called that many times and never again.\<close>

theorem timer_forever_ends:
  assumes "Timer_startForever e i (UserHandler u) t = (True, t0)"
    and "user_keeps uc u g" and "2 ^ 32 - 1 \<le> length es"
  shows "Timer_run uc es t0 w = Inr (run_out t0, (g ^^ (2 ^ 32 - 1)) w)"
proof -
  have "Timer_startRounds e i forever_rounds (UserHandler u) t = (True, t0)"
    using assms(1) by (simp add: Timer_startForever_def)
  note s = started_armed [OF this]
  have "call_handler uc e (UserHandler u) t w = Inr (t, g w)" for e t w
    using assms(2) by (simp add: user_keeps_def)
  from run_counts [OF this s(1,2), of es w] show ?thesis
    using assms(3) by (simp add: s(5) unat_forever_rounds)
qed

lemma start_forever_new:
  "Timer_startForever good_env i h Timer_new =
     (True, snd (Timer_startForever good_env i h Timer_new))"
  unfolding Timer_startForever_def by (rule start_new_timer)

theorem timer_forever_ends_witness:
  "\<exists>w. Timer_run counting_code (replicate (2 ^ 32 - 1) good_env)
     (snd (Timer_startForever good_env 10 (UserHandler 0) Timer_new)) 0
   = Inr (run_out (snd (Timer_startForever good_env 10 (UserHandler 0) Timer_new)), w)"
  by (intro exI, rule timer_forever_ends [OF start_forever_new counting_code_keeps])
    simp

text \<open>A timer started with \<open>startAfter\<close> first waits \<open>after\<close> milliseconds, then restarts
  itself with the interval and calls the user's handler \<open>max 1 r\<close> times; its first timeout does
  not call it.\<close>

theorem timer_after_then_rounds:
  assumes "Timer_startAfter e after i r (UserHandler u) t = (True, t0)"
    and "user_keeps uc u g" and "event_new_ok e1" and "event_add_ok e1"
  shows "t_interval t0 = after \<and> (\<exists>t1. Timer_startRounds e1 i r (UserHandler u) (run_out t0) = (True, t1)
    \<and> Timer_run uc (e1 # es) t0 w =
      (if length es < max 1 (unat r)
       then Inr (t1\<lparr>t_curRound := of_nat (length es)\<rparr>, (g ^^ length es) w)
       else Inr (run_out t1, (g ^^ max 1 (unat r)) w)))"
proof -
  have start: "Timer_startRounds e after 1 (AfterHandler i r (UserHandler u)) t = (True, t0)"
    using assms(1) by (simp add: Timer_startAfter_def Timer_startOnce_def)
  note s = started_armed [OF start]
  have "t_interval t0 = after"
    using start by (auto simp: Timer_startRounds_def Let_def split: if_splits)
  moreover have "t_event (run_out t0) = None" by (simp add: run_out_def)
  then obtain t1 where t1: "Timer_startRounds e1 i r (UserHandler u) (run_out t0) = (True, t1)"
    using assms(3,4) by (simp add: Timer_startRounds_def Let_def)
  note s1 = started_armed [OF t1]
  have "Timer_run uc (e1 # es) t0 w = Timer_run uc es t1 w"
    using s by (simp add: run_armed tick_last t1 after_lambda_def del: Timer_run.simps)
  moreover have "call_handler uc e (UserHandler u) t w = Inr (t, g w)" for e t w
    using assms(2) by (simp add: user_keeps_def)
  note run_counts [OF this s1(1,2), of es w]
  ultimately show ?thesis using t1 by (auto simp: s1(4,5) simp del: Timer_run.simps)
qed

lemma start_after_new:
  "Timer_startAfter good_env a i r h Timer_new =
     (True, snd (Timer_startAfter good_env a i r h Timer_new))"
  unfolding Timer_startAfter_def Timer_startOnce_def by (rule start_new_timer)

theorem timer_after_then_rounds_witness:
  "\<exists>t1. Timer_run counting_code (replicate 4 good_env)
     (snd (Timer_startAfter good_env 1000 100 2 (UserHandler 0) Timer_new)) 0 = Inr (run_out t1, 2)"
proof -
  have ok: "event_new_ok good_env" "event_add_ok good_env" by (simp_all add: good_env_def)
  have two: "max 1 (unat (2 :: u64)) = 2" by simp
  show ?thesis
    using timer_after_then_rounds
      [OF start_after_new counting_code_keeps ok, of 1000 100 2 0 "replicate 3 good_env" 0]
    unfolding two by (auto simp: replicate_app_Cons_same simp flip: replicate_Suc
        simp del: Timer_run.simps)
qed

text \<open>A timer started by \<open>startCB\<close>, and its runs up to the call that returns \<open>-1\<close> and through it.\<close>

lemma cb_started:
  assumes "Timer_startCB e i (Some c) p n t = (True, t0)"
  shows "armed t0" and "t_handler t0 = CBLambda" and "rounds_left t0 = 2 ^ 32 - 1"
    and "t_round t0 = forever_rounds" and "t_curRound t0 = 0"
    and "t_CBHandler t0 = Some c \<and> t_userData t0 = p \<and> t_tid t0 = n"
proof -
  have start: "Timer_startRounds e i forever_rounds CBLambda
      (t\<lparr>t_tid := n, t_userData := p, t_CBHandler := Some c\<rparr>) = (True, t0)"
    using assms by (simp add: timer_start_defs)
  note s = started_armed [OF start]
  then show "armed t0" "t_handler t0 = CBLambda" "rounds_left t0 = 2 ^ 32 - 1"
    "t_round t0 = forever_rounds" "t_curRound t0 = 0"
    by (simp_all add: unat_forever_rounds)
  show "t_CBHandler t0 = Some c \<and> t_userData t0 = p \<and> t_tid t0 = n"
    using start by (auto simp: Timer_startRounds_def Let_def split: if_splits)
qed

lemma cb_call:
  assumes "cb_keeps uc c p n ret g" and "t_CBHandler t = Some c \<and> t_userData t = p \<and> t_tid t = n"
  shows "call_handler uc e CBLambda t w = Inr (if ret w = - 1 then Timer_stop t else t, g w)"
  using assms by (simp add: cb_lambda_def cb_keeps_def)

lemma cb_run_before:
  assumes "Timer_startCB e i (Some c) p n t = (True, t0)" and "cb_keeps uc c p n ret g"
    and "\<forall>j < length es. ret ((g ^^ j) w) \<noteq> - 1" and "length es < 2 ^ 32 - 1"
  shows "Timer_run uc es t0 w = Inr (t0\<lparr>t_curRound := of_nat (length es)\<rparr>, (g ^^ length es) w)"
    and "armed (t0\<lparr>t_curRound := of_nat (length es)\<rparr>)"
proof -
  note s = cb_started [OF assms(1)]
  let ?P = "\<lambda>t. t_CBHandler t = Some c \<and> t_userData t = p \<and> t_tid t = n"
  have "call_handler uc e CBLambda t w = Inr (t, g w)" if "?P t" "ret w \<noteq> - 1" for e t w
    using cb_call [OF assms(2) that(1)] that(2) by simp
  moreover have "?P (timer_tick t)" if "?P t" for t using that by (simp add: timer_tick_def)
  ultimately show "Timer_run uc es t0 w = Inr (t0\<lparr>t_curRound := of_nat (length es)\<rparr>, (g ^^ length es) w)"
    using run_prefix [where P = ?P and Q = "\<lambda>w. ret w \<noteq> - 1" and h = CBLambda and g = g,
        OF _ _ s(1,6,2) _ assms(3)] assms(4) by (simp only: s(3,5) add_0) blast
  show "armed (t0\<lparr>t_curRound := of_nat (length es)\<rparr>)"
    using armed_advance(1) [OF s(1), of "length es"] assms(4) by (simp add: s(3,5))
qed

lemma cb_run_until:
  assumes start: "Timer_startCB e i (Some c) p n t = (True, t0)" and keeps: "cb_keeps uc c p n ret g"
    and before: "\<forall>j < k. ret ((g ^^ j) w) \<noteq> - 1" and stop: "ret ((g ^^ k) w) = - 1"
    and bound: "k < 2 ^ 32 - 1" and len: "k < length es"
  shows "Timer_run uc es t0 w = Inr (run_out t0, (g ^^ Suc k) w)"
proof -
  let ?t = "t0\<lparr>t_curRound := of_nat k\<rparr>"
  have "length (take k es) = k" using len by simp
  then have run: "Timer_run uc (take k es) t0 w = Inr (?t, (g ^^ k) w)" and armed: "armed ?t"
    using cb_run_before [OF start keeps, of "take k es" w] before bound by simp_all
  have "t_CBHandler (timer_tick ?t) = Some c \<and> t_userData (timer_tick ?t) = p \<and> t_tid (timer_tick ?t) = n"
    using cb_started(6) [OF start] by (simp add: timer_tick_def)
  note last = cb_call [OF keeps this, of "es ! k" "(g ^^ k) w"]
  have h: "t_handler ?t = CBLambda" using cb_started(2) [OF start] by simp
  have "Timer_run uc (take k es @ es ! k # drop (Suc k) es) t0 w =
      Timer_run uc (drop (Suc k) es) (run_out ?t) (g ((g ^^ k) w))"
    using stop by (simp only: Timer_run_append run run_armed [OF armed] stop_run_out [OF armed] last
        sum.case prod.case h refl if_True)
  moreover have "run_out ?t = run_out t0" by (simp add: run_out_def)
  ultimately show ?thesis
    by (simp add: id_take_nth_drop [OF len, symmetric] run_out_def del: Timer_run.simps)
qed

text \<open>C19: A callback started with \<open>startCB\<close> is called with its user data and timer id once
  per timeout until it first returns \<open>-1\<close>; that call stops the timer, and no later timeout
  calls it.\<close>

theorem timer_cb_until_minus_one:
  assumes "Timer_startCB e i (Some c) p n t = (True, t0)"
    and "cb_keeps uc c p n ret g"
    and "\<forall>j < k. ret ((g ^^ j) w) \<noteq> - 1" and "ret ((g ^^ k) w) = - 1"
    and "k < 2 ^ 32 - 1" and "k < length es"
  shows "\<exists>t1. Timer_run uc es t0 w = Inr (t1, (g ^^ Suc k) w) \<and> t_event t1 = None
    \<and> Timer_isFinished t1"
proof -
  have "Timer_isFinished (run_out t0)"
    using cb_started(4) [OF assms(1)]
    by (simp add: Timer_isFinished_def run_out_def word_le_nat_alt unat_word_ariths unat_forever_rounds)
  then show ?thesis using cb_run_until [OF assms] by (simp add: run_out_def del: Timer_run.simps)
qed

lemma start_cb_new:
  "Timer_startCB good_env i c p n Timer_new =
     (True, snd (Timer_startCB good_env i c p n Timer_new))"
  by (simp add: timer_start_defs Timer_startRounds_def good_env_def Timer_new_def)

theorem timer_cb_until_minus_one_witness:
  "\<exists>t1. Timer_run counting_code (replicate 7 good_env)
     (snd (Timer_startCB good_env 500 (Some 2) 4096 0 Timer_new)) 0 = Inr (t1, 3)
     \<and> t_event t1 = None \<and> Timer_isFinished t1"
proof -
  let ?ret = "\<lambda>w :: nat. if w = 2 then - 1 else 0 :: int"
  have before: "\<forall>j < 2. ?ret ((Suc ^^ j) 0) \<noteq> - 1" by simp
  have at: "?ret ((Suc ^^ 2) 0) = - 1" by simp
  have len: "(2 :: nat) < 2 ^ 32 - 1" "2 < length (replicate 7 good_env)" by simp_all
  show ?thesis
    using timer_cb_until_minus_one
      [OF start_cb_new counting_code_cb_keeps before at len, of 500 4096 0]
    by (simp only: Suc_funpow) simp
qed

text \<open>\<open>startCB\<close> on a running callback timer is refused, yet it has already replaced
  the callback, its user data and its id: the next timeout calls the new callback.\<close>

theorem timer_startCB_running_replaces:
  assumes "armed t" and "t_handler t = CBLambda"
  shows "\<exists>t1. Timer_startCB e i (Some c) p n t = (False, t1) \<and> t_event t1 = t_event t
    \<and> Timer_eventHandler uc e1 t1 w =
        (case call_cb uc c p n (timer_tick t1) w of
           (ret, t2, w2) \<Rightarrow> Inr (if ret = - 1 then Timer_stop t2 else t2, w2))"
proof -
  let ?t1 = "t\<lparr>t_tid := n, t_userData := p, t_CBHandler := Some c\<rparr>"
  have ev: "t_event t \<noteq> None" using assms(1) by (simp add: armed_def)
  have "Timer_startCB e i (Some c) p n t = (False, ?t1)"
    using ev by (simp add: timer_start_defs Timer_startRounds_def)
  moreover have "t_CBHandler (timer_tick ?t1) = Some c" "t_userData (timer_tick ?t1) = p"
    "t_tid (timer_tick ?t1) = n"
    by (simp_all add: timer_tick_def)
  moreover have "Timer_eventHandler uc e1 ?t1 w = cb_lambda uc (timer_tick ?t1) w"
    using ev assms(2) by (simp add: eventHandler_tick)
  ultimately show ?thesis by (auto simp: cb_lambda_def split: prod.split)
qed

lemma armed_cb_timer: "armed (snd (Timer_startCB good_env i c p n Timer_new))"
  using started_armed(1) start_cb_new [of i c p n] unfolding timer_start_defs by blast

theorem timer_startCB_running_replaces_witness:
  "\<exists>t1. Timer_startCB good_env 9 (Some 7) 2 3 (snd (Timer_startCB good_env 500 (Some 5) 4096 0 Timer_new))
      = (False, t1)
    \<and> Timer_eventHandler counting_code good_env t1 7 = Inr (Timer_stop (timer_tick t1), 8)"
proof -
  have "t_handler (snd (Timer_startCB good_env 500 (Some (5 :: nat)) 4096 0 Timer_new)) = CBLambda"
    by (simp add: timer_start_defs Timer_startRounds_def good_env_def Timer_new_def)
  from timer_startCB_running_replaces
    [OF armed_cb_timer this, of good_env 9 7 2 3 counting_code good_env 7]
  show ?thesis by (auto simp: counting_code_def)
qed

text \<open>A stopped timer reports that it is finished, unless it was started for the largest
  number of rounds: then \<open>curRound = round + 1\<close> wraps to zero and it never does.\<close>

theorem timer_stop_finished:
  assumes "armed t"
  shows "Timer_isFinished (Timer_stop t) \<longleftrightarrow> t_round t \<noteq> - 1"
proof -
  have "t_event t \<noteq> None" using assms by (simp add: armed_def)
  then show ?thesis
    by (simp add: Timer_stop_def Timer_reset_def Timer_isFinished_def word_le_plus_one_iff)
qed

lemma armed_new_timer: "armed (snd (Timer_startRounds good_env i r h Timer_new))"
  by (rule started_armed(1) [OF start_new_timer])

theorem timer_stop_finished_witness:
  "\<not> Timer_isFinished (Timer_stop (snd (Timer_startRounds good_env 10 (- 1) (UserHandler (0 :: nat)) Timer_new)))"
  using timer_stop_finished [OF armed_new_timer, of 10 "- 1" "UserHandler (0 :: nat)"]
    started_armed(3) [OF start_new_timer, of 10 "- 1" "UserHandler (0 :: nat)"] by simp

text \<open>C17: Whatever a program does with a timer and whenever its timeouts come, a timer with an
  event is armed for its interval with rounds left, its event persistent exactly for more than
  one round, and a timer without one is fresh or has \<open>curRound = round + 1\<close>.\<close>

theorem timer_invariant:
  assumes "timer_reach uc (t, w)" and "well_behaved uc"
  shows "case t_event t of
      Some ev \<Rightarrow> ev_timeout ev = Some (interval_timeval (t_interval t))
        \<and> ev_persist ev = (t_round t > 1) \<and> t_curRound t < max 1 (t_round t)
    | None \<Rightarrow> t_curRound t = t_round t + 1 \<or> t_curRound t = 0 \<and> t_round t = 1"
  using timer_reach_ok [OF assms] by (simp add: timer_ok_def)

theorem timer_invariant_witness:
  "t_curRound (snd (Timer_startRounds good_env 10 5 (UserHandler 0) Timer_new)) < max 1 (5 :: u64)"
proof -
  have "timer_reach counting_code (Timer_new, 0)" by (rule timer_reach.fresh)
  then have "timer_reach counting_code
      (snd (Timer_startRounds good_env 10 5 (UserHandler 0) Timer_new), 0)"
    by (rule timer_reach.step) (rule timer_step.rounds)
  moreover have "well_behaved counting_code"
    by (simp add: well_behaved_def counting_code_def)
  ultimately show ?thesis
    using timer_invariant [of counting_code "snd (Timer_startRounds good_env 10 5 (UserHandler 0) Timer_new)" 0]
    by (simp add: Timer_startRounds_def good_env_def Timer_new_def Let_def)
qed

text \<open>The timeout given to libevent is the interval in milliseconds, with less than a
  second in its microseconds; the \<open>uint32_t\<close> arithmetic never wraps.\<close>

theorem interval_timeval_exact:
  "tv_sec (interval_timeval i) * 1000000 + tv_usec (interval_timeval i) = uint i * 1000
   \<and> 0 \<le> tv_usec (interval_timeval i) \<and> tv_usec (interval_timeval i) < 1000000"
proof -
  have "uint (i mod 1000) = uint i mod 1000" by (simp add: uint_mod)
  moreover have "uint i mod 1000 < 1000" and "0 \<le> uint i mod 1000" by simp_all
  ultimately have "uint (i mod 1000 * 1000) = uint i mod 1000 * 1000"
    by (simp add: uint_word_ariths)
  moreover have "uint (i div 1000) = uint i div 1000" by (simp add: uint_div)
  moreover have "uint i div 1000 * 1000 + uint i mod 1000 = uint i" by simp
  then have "uint i div 1000 * 1000000 + uint i mod 1000 * 1000 = uint i * 1000" by linarith
  ultimately show ?thesis by (simp add: interval_timeval_def)
qed

end
