(* ===== verification/Event_Loop.thy ===== *)
theory Event_Loop
  imports Shared
begin

text \<open>
  The class \<open>Loop\<close> (include/translib/loop.h, src/translib/loop.cpp): an event base that runs in a
  thread, a status, and the registry of all loops by id.

  Threads interleave, so \<open>_run\<close> is a sequence of steps with a program counter, one per
  statement; every other method is one step of the thread that calls it. libevent's event base
  is a parameter \<open>event_base_api\<close>, and so are the virtual hooks (\<open>loop_hooks\<close>), whose defaults
  are \<open>Loop_hooks\<close>. A method that cannot go on (\<open>join\<close> of a running thread) has the result
  \<open>None\<close>.
\<close>

section \<open>libevent's event base\<close>

text \<open>
  \<open>event_base_loop\<close> is its entry and the question whether it returns by itself in a state of
  the base.
\<close>

record 'b event_base_api =
  event_base_loopexit :: "'b \<Rightarrow> 'b"
  event_base_loopbreak :: "'b \<Rightarrow> 'b"
  event_base_loop_enter :: "'b \<Rightarrow> 'b"
  event_base_loop_returns :: "'b \<Rightarrow> bool"

text \<open>
  The documentation of libevent: both calls end a running loop; before the loop runs,
  \<open>loopexit\<close> ends the next run of the loop and \<open>loopbreak\<close> has no effect.
\<close>

definition event_base_laws :: "'b event_base_api \<Rightarrow> bool" where
  "event_base_laws api \<longleftrightarrow>
     (\<forall>b. event_base_loop_returns api (event_base_loopexit api b))
   \<and> (\<forall>b. event_base_loop_returns api (event_base_loopbreak api b))
   \<and> (\<forall>b. event_base_loop_returns api (event_base_loop_enter api (event_base_loopexit api b)))
   \<and> (\<forall>b. event_base_loop_enter api (event_base_loopbreak api b) = event_base_loop_enter api b)"

text \<open>A base that is its two flags and the number of its events.\<close>

record flag_base =
  fb_exit :: bool
  fb_break :: bool
  fb_events :: nat

definition flag_api :: "flag_base event_base_api" where
  "flag_api = \<lparr>event_base_loopexit = (\<lambda>b. b\<lparr>fb_exit := True\<rparr>),
     event_base_loopbreak = (\<lambda>b. b\<lparr>fb_break := True\<rparr>),
     event_base_loop_enter = (\<lambda>b. b\<lparr>fb_break := False\<rparr>),
     event_base_loop_returns = (\<lambda>b. fb_exit b \<or> fb_break b \<or> fb_events b = 0)\<rparr>"

lemma flag_api_laws: "event_base_laws flag_api"
  by (simp add: event_base_laws_def flag_api_def)

section \<open>State\<close>

definition StatusInit :: int where
  "StatusInit = 0"

definition StatusRunning :: int where
  "StatusRunning = 2"

definition StatusFinished :: int where
  "StatusFinished = 4"

type_synonym tid = nat

text \<open>The members of a \<open>Loop\<close>; \<open>_thread\<close> is the thread its \<open>std::thread\<close> object stands for.\<close>

record 'b loop =
  l_id :: u32
  l_base :: "'b option"
  l_thread :: "tid option"
  l_status :: int

text \<open>The statements of \<open>_run\<close>, the next one a thread executes.\<close>

datatype run_pc = SetRunning | SetCur | BeforeLoop | EnterLoop | InLoop | AfterLoop | ClearCur
  | SetFinished

text \<open>
  The static members, the loop objects in memory, and the threads: \<open>curThreadLoop\<close>, the calls
  of \<open>_run\<close> a thread is in (innermost first), the threads not joined yet, and the number of
  the next thread.
\<close>

record 'b loops =
  sIdGenerater :: u32
  sLoops :: "u32 \<rightharpoonup> addr"
  objs :: "addr \<rightharpoonup> 'b loop"
  curThreadLoop :: "tid \<Rightarrow> addr option"
  calls :: "tid \<Rightarrow> (addr \<times> run_pc) list"
  joinable :: "tid set"
  next_tid :: tid

record 'b loop_hooks =
  onBeforeStart :: bool
  onBeforeLoop :: "'b \<Rightarrow> 'b"
  onAfterLoop :: "'b \<Rightarrow> 'b"
  onAfterStop :: "'b \<Rightarrow> 'b"

definition Loop_hooks :: "'b loop_hooks" where
  "Loop_hooks = \<lparr>onBeforeStart = True, onBeforeLoop = (\<lambda>b. b), onAfterLoop = (\<lambda>b. b),
     onAfterStop = (\<lambda>b. b)\<rparr>"

text \<open>
  \<open>event_base_new\<close> failed; a joinable \<open>std::thread\<close> was destroyed (\<open>std::terminate\<close>); a thread
  was joined twice (\<open>std::system_error\<close>); a null or dangling pointer was used.
\<close>

datatype loop_error = CREATE_EVENT_FAIL | Terminate | InvalidJoin | BadPointer

text \<open>
  What can go wrong when an object with a loop is destroyed: an error of the loop, or an event or
  a listener is freed after the event base it belongs to.
\<close>

datatype destroy_error = LoopError loop_error | FreedBase

section \<open>Operations\<close>

text \<open>
  The constructor of the object at \<open>a\<close>, with the result of \<open>event_base_new\<close>. When it throws,
  the object does not come to life, but its registration stays.
\<close>

definition Loop_new :: "addr \<Rightarrow> 'b option \<Rightarrow> 'b loops \<Rightarrow> loop_error option \<times> 'b loops" where
  "Loop_new a base w =
     (let w1 = w\<lparr>sIdGenerater := sIdGenerater w + 1\<rparr>;
          i = sIdGenerater w1;
          w2 = w1\<lparr>sLoops := smap_assign i a (sLoops w1)\<rparr>
      in case base of
           None \<Rightarrow> (Some CREATE_EVENT_FAIL, w2)
         | Some b \<Rightarrow> (None, w2\<lparr>objs := (objs w2)(a \<mapsto>
             \<lparr>l_id = i, l_base = Some b, l_thread = None, l_status = StatusInit\<rparr>)\<rparr>))"

definition Loop_stop ::
    "'b event_base_api \<Rightarrow> 'b loop_hooks \<Rightarrow> bool \<Rightarrow> addr \<Rightarrow> 'b loops \<Rightarrow> loop_error + 'b loops" where
  "Loop_stop api hk waiting a w =
     (case objs w a of
        None \<Rightarrow> Inl BadPointer
      | Some l \<Rightarrow>
          if StatusFinished = l_status l then Inr w
          else (case l_base l of
                  None \<Rightarrow> Inl BadPointer
                | Some b \<Rightarrow>
                    (let b1 = (if waiting then event_base_loopexit api b else event_base_loopbreak api b);
                         b2 = onAfterStop hk b1
                     in Inr (w\<lparr>objs := (objs w)(a \<mapsto> l\<lparr>l_base := Some b2\<rparr>)\<rparr>))))"

text \<open>
  \<open>std::thread::join\<close> of the loop's thread: the caller goes on when the thread has left its last
  \<open>_run\<close>; until then the result is \<open>None\<close>.
\<close>

definition Loop_join :: "tid \<Rightarrow> 'b loops \<Rightarrow> (loop_error + 'b loops) option" where
  "Loop_join t w =
     (if t \<notin> joinable w then Some (Inl InvalidJoin)
      else if calls w t \<noteq> [] then None
      else Some (Inr (w\<lparr>joinable := joinable w - {t}\<rparr>)))"

text \<open>
  While \<open>wait\<close> is in \<open>join\<close>, the other threads go on: \<open>during\<close> is what they do until the thread
  has ended.
\<close>

definition Loop_wait ::
    "('b loops \<Rightarrow> 'b loops) \<Rightarrow> addr \<Rightarrow> 'b loops \<Rightarrow> (loop_error + 'b loops) option" where
  "Loop_wait during a w =
     (case objs w a of
        None \<Rightarrow> Some (Inl BadPointer)
      | Some l \<Rightarrow>
          (case l_thread l of
             None \<Rightarrow> Some (Inr w)
           | Some t \<Rightarrow>
               if StatusFinished \<noteq> l_status l then Loop_join t (during w) else Some (Inr w)))"

text \<open>
  The end of \<open>~Loop\<close>: the \<open>std::thread\<close> is deleted, which ends the program when it is still
  joinable, the base is freed and the id is erased from the registry.
\<close>

definition Loop_unregister :: "addr \<Rightarrow> 'b loop \<Rightarrow> 'b loops \<Rightarrow> 'b loops" where
  "Loop_unregister a l w =
     w\<lparr>sLoops := smap_erase (l_id l) (sLoops w), objs := (objs w)(a := None)\<rparr>"

definition Loop_destroy_end :: "addr \<Rightarrow> 'b loops \<Rightarrow> loop_error + 'b loops" where
  "Loop_destroy_end a w =
     (case objs w a of
        None \<Rightarrow> Inl BadPointer
      | Some l \<Rightarrow>
          (case l_thread l of
             None \<Rightarrow> Inr (Loop_unregister a l w)
           | Some t \<Rightarrow>
               if t \<in> joinable w then Inl Terminate else Inr (Loop_unregister a l w)))"

text \<open>
  \<open>~Loop\<close>. Between \<open>stop\<close> and the test of the status in \<open>wait\<close> the other threads go on too:
  \<open>racing\<close> is what they do there.
\<close>

definition Loop_destroy ::
    "'b event_base_api \<Rightarrow> 'b loop_hooks \<Rightarrow> ('b loops \<Rightarrow> 'b loops) \<Rightarrow> ('b loops \<Rightarrow> 'b loops) \<Rightarrow> addr
      \<Rightarrow> 'b loops \<Rightarrow> (loop_error + 'b loops) option" where
  "Loop_destroy api hk racing during a w =
     (case objs w a of
        None \<Rightarrow> Some (Inl BadPointer)
      | Some l \<Rightarrow>
          (case l_thread l of
             None \<Rightarrow> Some (Loop_destroy_end a w)
           | Some t \<Rightarrow>
               (case Loop_stop api hk True a w of
                  Inl err \<Rightarrow> Some (Inl err)
                | Inr w1 \<Rightarrow>
                    (case Loop_wait during a (racing w1) of
                       None \<Rightarrow> None
                     | Some (Inl err) \<Rightarrow> Some (Inl err)
                     | Some (Inr w2) \<Rightarrow> Some (Loop_destroy_end a w2)))))"

text \<open>
  \<open>start\<close>, called by thread \<open>t\<close>: a new thread begins in \<open>_run\<close>, or the calling thread calls it.
\<close>

definition Loop_start ::
    "'b loop_hooks \<Rightarrow> bool \<Rightarrow> tid \<Rightarrow> addr \<Rightarrow> 'b loops \<Rightarrow> loop_error + bool \<times> 'b loops" where
  "Loop_start hk newThread t a w =
     (case objs w a of
        None \<Rightarrow> Inl BadPointer
      | Some l \<Rightarrow>
          if l_status l \<noteq> StatusInit then Inr (False, w)
          else if \<not> onBeforeStart hk then Inr (False, w)
          else if newThread
          then (let n = next_tid w
                in Inr (True, w\<lparr>next_tid := n + 1, calls := (calls w)(n := [(a, SetRunning)]),
                     joinable := insert n (joinable w), objs := (objs w)(a \<mapsto> l\<lparr>l_thread := Some n\<rparr>)\<rparr>))
          else Inr (True, w\<lparr>calls := (calls w)(t := (a, SetRunning) # calls w t)\<rparr>))"

definition set_loop :: "addr \<Rightarrow> 'b loop \<Rightarrow> 'b loops \<Rightarrow> 'b loops" where
  "set_loop a l w = w\<lparr>objs := (objs w)(a \<mapsto> l)\<rparr>"

definition map_base :: "('b \<Rightarrow> 'b) \<Rightarrow> 'b loop \<Rightarrow> 'b loop" where
  "map_base f l = l\<lparr>l_base := map_option f (l_base l)\<rparr>"

text \<open>Events are added to or removed from the event base of the loop at \<open>a\<close>.\<close>

definition change_base :: "('b \<Rightarrow> 'b) \<Rightarrow> addr \<Rightarrow> 'b loops \<Rightarrow> 'b loops" where
  "change_base f a w = (case objs w a of None \<Rightarrow> w | Some l \<Rightarrow> set_loop a (map_base f l) w)"

text \<open>
  The next statement of the \<open>_run\<close> that thread \<open>t\<close> is in; \<open>None\<close> when it is in none, or when
  \<open>event_base_loop\<close> does not return.
\<close>

definition Loop_run_step ::
    "'b event_base_api \<Rightarrow> 'b loop_hooks \<Rightarrow> tid \<Rightarrow> 'b loops \<Rightarrow> (loop_error + 'b loops) option" where
  "Loop_run_step api hk t w =
     (case calls w t of
        [] \<Rightarrow> None
      | (a, pc) # rest \<Rightarrow>
          (case objs w a of
             None \<Rightarrow> Some (Inl BadPointer)
           | Some l \<Rightarrow>
               (let goto = (\<lambda>pc w. Some (Inr (w\<lparr>calls := (calls w)(t := (a, pc) # rest)\<rparr>)))
                in case pc of
                     SetRunning \<Rightarrow> goto SetCur (set_loop a (l\<lparr>l_status := StatusRunning\<rparr>) w)
                   | SetCur \<Rightarrow> goto BeforeLoop (w\<lparr>curThreadLoop := (curThreadLoop w)(t := Some a)\<rparr>)
                   | BeforeLoop \<Rightarrow> goto EnterLoop (set_loop a (map_base (onBeforeLoop hk) l) w)
                   | EnterLoop \<Rightarrow> goto InLoop (set_loop a (map_base (event_base_loop_enter api) l) w)
                   | InLoop \<Rightarrow>
                       (case l_base l of
                          None \<Rightarrow> Some (Inl BadPointer)
                        | Some b \<Rightarrow> if event_base_loop_returns api b then goto AfterLoop w else None)
                   | AfterLoop \<Rightarrow> goto ClearCur (set_loop a (map_base (onAfterLoop hk) l) w)
                   | ClearCur \<Rightarrow> goto SetFinished (w\<lparr>curThreadLoop := (curThreadLoop w)(t := None)\<rparr>)
                   | SetFinished \<Rightarrow>
                       Some (Inr ((set_loop a (l\<lparr>l_status := StatusFinished\<rparr>) w)
                         \<lparr>calls := (calls w)(t := rest)\<rparr>)))))"

definition Loop_curLoop :: "tid \<Rightarrow> 'b loops \<Rightarrow> addr option" where
  "Loop_curLoop t w = curThreadLoop w t"

definition smap_find :: "('k \<rightharpoonup> 'v) \<Rightarrow> 'k \<Rightarrow> 'v option" where
  "smap_find m k = m k"

definition Loop_get :: "u32 \<Rightarrow> 'b loops \<Rightarrow> addr option" where
  "Loop_get i w = smap_find (sLoops w) i"

section \<open>The registry\<close>

interpretation registry: assign_table smap_find smap_erase "\<lambda>m. True" smap_assign
  by unfold_locales (auto simp: smap_find_def smap_erase_def smap_assign_def)

section \<open>Runs of a program\<close>

text \<open>The loops of a program that has not made any; thread 0 is the main thread.\<close>

definition loops_init :: "'b loops" where
  "loops_init = \<lparr>sIdGenerater = 0, sLoops = (\<lambda>i. None), objs = (\<lambda>a. None),
     curThreadLoop = (\<lambda>t. None), calls = (\<lambda>t. []), joinable = {}, next_tid = 1\<rparr>"

definition no_call :: "addr \<Rightarrow> 'b loops \<Rightarrow> bool" where
  "no_call a w \<longleftrightarrow> (\<forall>t pc. (a, pc) \<notin> set (calls w t))"

text \<open>
  The interleavings of a program that keeps to the rules the class does not enforce: a loop is
  started when no start of it is under way, by a thread that runs no loop when it runs in that
  thread, a loop that runs without a thread of its own is not destroyed, no construction
  fails, and the ids do not wrap around. The blocking methods are their parts: \<open>wait\<close> ends with
  the step \<open>join\<close>, and \<open>~Loop\<close> is \<open>stop\<close>, \<open>join\<close> and \<open>destroy\<close>. Callbacks change the event bases
  at any time.
\<close>

inductive loop_step :: "'b event_base_api \<Rightarrow> 'b loop_hooks \<Rightarrow> 'b loops \<Rightarrow> 'b loops \<Rightarrow> bool"
  for api :: "'b event_base_api" and hk :: "'b loop_hooks" where
  create: "objs w a = None \<Longrightarrow> sIdGenerater w \<noteq> - 1 \<Longrightarrow> loop_step api hk w (snd (Loop_new a (Some b) w))"
| destroy: "objs w a = Some l \<Longrightarrow> l_thread l \<noteq> None \<or> no_call a w \<Longrightarrow>
    Loop_destroy_end a w = Inr w1 \<Longrightarrow> loop_step api hk w w1"
| start: "no_call a w \<Longrightarrow> newThread \<or> calls w t = [] \<and> t < next_tid w \<Longrightarrow>
    Loop_start hk newThread t a w = Inr (r, w1) \<Longrightarrow> loop_step api hk w w1"
| stop: "Loop_stop api hk waiting a w = Inr w1 \<Longrightarrow> loop_step api hk w w1"
| join: "Loop_join t w = Some (Inr w1) \<Longrightarrow> loop_step api hk w w1"
| run: "Loop_run_step api hk t w = Some (Inr w1) \<Longrightarrow> loop_step api hk w w1"
| events: "objs w a = Some l \<Longrightarrow> loop_step api hk w (set_loop a (map_base f l) w)"

inductive loop_reach :: "'b event_base_api \<Rightarrow> 'b loop_hooks \<Rightarrow> 'b loops \<Rightarrow> bool"
  for api :: "'b event_base_api" and hk :: "'b loop_hooks" where
  init: "loop_reach api hk loops_init"
| step: "loop_reach api hk w \<Longrightarrow> loop_step api hk w w1 \<Longrightarrow> loop_reach api hk w1"

section \<open>The invariant\<close>

text \<open>Between its second and its last statement but one, \<open>_run\<close> is the current loop.\<close>

definition current_pc :: "run_pc \<Rightarrow> bool" where
  "current_pc pc \<longleftrightarrow> pc \<noteq> SetRunning \<and> pc \<noteq> SetCur \<and> pc \<noteq> SetFinished"

definition thread_ok :: "'b loops \<Rightarrow> tid \<Rightarrow> bool" where
  "thread_ok w t \<longleftrightarrow>
     (case calls w t of
        [] \<Rightarrow> curThreadLoop w t = None
      | (a, pc) # rest \<Rightarrow> rest = [] \<and> t < next_tid w
          \<and> (\<exists>l. objs w a = Some l
              \<and> (l_thread l = None \<or> l_thread l = Some t \<and> t \<in> joinable w)
              \<and> l_status l = (if pc = SetRunning then StatusInit else StatusRunning))
          \<and> curThreadLoop w t = (if current_pc pc then Some a else None))"

definition obj_ok :: "'b loops \<Rightarrow> addr \<Rightarrow> 'b loop \<Rightarrow> bool" where
  "obj_ok w a l \<longleftrightarrow>
     sLoops w (l_id l) = Some a \<and> l_id l \<le> sIdGenerater w
   \<and> l_status l \<in> {StatusInit, StatusRunning, StatusFinished}
   \<and> (l_status l = StatusRunning \<longrightarrow> (\<exists>t pc. calls w t = [(a, pc)]))
   \<and> (\<forall>t. l_thread l = Some t \<longrightarrow> l_status l = StatusInit \<longrightarrow> calls w t = [(a, SetRunning)])
   \<and> (\<forall>t t' pc pc'. calls w t = [(a, pc)] \<longrightarrow> calls w t' = [(a, pc')] \<longrightarrow> t = t')"

definition loops_ok :: "'b loops \<Rightarrow> bool" where
  "loops_ok w \<longleftrightarrow> (\<forall>t. thread_ok w t) \<and> (\<forall>a l. objs w a = Some l \<longrightarrow> obj_ok w a l)
   \<and> (\<forall>i a. sLoops w i = Some a \<longrightarrow> (\<exists>l. objs w a = Some l \<and> l_id l = i))"

lemmas statuses = StatusInit_def StatusRunning_def StatusFinished_def

lemma loops_okI:
  assumes "\<And>t. thread_ok w t" and "\<And>a l. objs w a = Some l \<Longrightarrow> obj_ok w a l"
    and "\<And>i a. sLoops w i = Some a \<Longrightarrow> \<exists>l. objs w a = Some l \<and> l_id l = i"
  shows "loops_ok w"
  using assms by (simp add: loops_ok_def)

lemma loops_ok_init: "loops_ok loops_init"
  by (simp add: loops_ok_def loops_init_def thread_ok_def)

text \<open>A thread is in no \<open>_run\<close> or in one.\<close>

lemma thread_okE:
  assumes "thread_ok w t"
  obtains (idle) "calls w t = []" "curThreadLoop w t = None"
  | (busy) a pc l where "calls w t = [(a, pc)]" "t < next_tid w" "objs w a = Some l"
      "l_thread l = None \<or> l_thread l = Some t \<and> t \<in> joinable w"
      "l_status l = (if pc = SetRunning then StatusInit else StatusRunning)"
      "curThreadLoop w t = (if current_pc pc then Some a else None)"
  using assms by (auto simp: thread_ok_def split: list.splits prod.splits)

lemma no_callD: "no_call a w \<Longrightarrow> calls w t \<noteq> [(a, pc)]"
  by (metis list.set_intros(1) no_call_def)

lemma thread_busyI:
  assumes "calls w t = [(a, pc)]" and "t < next_tid w" and "objs w a = Some l"
    and "l_thread l = None \<or> l_thread l = Some t \<and> t \<in> joinable w"
    and "l_status l = (if pc = SetRunning then StatusInit else StatusRunning)"
    and "curThreadLoop w t = (if current_pc pc then Some a else None)"
  shows "thread_ok w t"
  using assms by (auto simp: thread_ok_def)

lemma thread_idleI: "calls w t = [] \<Longrightarrow> curThreadLoop w t = None \<Longrightarrow> thread_ok w t"
  by (simp add: thread_ok_def)

text \<open>A thread that was left alone is as it was.\<close>

lemma thread_ok_other:
  assumes "thread_ok w t" and "calls w1 t = calls w t" and "curThreadLoop w1 t = curThreadLoop w t"
    and "next_tid w \<le> next_tid w1" and "calls w t \<noteq> [] \<Longrightarrow> t \<in> joinable w \<Longrightarrow> t \<in> joinable w1"
    and "\<And>a pc l. calls w t = [(a, pc)] \<Longrightarrow> objs w a = Some l \<Longrightarrow>
      \<exists>l1. objs w1 a = Some l1 \<and> l_thread l1 = l_thread l \<and> l_status l1 = l_status l"
  shows "thread_ok w1 t"
  using assms(1)
proof (cases rule: thread_okE)
  case idle
  with assms(2,3) show ?thesis by (simp add: thread_idleI)
next
  case (busy a pc l)
  then obtain l1 where "objs w1 a = Some l1" "l_thread l1 = l_thread l" "l_status l1 = l_status l"
    using assms(6) by blast
  with busy assms(2-5) show ?thesis by (intro thread_busyI [of w1 t a pc l1]) auto
qed

lemma obj_ok_other:
  assumes "obj_ok w a l" and "sLoops w1 (l_id l) = sLoops w (l_id l)"
    and "sIdGenerater w \<le> sIdGenerater w1"
    and "\<And>t pc. calls w1 t = [(a, pc)] \<longleftrightarrow> calls w t = [(a, pc)]"
    and "l_id l1 = l_id l" and "l_status l1 = l_status l" and "l_thread l1 = l_thread l"
  shows "obj_ok w1 a l1"
  using assms unfolding obj_ok_def by simp (meson order_trans)

lemma loops_okD:
  assumes "loops_ok w"
  shows "thread_ok w t" and "objs w a = Some l \<Longrightarrow> obj_ok w a l"
    and "sLoops w i = Some a \<Longrightarrow> \<exists>l. objs w a = Some l \<and> l_id l = i"
  using assms by (simp_all add: loops_ok_def)

text \<open>Changing only the bases of loops, or who has been joined, keeps the invariant.\<close>

definition shape :: "'b loop \<Rightarrow> u32 \<times> int \<times> tid option" where
  "shape l = (l_id l, l_status l, l_thread l)"

lemma loops_ok_shape:
  assumes ok: "loops_ok w" and same: "sLoops w1 = sLoops w" "sIdGenerater w1 = sIdGenerater w"
    "calls w1 = calls w" "curThreadLoop w1 = curThreadLoop w" "next_tid w1 = next_tid w"
    and join: "\<And>t. calls w t \<noteq> [] \<Longrightarrow> t \<in> joinable w \<Longrightarrow> t \<in> joinable w1"
    and shape: "\<And>a. map_option shape (objs w1 a) = map_option shape (objs w a)"
  shows "loops_ok w1"
proof (rule loops_okI)
  have as_before: "\<exists>l. objs w a = Some l \<and> shape l1 = shape l" if l1: "objs w1 a = Some l1" for a l1
    using shape [of a] l1 by (cases "objs w a") auto
  have as_after: "\<exists>l1. objs w1 a = Some l1 \<and> shape l1 = shape l" if l: "objs w a = Some l" for a l
    using shape [of a] l by (cases "objs w1 a") auto
  show "thread_ok w1 t" for t
  proof (rule thread_ok_other [OF loops_okD(1) [OF ok]])
    show "\<exists>l1. objs w1 a = Some l1 \<and> l_thread l1 = l_thread l \<and> l_status l1 = l_status l"
      if "objs w a = Some l" for a l
      using as_after [OF that] by (auto simp: shape_def)
  qed (simp_all add: same join)
  show "obj_ok w1 a l1" if l1: "objs w1 a = Some l1" for a l1
  proof -
    obtain l where l: "objs w a = Some l" "shape l1 = shape l" using as_before [OF l1] by blast
    show ?thesis
      by (rule obj_ok_other [OF loops_okD(2) [OF ok l(1)]]) (use l(2) in \<open>simp_all add: same shape_def\<close>)
  qed
  show "\<exists>l. objs w1 a = Some l \<and> l_id l = i" if "sLoops w1 i = Some a" for i a
    using loops_okD(3) [OF ok, of i a] that as_after by (fastforce simp: same shape_def)
qed

lemma loops_ok_base:
  "loops_ok w \<Longrightarrow> objs w a = Some l \<Longrightarrow> loops_ok (w\<lparr>objs := (objs w)(a \<mapsto> l\<lparr>l_base := b\<rparr>)\<rparr>)"
  by (rule loops_ok_shape [of w]) (auto simp: shape_def)

lemma loops_ok_stop: "loops_ok w \<Longrightarrow> Loop_stop api hk waiting a w = Inr w1 \<Longrightarrow> loops_ok w1"
  by (auto simp: Loop_stop_def Let_def intro: loops_ok_base split: option.splits if_splits)

lemma loops_ok_join: "loops_ok w \<Longrightarrow> Loop_join t w = Some (Inr w1) \<Longrightarrow> loops_ok w1"
  by (rule loops_ok_shape [of w]) (auto simp: Loop_join_def split: if_splits)

lemma no_frame:
  assumes "loops_ok w" and "objs w a = None"
  shows "calls w t \<noteq> [(a, pc)]"
proof
  assume call: "calls w t = [(a, pc)]"
  have "thread_ok w t" using assms(1) by (rule loops_okD)
  then show False by (cases rule: thread_okE) (use call assms(2) in auto)
qed

lemma loops_ok_new:
  assumes ok: "loops_ok w" and fresh: "objs w a = None" and gen: "sIdGenerater w \<noteq> - 1"
  shows "loops_ok (snd (Loop_new a (Some b) w))" (is "loops_ok ?w")
proof -
  let ?i = "sIdGenerater w + 1"
  have w: "?w = w\<lparr>sIdGenerater := ?i, sLoops := (sLoops w)(?i \<mapsto> a), objs := (objs w)(a \<mapsto>
      \<lparr>l_id = ?i, l_base = Some b, l_thread = None, l_status = StatusInit\<rparr>)\<rparr>"
    by (simp add: Loop_new_def smap_assign_def Let_def)
  have less: "sIdGenerater w < ?i"
    using gen word_le_plus_one_iff [of "sIdGenerater w"] by (simp add: less_le)
  have "thread_ok ?w t" for t
    by (rule thread_ok_other [OF loops_okD(1) [OF ok]]) (use no_frame [OF ok fresh] in \<open>auto simp: w\<close>)
  moreover have "obj_ok ?w a1 l1" if l1: "objs ?w a1 = Some l1" for a1 l1
  proof (cases "a1 = a")
    case True
    with l1 no_frame [OF ok fresh] show ?thesis by (auto simp: w obj_ok_def statuses)
  next
    case False
    with l1 have l: "objs w a1 = Some l1" by (simp add: w)
    have o: "obj_ok w a1 l1" using ok l by (rule loops_okD)
    then have "l_id l1 \<noteq> ?i" using less by (auto simp: obj_ok_def)
    with less show ?thesis by (intro obj_ok_other [OF o]) (auto simp: w)
  qed
  moreover have "\<exists>l. objs ?w a1 = Some l \<and> l_id l = i" if reg: "sLoops ?w i = Some a1" for i a1
  proof (cases "i = ?i")
    case True
    with reg have "a1 = a" by (simp add: w)
    with True show ?thesis by (simp add: w)
  next
    case False
    with reg have "sLoops w i = Some a1" by (simp add: w)
    from loops_okD(3) [OF ok this] fresh show ?thesis by (auto simp: w)
  qed
  ultimately show ?thesis by (rule loops_okI)
qed

text \<open>A step that changes one loop and one thread, which is in no \<open>_run\<close> of another loop.\<close>

lemma loops_ok_local:
  assumes ok: "loops_ok w" and l: "objs w a = Some l" and objs1: "objs w1 = (objs w)(a \<mapsto> l1)"
    and l1: "l_id l1 = l_id l" and same: "sLoops w1 = sLoops w" "sIdGenerater w1 = sIdGenerater w"
    and next1: "next_tid w \<le> next_tid w1" and join: "joinable w \<subseteq> joinable w1"
    and other: "\<And>t. t \<noteq> n \<Longrightarrow> calls w1 t = calls w t \<and> curThreadLoop w1 t = curThreadLoop w t"
    and only: "\<And>t pc. t \<noteq> n \<Longrightarrow> calls w t \<noteq> [(a, pc)]"
    and here: "\<And>a1 pc. a1 \<noteq> a \<Longrightarrow> calls w n \<noteq> [(a1, pc)] \<and> calls w1 n \<noteq> [(a1, pc)]"
    and thread: "thread_ok w1 n" and obj: "obj_ok w1 a l1"
  shows "loops_ok w1"
proof (rule loops_okI)
  show "thread_ok w1 t" for t
  proof (cases "t = n")
    case False
    then show ?thesis
      using other [OF False] only [OF False] next1 join
      by (intro thread_ok_other [OF loops_okD(1) [OF ok]]) (auto simp: objs1)
  qed (use thread in simp)
  show "obj_ok w1 a2 l2" if l2: "objs w1 a2 = Some l2" for a2 l2
  proof (cases "a2 = a")
    case True
    with l2 obj show ?thesis by (simp add: objs1)
  next
    case False
    then have "calls w1 t = [(a2, pc)] \<longleftrightarrow> calls w t = [(a2, pc)]" for t pc
      using other [of t] here [of a2 pc] by (cases "t = n") simp_all
    with False l2 show ?thesis
      by (intro obj_ok_other [OF loops_okD(2) [OF ok]]) (auto simp: objs1 same)
  qed
  show "\<exists>l. objs w1 a2 = Some l \<and> l_id l = i" if "sLoops w1 i = Some a2" for i a2
    using loops_okD(3) [OF ok, of i a2] that l l1 by (auto simp: same objs1)
qed

lemma loops_ok_start:
  assumes ok: "loops_ok w" and none: "no_call a w" and t: "newThread \<or> calls w t = [] \<and> t < next_tid w"
    and start: "Loop_start hk newThread t a w = Inr (r, w1)"
  shows "loops_ok w1"
proof (cases "w1 = w")
  case True
  with ok show ?thesis by simp
next
  case False
  with start obtain l where l: "objs w a = Some l" "l_status l = StatusInit"
    by (auto simp: Loop_start_def split: option.splits if_splits)
  define n where "n = (if newThread then next_tid w else t)"
  define l1 where "l1 = (if newThread then l\<lparr>l_thread := Some n\<rparr> else l)"
  have idle: "calls w n = []" "curThreadLoop w n = None"
  proof -
    have "calls w n = []"
      using t loops_okD(1) [OF ok, of n] by (auto simp: n_def elim!: thread_okE)
    then show "calls w n = []" "curThreadLoop w n = None"
      using loops_okD(1) [OF ok, of n] by (auto elim: thread_okE)
  qed
  have thread: "l_thread l = None"
    using loops_okD(2) [OF ok l(1)] l(2) no_callD [OF none]
    by (cases "l_thread l") (auto simp: obj_ok_def)
  have calls1: "calls w1 = (calls w)(n := [(a, SetRunning)])"
    and objs1: "objs w1 = (objs w)(a \<mapsto> l1)"
    and same: "sLoops w1 = sLoops w" "sIdGenerater w1 = sIdGenerater w" "curThreadLoop w1 = curThreadLoop w"
    and next1: "next_tid w \<le> next_tid w1" "n < next_tid w1"
    and join1: "joinable w \<subseteq> joinable w1" "newThread \<Longrightarrow> n \<in> joinable w1"
    using start False l t
    by (auto simp: Loop_start_def n_def l1_def Let_def fun_upd_idem split: if_splits)
  show ?thesis
  proof (rule loops_ok_local [OF ok l(1) objs1])
    show "thread_ok w1 n"
      using next1 l(2) thread idle
      by (intro thread_busyI [of w1 n a SetRunning l1])
        (auto simp: calls1 objs1 same l1_def current_pc_def join1)
    show "obj_ok w1 a l1"
      using loops_okD(2) [OF ok l(1)] none l(2) thread
      by (auto simp: obj_ok_def same calls1 l1_def statuses no_callD split: if_splits)
  qed (use none idle join1 next1 in \<open>simp_all add: calls1 same l1_def no_callD\<close>)
qed

text \<open>A step of \<open>_run\<close> goes to the next statement, or leaves \<open>_run\<close>.\<close>

fun next_pc :: "run_pc \<Rightarrow> run_pc" where
  "next_pc SetRunning = SetCur"
| "next_pc SetCur = BeforeLoop"
| "next_pc BeforeLoop = EnterLoop"
| "next_pc EnterLoop = InLoop"
| "next_pc InLoop = AfterLoop"
| "next_pc AfterLoop = ClearCur"
| "next_pc ClearCur = SetFinished"
| "next_pc SetFinished = SetFinished"

lemma next_pc_not_first [simp]: "next_pc pc \<noteq> SetRunning"
  by (cases pc) simp_all

definition status_after :: "run_pc \<Rightarrow> int \<Rightarrow> int" where
  "status_after pc st =
     (if pc = SetRunning then StatusRunning else if pc = SetFinished then StatusFinished else st)"

lemma run_stepE:
  assumes "Loop_run_step api hk t w = Some (Inr w1)" and "calls w t = (a, pc) # rest"
    and "objs w a = Some l"
  obtains l1 where "objs w1 = (objs w)(a \<mapsto> l1)" "l_id l1 = l_id l" "l_thread l1 = l_thread l"
    "l_status l1 = status_after pc (l_status l)"
    "calls w1 = (calls w)(t := if pc = SetFinished then rest else (a, next_pc pc) # rest)"
    "curThreadLoop w1 = (curThreadLoop w)(t :=
      if pc = SetCur then Some a else if pc = ClearCur then None else curThreadLoop w t)"
    "sLoops w1 = sLoops w" "sIdGenerater w1 = sIdGenerater w" "next_tid w1 = next_tid w"
    "joinable w1 = joinable w"
  using assms
  by (cases pc; simp add: Loop_run_step_def set_loop_def map_base_def status_after_def
      fun_upd_idem split: option.splits if_splits)
    (fastforce simp: fun_upd_idem)+

lemma loops_ok_run:
  assumes ok: "loops_ok w" and run: "Loop_run_step api hk t w = Some (Inr w1)"
  shows "loops_ok w1"
proof -
  have "thread_ok w t" using ok by (rule loops_okD)
  then show ?thesis
  proof (cases rule: thread_okE)
    case idle
    with run show ?thesis by (simp add: Loop_run_step_def)
  next
    case (busy a pc l)
    obtain l1 where w1: "objs w1 = (objs w)(a \<mapsto> l1)" "l_id l1 = l_id l" "l_thread l1 = l_thread l"
      "l_status l1 = status_after pc (l_status l)"
      "calls w1 = (calls w)(t := if pc = SetFinished then [] else [(a, next_pc pc)])"
      "curThreadLoop w1 = (curThreadLoop w)(t :=
        if pc = SetCur then Some a else if pc = ClearCur then None else curThreadLoop w t)"
      "sLoops w1 = sLoops w" "sIdGenerater w1 = sIdGenerater w" "next_tid w1 = next_tid w"
      "joinable w1 = joinable w"
      using run busy(1,3) by (rule run_stepE)
    have o: "obj_ok w a l" using ok busy(3) by (rule loops_okD)
    have only: "t1 = t" if "calls w t1 = [(a, pc1)]" for t1 pc1
      using o busy(1) that by (auto simp: obj_ok_def)
    show ?thesis
    proof (rule loops_ok_local [OF ok busy(3) w1(1)])
      show "thread_ok w1 t"
      proof (cases "pc = SetFinished")
        case True
        with busy(6) show ?thesis by (intro thread_idleI) (simp_all add: w1 current_pc_def)
      next
        case False
        with busy show ?thesis
          by (intro thread_busyI [of w1 t a "next_pc pc" l1])
            (cases pc; simp add: w1 status_after_def current_pc_def)+
      qed
      show "obj_ok w1 a l1"
      proof -
        have "l_status l1 = (if pc = SetFinished then StatusFinished else StatusRunning)"
          using busy(5) by (simp add: w1 status_after_def)
        then show ?thesis using o only by (auto simp: obj_ok_def w1 statuses split: if_splits)
      qed
      show "calls w t1 \<noteq> [(a, pc1)]" if "t1 \<noteq> t" for t1 pc1 using only that by blast
    qed (simp_all add: w1 busy(1))
  qed
qed

lemma loops_ok_unregister:
  assumes ok: "loops_ok w" and l: "objs w a = Some l" "l_id l = l_id l0"
    and idle: "\<And>t pc. calls w t \<noteq> [(a, pc)]"
  shows "loops_ok (Loop_unregister a l0 w)" (is "loops_ok ?w")
proof (rule loops_okI)
  have reg: "sLoops w (l_id l) = Some a" using loops_okD(2) [OF ok l(1)] by (simp add: obj_ok_def)
  show "thread_ok ?w t" for t
    by (rule thread_ok_other [OF loops_okD(1) [OF ok]])
      (use idle in \<open>auto simp: Loop_unregister_def\<close>)
  show "obj_ok ?w a2 l2" if l2: "objs ?w a2 = Some l2" for a2 l2
  proof -
    have a2: "a2 \<noteq> a" "objs w a2 = Some l2"
      using l2 by (auto simp: Loop_unregister_def split: if_splits)
    note o = loops_okD(2) [OF ok a2(2)]
    then have "l_id l2 \<noteq> l_id l0" using reg a2(1) l(2) by (auto simp: obj_ok_def)
    then show ?thesis
      by (intro obj_ok_other [OF o]) (auto simp: Loop_unregister_def smap_erase_def)
  qed
  show "\<exists>l. objs ?w a2 = Some l \<and> l_id l = i" if "sLoops ?w i = Some a2" for i a2
    using loops_okD(3) [OF ok, of i a2] that l
    by (auto simp: Loop_unregister_def smap_erase_def split: if_splits)
qed

lemma loops_ok_destroy:
  assumes ok: "loops_ok w" and l: "objs w a = Some l" and t: "l_thread l \<noteq> None \<or> no_call a w"
    and destroy: "Loop_destroy_end a w = Inr w1"
  shows "loops_ok w1"
proof -
  have "calls w t \<noteq> [(a, pc)]" for t pc
  proof
    assume call: "calls w t = [(a, pc)]"
    have "thread_ok w t" using ok by (rule loops_okD)
    then show False
      by (cases rule: thread_okE)
        (use call l t destroy in \<open>auto simp: no_callD Loop_destroy_end_def\<close>)
  qed
  moreover have "w1 = Loop_unregister a l w"
    using destroy l by (auto simp: Loop_destroy_end_def split: option.splits if_splits)
  ultimately show ?thesis using loops_ok_unregister [OF ok l refl] by blast
qed

lemma loop_step_ok: "loop_step api hk w w1 \<Longrightarrow> loops_ok w \<Longrightarrow> loops_ok w1"
proof (induction rule: loop_step.induct)
  case (create w a b)
  then show ?case by (intro loops_ok_new)
next
  case (destroy w a l w1)
  from destroy.prems destroy.hyps show ?case by (rule loops_ok_destroy)
next
  case (start a w newThread t r w1)
  from start.prems start.hyps show ?case by (rule loops_ok_start)
next
  case (stop waiting a w w1)
  from stop.prems stop.hyps show ?case by (rule loops_ok_stop)
next
  case (join t w w1)
  from join.prems join.hyps show ?case by (rule loops_ok_join)
next
  case (run t w w1)
  from run.prems run.hyps show ?case by (rule loops_ok_run)
next
  case (events w a l f)
  from loops_ok_base [OF events.prems events.hyps] show ?case
    by (simp add: set_loop_def map_base_def)
qed

lemma loop_reach_ok: "loop_reach api hk w \<Longrightarrow> loops_ok w"
  by (induction rule: loop_reach.induct) (auto simp: loops_ok_init dest: loop_step_ok)

section \<open>Concrete programs\<close>

text \<open>A thread runs on for at most \<open>n\<close> statements, as far as it can.\<close>

fun Loop_run_steps ::
    "'b event_base_api \<Rightarrow> 'b loop_hooks \<Rightarrow> tid \<Rightarrow> nat \<Rightarrow> 'b loops \<Rightarrow> 'b loops" where
  "Loop_run_steps api hk t 0 w = w"
| "Loop_run_steps api hk t (Suc n) w =
     (case Loop_run_step api hk t w of
        Some (Inr w1) \<Rightarrow> Loop_run_steps api hk t n w1
      | _ \<Rightarrow> w)"

definition busy_base :: flag_base where
  "busy_base = \<lparr>fb_exit = False, fb_break = False, fb_events = 1\<rparr>"

text \<open>The main thread makes a loop at address 7 and starts it in a thread of its own.\<close>

definition one_loop :: "flag_base loops" where
  "one_loop = snd (Loop_new 7 (Some busy_base) loops_init)"

definition one_started :: "flag_base loops" where
  "one_started = (case Loop_start Loop_hooks True 0 7 one_loop of Inr (r, w) \<Rightarrow> w | Inl err \<Rightarrow> one_loop)"

lemmas loop_eval = one_started_def one_loop_def loops_init_def Loop_new_def Loop_start_def
  Loop_run_step_def Loop_hooks_def busy_base_def flag_api_def smap_assign_def set_loop_def
  map_base_def statuses Let_def

lemma one_loop_reach: "loop_reach flag_api Loop_hooks one_loop"
  unfolding one_loop_def
  by (rule loop_reach.step [OF loop_reach.init]) (rule loop_step.create; simp add: loops_init_def)

lemma one_started_reach: "loop_reach flag_api Loop_hooks one_started"
proof (rule loop_reach.step [OF one_loop_reach], rule loop_step.start)
  show "no_call 7 one_loop" by (simp add: no_call_def loop_eval)
  show "True \<or> calls one_loop 0 = [] \<and> 0 < next_tid one_loop" by simp
  show "Loop_start Loop_hooks True 0 7 one_loop = Inr (True, one_started)"
    by (simp add: loop_eval)
qed

lemma run_steps_reach: "loop_reach api hk w \<Longrightarrow> loop_reach api hk (Loop_run_steps api hk t n w)"
proof (induction n arbitrary: w)
  case 0
  then show ?case by simp
next
  case (Suc n)
  have "loop_reach api hk w1" if "Loop_run_step api hk t w = Some (Inr w1)" for w1
    using Suc.prems loop_step.run [OF that] by (rule loop_reach.step)
  with Suc show ?case by (simp split: option.split sum.split)
qed

section \<open>Properties\<close>

text \<open>C10: \<open>Loop::get\<close> is exact: in every state a disciplined program reaches, an id is found if
  and only if a living loop has it, and then it is that loop; so the ids of living loops are
  distinct, and a destroyed loop is not found any more.\<close>

theorem loop_get_exact:
  assumes "loop_reach api hk w"
  shows "Loop_get i w = Some a \<longleftrightarrow> (\<exists>l. objs w a = Some l \<and> l_id l = i)"
  using loop_reach_ok [OF assms]
  by (auto simp: Loop_get_def smap_find_def loops_ok_def obj_ok_def)

theorem loop_get_exact_witness:
  "Loop_get 1 one_started = Some 7 \<and> Loop_get 2 one_started = None"
proof -
  have only: "(\<exists>l. objs one_started a = Some l \<and> l_id l = i) \<longleftrightarrow> a = 7 \<and> i = 1" for a i
    by (auto simp: loop_eval)
  show ?thesis
    using loop_get_exact [OF one_started_reach, of 1 7] loop_get_exact [OF one_started_reach, of 2]
    by (simp add: only) (metis not_None_eq)
qed

text \<open>C11: The status of a loop tells where it is: running exactly when one thread is in its
  \<open>_run\<close> behind the first statement, initial or finished exactly when no thread has begun it or
  none is left in it; and \<open>curLoop\<close> of a thread is the loop whose \<open>_run\<close> it is in.\<close>

theorem loop_lifecycle:
  assumes "loop_reach api hk w" and "objs w a = Some l"
  shows "l_status l \<in> {StatusInit, StatusRunning, StatusFinished}
    \<and> (l_status l = StatusRunning \<longleftrightarrow> (\<exists>t pc. pc \<noteq> SetRunning \<and> calls w t = [(a, pc)]))
    \<and> (\<forall>t t' pc pc'. calls w t = [(a, pc)] \<longrightarrow> calls w t' = [(a, pc')] \<longrightarrow> t = t')
    \<and> (Loop_curLoop t w = Some a \<longleftrightarrow> (\<exists>pc. current_pc pc \<and> calls w t = [(a, pc)]))"
proof -
  have ok: "loops_ok w" using assms(1) by (rule loop_reach_ok)
  have o: "obj_ok w a l" using ok assms(2) by (rule loops_okD)
  have t: "thread_ok w t" for t using ok by (rule loops_okD)
  have frame: "l_status l = (if pc = SetRunning then StatusInit else StatusRunning)"
    if "calls w t = [(a, pc)]" for t pc
    by (rule thread_okE [OF t [of t]]) (use that assms(2) in auto)
  have "Loop_curLoop t w = Some a \<longleftrightarrow> (\<exists>pc. current_pc pc \<and> calls w t = [(a, pc)])"
    by (rule thread_okE [OF t [of t]]) (auto simp: Loop_curLoop_def)
  moreover have "\<exists>t pc. pc \<noteq> SetRunning \<and> calls w t = [(a, pc)]" if run: "l_status l = StatusRunning"
  proof -
    obtain t pc where call: "calls w t = [(a, pc)]" using o run by (auto simp: obj_ok_def)
    have "pc \<noteq> SetRunning" using frame [OF call] run by (auto simp: statuses)
    with call show ?thesis by blast
  qed
  moreover have "l_status l = StatusRunning" if "pc \<noteq> SetRunning" "calls w t = [(a, pc)]" for t pc
    using frame [OF that(2)] that(1) by simp
  moreover have "l_status l \<in> {StatusInit, StatusRunning, StatusFinished}"
    "\<forall>t t' pc pc'. calls w t = [(a, pc)] \<longrightarrow> calls w t' = [(a, pc')] \<longrightarrow> t = t'"
    using o unfolding obj_ok_def by blast+
  ultimately show ?thesis by blast
qed

theorem loop_lifecycle_witness:
  "let w = Loop_run_steps flag_api Loop_hooks 1 4 one_started in
    Loop_curLoop 1 w = Some 7 \<and> l_status (the (objs w 7)) = StatusRunning \<and> Loop_curLoop 0 w = None"
proof -
  let ?w = "Loop_run_steps flag_api Loop_hooks 1 4 one_started"
  have reach: "loop_reach flag_api Loop_hooks ?w" by (rule run_steps_reach [OF one_started_reach])
  have w: "calls ?w 1 = [(7, InLoop)]" "calls ?w 0 = []" "\<exists>l. objs ?w 7 = Some l"
    "curThreadLoop ?w 0 = None"
    by (simp_all add: eval_nat_numeral loop_eval)
  then obtain l where l: "objs ?w 7 = Some l" by blast
  from loop_lifecycle [OF reach l, of 1] w l show ?thesis
    by (auto simp: Let_def Loop_curLoop_def current_pc_def)
qed

text \<open>
  A derived class may change the event base in its destructor, before \<open>~Loop\<close> runs.
\<close>

lemma change_base_fields [simp]:
  "objs (change_base f a w) b = (if b = a then map_option (map_base f) (objs w a) else objs w b)"
  "calls (change_base f a w) = calls w" "joinable (change_base f a w) = joinable w"
  by (simp_all add: change_base_def set_loop_def split: option.split)

lemma map_base_fields [simp]:
  "l_base (map_base f l) = map_option f (l_base l)" "l_thread (map_base f l) = l_thread l"
  "l_status (map_base f l) = l_status l" "l_id (map_base f l) = l_id l"
  by (simp_all add: map_base_def)

text \<open>
  A thread that leaves \<open>_run\<close> within \<open>k\<close> statements whatever the others do: it is behind the event
  loop, or the event loop returns as soon as the thread is in it.
\<close>

fun steps_left :: "run_pc \<Rightarrow> nat" where
  "steps_left SetRunning = 8"
| "steps_left SetCur = 7"
| "steps_left BeforeLoop = 6"
| "steps_left EnterLoop = 5"
| "steps_left InLoop = 4"
| "steps_left AfterLoop = 3"
| "steps_left ClearCur = 2"
| "steps_left SetFinished = 1"

definition will_return :: "'b event_base_api \<Rightarrow> run_pc \<Rightarrow> 'b \<Rightarrow> bool" where
  "will_return api pc b \<longleftrightarrow>
     (4 < steps_left pc \<longrightarrow> event_base_loop_returns api (event_base_loop_enter api b))
   \<and> (pc = InLoop \<longrightarrow> event_base_loop_returns api b)"

definition leaving :: "'b event_base_api \<Rightarrow> addr \<Rightarrow> tid \<Rightarrow> u32 \<Rightarrow> nat \<Rightarrow> 'b loops \<Rightarrow> bool" where
  "leaving api a t i k w \<longleftrightarrow> t \<in> joinable w
     \<and> (\<exists>l b. objs w a = Some l \<and> l_id l = i \<and> l_thread l = Some t \<and> l_base l = Some b
         \<and> (if k = 0 then calls w t = [] \<and> l_status l = StatusFinished
            else \<exists>pc. calls w t = [(a, pc)] \<and> steps_left pc = k \<and> l_status l \<noteq> StatusFinished
              \<and> will_return api pc b))"

lemma steps_left_pos [simp]: "steps_left pc \<noteq> 0"
  by (cases pc) simp_all

lemma leaving_step:
  assumes "leaving api a t i (Suc k) w"
  shows "\<exists>w1. Loop_run_step api Loop_hooks t w = Some (Inr w1) \<and> leaving api a t i k w1"
proof -
  obtain l b pc where "t \<in> joinable w" "objs w a = Some l" "l_id l = i" "l_thread l = Some t"
    "l_base l = Some b" "calls w t = [(a, pc)]" "steps_left pc = Suc k" "l_status l \<noteq> StatusFinished"
    "will_return api pc b"
    using assms by (auto simp: leaving_def)
  then show ?thesis
    by (cases pc) (auto simp: leaving_def will_return_def Loop_run_step_def set_loop_def Loop_hooks_def
        statuses Let_def)
qed

lemma leaving_steps:
  "leaving api a t i k w \<Longrightarrow> leaving api a t i (k - n) (Loop_run_steps api Loop_hooks t n w)"
proof (induction n arbitrary: k w)
  case 0
  then show ?case by simp
next
  case (Suc n)
  show ?case
  proof (cases k)
    case 0
    with Suc.prems have "Loop_run_step api Loop_hooks t w = None"
      by (auto simp: leaving_def Loop_run_step_def)
    with 0 Suc.prems show ?thesis by simp
  next
    case (Suc j)
    obtain w1 where "Loop_run_step api Loop_hooks t w = Some (Inr w1)" "leaving api a t i j w1"
      using leaving_step [OF Suc.prems [unfolded Suc]] by blast
    with Suc Suc.IH [of j w1] show ?thesis by simp
  qed
qed

text \<open>After \<open>stop\<close> the thread of a loop leaves \<open>_run\<close> wherever it is.\<close>

lemma stop_leaving:
  assumes "event_base_laws api" and "objs w a = Some l" and "l_base l = Some b"
    and "l_thread l = Some t" and "t \<in> joinable w" and "l_status l \<noteq> StatusFinished"
    and "calls w t = [(a, pc)]"
  shows "\<exists>w1. Loop_stop api Loop_hooks True a w = Inr w1 \<and> leaving api a t (l_id l) (steps_left pc) w1"
  using assms by (auto simp: Loop_stop_def Loop_hooks_def leaving_def will_return_def event_base_laws_def)

text \<open>
  The outcomes of \<open>~Loop\<close>: the thread makes \<open>n\<close> steps between \<open>stop\<close> and \<open>wait\<close>, and \<open>m\<close> more
  while \<open>wait\<close> is in \<open>join\<close>.
\<close>

definition destroyed_after ::
    "nat \<Rightarrow> nat \<Rightarrow> nat \<Rightarrow> addr \<Rightarrow> tid \<Rightarrow> u32 \<Rightarrow> (loop_error + 'b loops) option \<Rightarrow> bool" where
  "destroyed_after k n m a t i r \<longleftrightarrow>
     (if k \<le> n then r = Some (Inl Terminate)
      else if k \<le> n + m
      then \<exists>w1. r = Some (Inr w1) \<and> objs w1 a = None \<and> Loop_get i w1 = None \<and> t \<notin> joinable w1
        \<and> calls w1 t = []
      else r = None)"

lemma destroy_end_joined:
  assumes "objs w a = Some l" and "l_thread l = Some t" and "t \<notin> joinable w"
  shows "Loop_destroy_end a w = Inr (Loop_unregister a l w)"
  using assms by (simp add: Loop_destroy_end_def)

lemma stopped_destroy:
  assumes l: "objs w a = Some l" "l_thread l = Some t"
    and stop: "Loop_stop api Loop_hooks True a w = Inr w1" and w1: "leaving api a t i k w1"
  shows "destroyed_after k n m a t i (Loop_destroy api Loop_hooks (Loop_run_steps api Loop_hooks t n)
    (Loop_run_steps api Loop_hooks t m) a w)"
proof -
  define w2 where "w2 = Loop_run_steps api Loop_hooks t n w1"
  define w3 where "w3 = Loop_run_steps api Loop_hooks t m w2"
  have w2: "leaving api a t i (k - n) w2" unfolding w2_def by (rule leaving_steps [OF w1])
  have w3: "leaving api a t i (k - n - m) w3" unfolding w3_def by (rule leaving_steps [OF w2])
  have D: "Loop_destroy api Loop_hooks (Loop_run_steps api Loop_hooks t n) (Loop_run_steps api Loop_hooks t m) a w =
      (case Loop_wait (Loop_run_steps api Loop_hooks t m) a w2 of
         None \<Rightarrow> None
       | Some (Inl err) \<Rightarrow> Some (Inl err)
       | Some (Inr w4) \<Rightarrow> Some (Loop_destroy_end a w4))"
    using l stop by (simp add: Loop_destroy_def w2_def)
  show ?thesis
  proof (cases "k \<le> n")
    case True
    with w2 show ?thesis
      by (auto simp: D destroyed_after_def leaving_def Loop_wait_def Loop_destroy_end_def)
  next
    case False
    with w2 have wait: "Loop_wait (Loop_run_steps api Loop_hooks t m) a w2 = Loop_join t w3"
      by (auto simp: leaving_def Loop_wait_def w3_def)
    from w3 obtain l3 where l3: "objs w3 a = Some l3" "l_id l3 = i" "l_thread l3 = Some t" "t \<in> joinable w3"
      and c: "calls w3 t = [] \<longleftrightarrow> k \<le> n + m"
      by (auto simp: leaving_def split: if_splits)
    have "destroyed_after k n m a t i
        (case Loop_join t w3 of None \<Rightarrow> None | Some (Inl err) \<Rightarrow> Some (Inl err)
         | Some (Inr w4) \<Rightarrow> Some (Loop_destroy_end a w4))"
      using False l3 c
      by (simp add: destroyed_after_def Loop_join_def Loop_destroy_end_def Loop_unregister_def
          Loop_get_def smap_find_def smap_erase_def)
    then show ?thesis by (simp add: D wait)
  qed
qed

lemma loop_destroy_live:
  assumes "event_base_laws api" and "objs w a = Some l" and "l_base l = Some b"
    and "l_thread l = Some t" and "t \<in> joinable w" and "l_status l \<noteq> StatusFinished"
    and "calls w t = [(a, pc)]"
  shows "destroyed_after (steps_left pc) n m a t (l_id l)
    (Loop_destroy api Loop_hooks (Loop_run_steps api Loop_hooks t n) (Loop_run_steps api Loop_hooks t m) a w)"
proof -
  obtain w1 where "Loop_stop api Loop_hooks True a w = Inr w1" "leaving api a t (l_id l) (steps_left pc) w1"
    using stop_leaving [OF assms] by blast
  then show ?thesis by (rule stopped_destroy [OF assms(2,4)])
qed

text \<open>
  When the destructor of a derived class takes events out of the base first (\<open>f\<close>), and the thread
  makes \<open>n0\<close> steps before \<open>~Loop\<close> begins, these steps count only if the event loop returns.
\<close>

lemma leaving_stop:
  assumes "event_base_laws api" and "leaving api a t i k w"
  shows "\<exists>w1. Loop_stop api Loop_hooks True a w = Inr w1 \<and> leaving api a t i k w1"
proof -
  obtain l b where l: "t \<in> joinable w" "objs w a = Some l" "l_id l = i" "l_thread l = Some t"
    "l_base l = Some b" and k: "if k = 0 then calls w t = [] \<and> l_status l = StatusFinished
      else \<exists>pc. calls w t = [(a, pc)] \<and> steps_left pc = k \<and> l_status l \<noteq> StatusFinished
        \<and> will_return api pc b"
    using assms(2) by (auto simp: leaving_def)
  show ?thesis
  proof (cases "k = 0")
    case True
    with l k assms(2) show ?thesis by (simp add: Loop_stop_def)
  next
    case False
    with k obtain pc where pc: "calls w t = [(a, pc)]" "steps_left pc = k" "l_status l \<noteq> StatusFinished"
      by auto
    show ?thesis using stop_leaving [OF assms(1) l(2,5,4,1) pc(3,1)] pc(2) l(3) by simp
  qed
qed

lemma changed_loop_destroy:
  assumes laws: "event_base_laws api" and l: "objs w a = Some l" "l_base l = Some b" "l_thread l = Some t"
    and t: "t \<in> joinable w" "l_status l \<noteq> StatusFinished" "calls w t = [(a, InLoop)]"
  shows "destroyed_after (if event_base_loop_returns api (f b) then 4 - n0 else 4) n m a t (l_id l)
    (Loop_destroy api Loop_hooks (Loop_run_steps api Loop_hooks t n) (Loop_run_steps api Loop_hooks t m) a
      (Loop_run_steps api Loop_hooks t n0 (change_base f a w)))"
proof (cases "event_base_loop_returns api (f b)")
  case True
  have "leaving api a t (l_id l) 4 (change_base f a w)"
    using True l t by (simp add: leaving_def will_return_def exI [of _ InLoop])
  from leaving_steps [OF this, of n0]
  have out: "leaving api a t (l_id l) (4 - n0) (Loop_run_steps api Loop_hooks t n0 (change_base f a w))"
    (is "leaving _ _ _ _ _ ?w") .
  obtain w1 where "Loop_stop api Loop_hooks True a ?w = Inr w1" "leaving api a t (l_id l) (4 - n0) w1"
    using leaving_stop [OF laws out] by blast
  moreover obtain l1 where "objs ?w a = Some l1" "l_thread l1 = Some t" using out by (auto simp: leaving_def)
  ultimately show ?thesis using True by (auto intro: stopped_destroy)
next
  case False
  have "Loop_run_steps api Loop_hooks t n0 (change_base f a w) = change_base f a w"
    using False l t by (cases n0) (simp_all add: Loop_run_step_def)
  then show ?thesis
    using loop_destroy_live [OF laws, of "change_base f a w" a "map_base f l" "f b" t InLoop n m] False l t
    by simp
qed

text \<open>C18: Destroying a loop whose thread is in \<open>_run\<close>, with \<open>steps_left pc\<close> statements to go
  (4 in the event loop): the thread makes \<open>n\<close> steps between the \<open>stop\<close> and the status test in
  \<open>wait\<close> and \<open>m\<close> more while \<open>wait\<close> is in \<open>join\<close>. When it is through before the test, nobody joins
  it and the program ends (\<open>std::terminate\<close>); when it gets through in \<open>join\<close>, the thread is
  joined and the loop is out of the registry; until then the destructor has not returned.\<close>

theorem loop_destroy_running:
  assumes "event_base_laws api" and "objs w a = Some l" and "l_base l = Some b"
    and "l_thread l = Some t" and "t \<in> joinable w" and "l_status l \<noteq> StatusFinished"
    and "calls w t = [(a, pc)]"
  shows "let k = steps_left pc;
      result = Loop_destroy api Loop_hooks (Loop_run_steps api Loop_hooks t n)
        (Loop_run_steps api Loop_hooks t m) a w
    in if k \<le> n then result = Some (Inl Terminate)
       else if k \<le> n + m
       then \<exists>w1. result = Some (Inr w1) \<and> objs w1 a = None \<and> Loop_get (l_id l) w1 = None
         \<and> t \<notin> joinable w1 \<and> calls w1 t = []
       else result = None"
  using loop_destroy_live [OF assms, of n m] by (simp add: destroyed_after_def Let_def)

text \<open>The thread in the event loop finishes in \<open>join\<close>, before the status test, or not yet.\<close>

theorem loop_destroy_running_witness:
  "let w = Loop_run_steps flag_api Loop_hooks 1 4 one_started;
      destroy = (\<lambda>n m. Loop_destroy flag_api Loop_hooks (Loop_run_steps flag_api Loop_hooks 1 n)
        (Loop_run_steps flag_api Loop_hooks 1 m) 7 w)
    in (\<exists>w1. destroy 0 4 = Some (Inr w1) \<and> Loop_get 1 w1 = None)
      \<and> destroy 4 0 = Some (Inl Terminate) \<and> destroy 1 2 = None"
proof -
  let ?w = "Loop_run_steps flag_api Loop_hooks 1 4 one_started"
  let ?l = "\<lparr>l_id = 1, l_base = Some busy_base, l_thread = Some 1, l_status = StatusRunning\<rparr>"
  have "objs ?w 7 = Some ?l" "1 \<in> joinable ?w" "calls ?w 1 = [(7, InLoop)]"
    by (simp_all add: eval_nat_numeral loop_eval)
  note result = loop_destroy_running [OF flag_api_laws this(1) _ _ this(2) _ this(3)]
  show ?thesis
    using result [where n = 0 and m = 4] result [where n = 4 and m = 0] result [where n = 1 and m = 2]
    by (auto simp: statuses Let_def)
qed

text \<open>Other threads that neither touch the loop at \<open>a\<close> nor join its thread \<open>t\<close>.\<close>

definition leaves_alone :: "addr \<Rightarrow> tid \<Rightarrow> ('b loops \<Rightarrow> 'b loops) \<Rightarrow> bool" where
  "leaves_alone a t f \<longleftrightarrow>
     (\<forall>v. objs (f v) a = objs v a \<and> (t \<in> joinable (f v) \<longleftrightarrow> t \<in> joinable v))"

text \<open>C40: A loop whose thread has ended by itself and has not been joined cannot be destroyed:
  \<open>stop\<close> and \<open>wait\<close> return at once because of the status, nobody joins the thread, and deleting
  it ends the program. A \<open>wait\<close> that was called while the loop was not finished joins the thread
  when it ends, and the destruction after it is safe. (Other threads leave this loop alone.)\<close>

theorem loop_destroy_finished_terminates:
  assumes "objs w a = Some l" and "l_thread l = Some t" and "t \<in> joinable w"
    and "l_status l = StatusFinished" and "calls w t = []"
    and "leaves_alone a t racing"
  shows "Loop_stop api hk waiting a w = Inr w \<and> Loop_wait during a w = Some (Inr w)
    \<and> Loop_destroy api hk racing during a w = Some (Inl Terminate)
    \<and> (\<forall>w0 l0. objs w0 a = Some l0 \<longrightarrow> l_thread l0 = Some t \<longrightarrow> l_status l0 \<noteq> StatusFinished \<longrightarrow>
        (\<exists>w1 w2. Loop_wait (\<lambda>_. w) a w0 = Some (Inr w1)
          \<and> Loop_destroy api hk racing during a w1 = Some (Inr w2) \<and> objs w2 a = None))"
proof -
  let ?w = "w\<lparr>joinable := joinable w - {t}\<rparr>"
  have stop: "Loop_stop api hk waiting a v = Inr v" if "objs v a = Some l" for v waiting
    using that assms by (simp add: Loop_stop_def)
  have wait: "Loop_wait during a v = Some (Inr v)" if "objs v a = Some l" for v
    using that assms by (simp add: Loop_wait_def)
  have raced: "objs (racing v) a = objs v a" "t \<in> joinable (racing v) \<longleftrightarrow> t \<in> joinable v" for v
    using assms(6) by (simp_all add: leaves_alone_def)
  have D: "Loop_destroy api hk racing during a v = Some (Loop_destroy_end a (racing v))"
    if "objs v a = Some l" for v
    using that assms(2) wait [of "racing v"] by (simp add: Loop_destroy_def stop raced)
  have "Loop_destroy api hk racing during a w = Some (Inl Terminate)"
    using assms(1-3) raced by (simp add: D Loop_destroy_end_def)
  moreover have "\<exists>w1 w2. Loop_wait (\<lambda>_. w) a w0 = Some (Inr w1)
      \<and> Loop_destroy api hk racing during a w1 = Some (Inr w2) \<and> objs w2 a = None"
    if "objs w0 a = Some l0" "l_thread l0 = Some t" "l_status l0 \<noteq> StatusFinished" for w0 l0
  proof -
    have "Loop_wait (\<lambda>_. w) a w0 = Some (Inr ?w)"
      using that assms(3,5) by (simp add: Loop_wait_def Loop_join_def)
    moreover have "Loop_destroy api hk racing during a ?w =
        Some (Inr (Loop_unregister a l (racing ?w)))"
      using assms(1,2) by (simp add: D Loop_destroy_end_def raced)
    ultimately show ?thesis by (simp add: Loop_unregister_def)
  qed
  ultimately show ?thesis using stop wait assms(1) by blast
qed

text \<open>The loop without events ends by itself; with a \<open>wait\<close> from the start it can be destroyed.\<close>

theorem loop_destroy_finished_terminates_witness:
  "let w0 = set_loop 7 \<lparr>l_id = 1, l_base = Some (busy_base\<lparr>fb_events := 0\<rparr>), l_thread = Some 1,
        l_status = StatusInit\<rparr> one_started;
      w = Loop_run_steps flag_api Loop_hooks 1 8 w0
    in Loop_destroy flag_api Loop_hooks id id 7 w = Some (Inl Terminate)
      \<and> (\<exists>w1 w2. Loop_wait (Loop_run_steps flag_api Loop_hooks 1 8) 7 w0 = Some (Inr w1)
          \<and> Loop_destroy flag_api Loop_hooks id id 7 w1 = Some (Inr w2))"
proof -
  let ?l = "\<lparr>l_id = 1, l_base = Some (busy_base\<lparr>fb_events := 0\<rparr>), l_thread = Some 1,
        l_status = StatusInit\<rparr>"
  let ?start = "set_loop 7 ?l one_started"
  let ?w = "Loop_run_steps flag_api Loop_hooks 1 8 ?start"
  have w: "objs ?w 7 = Some \<lparr>l_id = 1, l_base = Some (busy_base\<lparr>fb_events := 0\<rparr>),
      l_thread = Some 1, l_status = StatusFinished\<rparr>" "1 \<in> joinable ?w" "calls ?w 1 = []"
    by (simp_all add: eval_nat_numeral loop_eval)
  have w0: "objs ?start 7 = Some ?l" by (simp add: set_loop_def)
  have same: "Loop_wait (Loop_run_steps flag_api Loop_hooks 1 8) 7 ?start = Loop_wait (\<lambda>_. ?w) 7 ?start"
    using w0 by (simp add: Loop_wait_def)
  note result = loop_destroy_finished_terminates
    [where racing = id and api = flag_api and hk = Loop_hooks and during = id and waiting = True,
      OF w(1) _ w(2) _ w(3)]
  have alone: "leaves_alone 7 1 (id :: flag_base loops \<Rightarrow> _)" by (simp add: leaves_alone_def)
  have "Loop_destroy flag_api Loop_hooks id id 7 ?w = Some (Inl Terminate)"
    using result alone by simp
  moreover have "\<exists>w1 w2. Loop_wait (\<lambda>_. ?w) 7 ?start = Some (Inr w1)
      \<and> Loop_destroy flag_api Loop_hooks id id 7 w1 = Some (Inr w2)"
    using result alone w0 by (fastforce simp: statuses)
  ultimately show ?thesis by (simp only: Let_def same simp_thms)
qed

text \<open>A \<open>stop(false)\<close> that comes before the started thread has entered the event loop is lost:
  the thread goes on exactly as without it. A \<open>stop(true)\<close> there is not: once inside, the loop
  returns.\<close>

theorem loop_stop_before_entry:
  assumes "event_base_laws api" and "objs w a = Some l" and "l_base l = Some b"
    and "l_status l = StatusRunning" and "calls w t = [(a, EnterLoop)]"
  shows "\<exists>w0 w1 w2. Loop_stop api Loop_hooks False a w = Inr w0
    \<and> Loop_run_step api Loop_hooks t w0 = Loop_run_step api Loop_hooks t w
    \<and> Loop_stop api Loop_hooks True a w = Inr w1
    \<and> Loop_run_step api Loop_hooks t w1 = Some (Inr w2)
    \<and> (\<exists>w3. Loop_run_step api Loop_hooks t w2 = Some (Inr w3) \<and> calls w3 t = [(a, AfterLoop)])"
proof -
  note laws = assms(1) [unfolded event_base_laws_def]
  show ?thesis
    using assms(2-5) laws
    by (simp add: Loop_stop_def Loop_run_step_def set_loop_def map_base_def Loop_hooks_def statuses
        Let_def)
qed

theorem loop_stop_before_entry_witness:
  "\<exists>w0. Loop_stop flag_api Loop_hooks False 7 (Loop_run_steps flag_api Loop_hooks 1 3 one_started) = Inr w0
    \<and> Loop_run_step flag_api Loop_hooks 1 w0 =
      Loop_run_step flag_api Loop_hooks 1 (Loop_run_steps flag_api Loop_hooks 1 3 one_started)"
proof -
  let ?w = "Loop_run_steps flag_api Loop_hooks 1 3 one_started"
  let ?l = "\<lparr>l_id = 1, l_base = Some busy_base, l_thread = Some 1, l_status = StatusRunning\<rparr>"
  have "objs ?w 7 = Some ?l" "calls ?w 1 = [(7, EnterLoop)]"
    by (simp_all add: eval_nat_numeral loop_eval)
  from loop_stop_before_entry [OF flag_api_laws this(1) _ _ this(2)] show ?thesis by auto
qed

text \<open>A loop can be started twice: until the new thread has executed its first statement the
  status is still initial, so a second \<open>start\<close> succeeds too, two threads run the same loop,
  and the first thread is not the loop's thread any more: nothing can join it.\<close>

theorem loop_double_start:
  assumes "objs w a = Some l" and "l_status l = StatusInit"
  shows "\<exists>w1 w2. Loop_start Loop_hooks True t a w = Inr (True, w1)
    \<and> Loop_start Loop_hooks True t1 a w1 = Inr (True, w2)
    \<and> calls w2 (next_tid w) = [(a, SetRunning)] \<and> calls w2 (next_tid w + 1) = [(a, SetRunning)]
    \<and> next_tid w \<in> joinable w2 \<and> map_option l_thread (objs w2 a) = Some (Some (next_tid w + 1))"
  using assms by (simp add: Loop_start_def Loop_hooks_def Let_def)

theorem loop_double_start_witness:
  "\<exists>w1 w2. Loop_start Loop_hooks True 0 7 one_loop = Inr (True, w1)
    \<and> Loop_start Loop_hooks True 0 7 w1 = Inr (True, w2)
    \<and> calls w2 1 = [(7, SetRunning)] \<and> calls w2 2 = [(7, SetRunning)]"
proof -
  have "objs one_loop 7 = Some \<lparr>l_id = 1, l_base = Some busy_base, l_thread = None, l_status = StatusInit\<rparr>"
    and "next_tid one_loop = 1"
    by (simp_all add: loop_eval)
  with loop_double_start [OF this(1), of 0 0] show ?thesis by (auto simp: numeral_2_eq_2)
qed

text \<open>When \<open>event_base_new\<close> fails, the constructor throws, but the registry keeps the address
  of the object that never came to life: \<open>Loop::get\<close> returns a dangling pointer.\<close>

theorem loop_failed_constructor_dangles:
  "\<exists>w1. Loop_new a None w = (Some CREATE_EVENT_FAIL, w1)
    \<and> Loop_get (sIdGenerater w + 1) w1 = Some a \<and> objs w1 = objs w"
  using registry.assigned_found [OF TrueI, of "sIdGenerater w + 1" a "sLoops w"]
  by (simp add: Loop_new_def Loop_get_def Let_def)

end
