(* ===== verification/FrameLoop.thy ===== *)
theory FrameLoop
  imports Timer Event_Loop
begin

text \<open>
  The class \<open>FrameLoop\<close> (include/translib/frameLoop.h, src/translib/frameLoop.cpp): a \<open>Loop\<close> with
  a timer that calls \<open>onFrame\<close> in each frame. The members of the base class are in
  \<open>Event_Loop\<close>; here are the frame timer and the interval.
\<close>

record 'u frame_loop =
  frameTimer :: "'u timer"
  frameInterval :: u32

definition FrameLoop_new :: "'u frame_loop" where
  "FrameLoop_new = \<lparr>frameTimer = Timer_new, frameInterval = 10\<rparr>"

definition FrameLoop_setFrameInterval :: "u32 \<Rightarrow> 'u frame_loop \<Rightarrow> 'u frame_loop" where
  "FrameLoop_setFrameInterval interval f =
     (if interval > 0 then f\<lparr>frameInterval := interval\<rparr> else f)"

definition FrameLoop_curFrameRound :: "'u frame_loop \<Rightarrow> u64" where
  "FrameLoop_curFrameRound f = Timer_curRound (frameTimer f)"

text \<open>\<open>frame\<close> is \<open>std::bind(&FrameLoop::onFrame, this)\<close>; the result of the start is dropped.\<close>

definition FrameLoop_onBeforeLoop :: "event_env \<Rightarrow> 'u \<Rightarrow> 'u frame_loop \<Rightarrow> 'u frame_loop" where
  "FrameLoop_onBeforeLoop e frame f =
     f\<lparr>frameTimer := snd (Timer_startForever e (frameInterval f) (UserHandler frame) (frameTimer f))\<rparr>"

definition FrameLoop_onFrame :: "'w \<Rightarrow> 'w" where
  "FrameLoop_onFrame w = w"

text \<open>Timeouts of the frame timer.\<close>

definition FrameLoop_run ::
    "('u, 'w) user_code \<Rightarrow> event_env list \<Rightarrow> 'u frame_loop \<Rightarrow> 'w \<Rightarrow> timer_error + 'u frame_loop \<times> 'w" where
  "FrameLoop_run uc es f w =
     (case Timer_run uc es (frameTimer f) w of
        Inl err \<Rightarrow> Inl err
      | Inr (t, w1) \<Rightarrow> Inr (f\<lparr>frameTimer := t\<rparr>, w1))"

text \<open>
  \<open>~FrameLoop\<close> deletes the frame timer, whose event leaves the event base of the loop (\<open>remove\<close>);
  then \<open>~Loop\<close> runs, after what the other threads do \<open>between\<close> the two.
\<close>

definition FrameLoop_destroy ::
    "'b event_base_api \<Rightarrow> 'b loop_hooks \<Rightarrow> ('b \<Rightarrow> 'b) \<Rightarrow> ('b loops \<Rightarrow> 'b loops) \<Rightarrow> ('b loops \<Rightarrow> 'b loops)
      \<Rightarrow> ('b loops \<Rightarrow> 'b loops) \<Rightarrow> addr \<Rightarrow> 'u frame_loop \<Rightarrow> 'b loops
      \<Rightarrow> 'u frame_loop \<times> (loop_error + 'b loops) option" where
  "FrameLoop_destroy api hk remove between racing during a f w =
     (let f1 = f\<lparr>frameTimer := Timer_destroy (frameTimer f)\<rparr>;
          w1 = (if t_event (frameTimer f) \<noteq> None then change_base remove a w else w)
      in (f1, Loop_destroy api hk racing during a (between w1)))"

lemma frame_timer_started:
  assumes "event_new_ok e" and "event_add_ok e" and "t_event (frameTimer f) = None"
  shows "Timer_startForever e (frameInterval f) (UserHandler frame) (frameTimer f) =
    (True, frameTimer (FrameLoop_onBeforeLoop e frame f))"
  using assms
  by (simp add: FrameLoop_onBeforeLoop_def Timer_startForever_def Timer_startRounds_def Let_def)

lemma started_interval: "Timer_startRounds e i r h t = (True, t0) \<Longrightarrow> t_interval t0 = i"
  by (auto simp: Timer_startRounds_def Let_def split: if_splits)

section \<open>Properties\<close>

text \<open>A frame loop calls \<open>onFrame\<close> once per interval, and \<open>curFrameRound\<close> counts the frames,
  for \<open>2 ^ 32 - 1\<close> frames; with the last one the frame timer is gone, and no frame ever follows.
  The interval is the one set when the loop begins to run.\<close>

theorem frame_loop_frames:
  assumes "event_new_ok e" and "event_add_ok e" and "t_event (frameTimer f) = None"
    and "user_keeps uc frame g"
  shows "\<exists>f1. FrameLoop_run uc es (FrameLoop_onBeforeLoop e frame f) w =
      Inr (f1, (g ^^ min (length es) (2 ^ 32 - 1)) w)
    \<and> (if length es < 2 ^ 32 - 1
       then FrameLoop_curFrameRound f1 = of_nat (length es) \<and> Timer_pending (frameTimer f1)
         \<and> t_interval (frameTimer f1) = frameInterval f
       else \<not> Timer_pending (frameTimer f1))"
proof -
  let ?f = "FrameLoop_onBeforeLoop e frame f"
  have start: "Timer_startRounds e (frameInterval f) forever_rounds (UserHandler frame) (frameTimer f) =
      (True, frameTimer ?f)"
    using frame_timer_started [OF assms(1-3), of frame] by (simp add: Timer_startForever_def)
  note s = started_armed [OF start]
  have "call_handler uc e (UserHandler frame) t w = Inr (t, g w)" for e t w
    using assms(4) by (simp add: user_keeps_def)
  note run = run_counts [OF this s(1,2), of es w]
  have left: "rounds_left (frameTimer ?f) = 2 ^ 32 - 1"
    using s(5) by (simp add: unat_forever_rounds)
  have interval: "t_interval (frameTimer ?f) = frameInterval f"
    using start by (rule started_interval)
  show ?thesis
  proof (cases "length es < 2 ^ 32 - 1")
    case True
    then have advance: "armed (frameTimer ?f\<lparr>t_curRound := of_nat (length es)\<rparr>)"
      using armed_advance(1) [OF s(1), of "length es"] by (simp add: left s(4))
    with True show ?thesis
      by (simp add: FrameLoop_run_def run left s(4) FrameLoop_curFrameRound_def interval armed_pending)
  next
    case False
    then show ?thesis
      by (simp add: FrameLoop_run_def run left run_out_def Timer_pending_def min_absorb2)
  qed
qed

theorem frame_loop_frames_witness:
  "\<exists>f1. FrameLoop_run counting_code (replicate 3 good_env)
      (FrameLoop_onBeforeLoop good_env 7 (FrameLoop_setFrameInterval 20 FrameLoop_new)) 0 = Inr (f1, 3)
    \<and> FrameLoop_curFrameRound f1 = 3 \<and> t_interval (frameTimer f1) = 20"
proof -
  let ?f = "FrameLoop_setFrameInterval 20 FrameLoop_new"
  have "event_new_ok good_env" "event_add_ok good_env" "t_event (frameTimer ?f) = None"
    by (simp_all add: good_env_def FrameLoop_setFrameInterval_def FrameLoop_new_def Timer_new_def)
  from frame_loop_frames [OF this counting_code_keeps [of 7], of "replicate 3 good_env" 0]
  show ?thesis
    by (auto simp: numeral_3_eq_3 FrameLoop_setFrameInterval_def FrameLoop_new_def)
qed

text \<open>Destroying a frame loop while its thread is in the event loop. The destructor first deletes the
  frame timer; when that was the last event, the event loop returns, and the \<open>n0\<close> steps that the
  thread makes before \<open>~Loop\<close> count. When the thread has finished before \<open>wait\<close> looks at the
  status, nobody joins it, and deleting it calls \<open>std::terminate\<close>.\<close>

lemma frame_loop_destroy_outcomes:
  assumes "event_base_laws api" and "objs w a = Some l" and "l_base l = Some b"
    and "l_thread l = Some t" and "t \<in> joinable w" and "l_status l \<noteq> StatusFinished"
    and "calls w t = [(a, InLoop)]"
  shows "let b1 = (if t_event (frameTimer f) = None then b else remove b);
      k = (if event_base_loop_returns api b1 then 4 - n0 else 4)
    in destroyed_after k n m a t (l_id l)
      (snd (FrameLoop_destroy api Loop_hooks remove (Loop_run_steps api Loop_hooks t n0)
        (Loop_run_steps api Loop_hooks t n) (Loop_run_steps api Loop_hooks t m) a f w))"
proof -
  have "change_base id a w = w"
    using assms(2) by (simp add: change_base_def set_loop_def map_base_def option.map_id fun_upd_idem)
  then show ?thesis
    using changed_loop_destroy [OF assms, of id n0 n m] changed_loop_destroy [OF assms, of remove n0 n m]
    by (simp add: FrameLoop_destroy_def Let_def split: if_split_asm)
qed

lemma frame_loop_destroy_may_terminate:
  "snd (FrameLoop_destroy flag_api Loop_hooks (\<lambda>b. b\<lparr>fb_events := fb_events b - 1\<rparr>)
      (Loop_run_steps flag_api Loop_hooks 1 4) (Loop_run_steps flag_api Loop_hooks 1 0)
      (Loop_run_steps flag_api Loop_hooks 1 0) 7
      (FrameLoop_onBeforeLoop good_env () FrameLoop_new)
      (Loop_run_steps flag_api Loop_hooks 1 4 one_started)) = Some (Inl Terminate)"
proof -
  let ?w = "Loop_run_steps flag_api Loop_hooks 1 4 one_started"
  let ?l = "\<lparr>l_id = 1, l_base = Some busy_base, l_thread = Some 1, l_status = StatusRunning\<rparr>"
  let ?f = "FrameLoop_onBeforeLoop good_env () FrameLoop_new"
  let ?remove = "\<lambda>b. b\<lparr>fb_events := fb_events b - 1\<rparr>"
  have w: "objs ?w 7 = Some ?l" "1 \<in> joinable ?w" "calls ?w 1 = [(7, InLoop)]"
    by (simp_all add: eval_nat_numeral loop_eval)
  have f: "t_event (frameTimer ?f) \<noteq> None"
    by (simp add: FrameLoop_onBeforeLoop_def FrameLoop_new_def Timer_startForever_def
        Timer_startRounds_def good_env_def Timer_new_def Let_def)
  have "event_base_loop_returns flag_api (?remove busy_base)"
    by (simp add: flag_api_def busy_base_def)
  with frame_loop_destroy_outcomes [where remove = ?remove and f = ?f and ?n0.0 = 4 and n = 0 and m = 0,
      OF flag_api_laws w(1) _ _ w(2) _ w(3)] f
  show ?thesis by (simp add: destroyed_after_def Let_def statuses)
qed

end
