(* ===== verification/DispatcherEnd.thy ===== *)
theory DispatcherEnd
  imports TcpServerDispatcher FrameLoop
begin

text \<open>
  The end of a dispatcher. \<open>TcpServerDispatcher\<close> has no destructor of its own: its members are
  destroyed (the queue, then the table with its pointers), then \<open>~FrameLoop\<close> and \<open>~Loop\<close> run.
\<close>

section \<open>Operations\<close>

text \<open>The table gives up its nodes in the order \<open>ks\<close>.\<close>

definition destroy_members :: "session_id list \<Rightarrow> ('b, 'w) dispatcher \<Rightarrow> ('b, 'w) dispatcher" where
  "destroy_members ks d =
     fold (\<lambda>i. remove_action \<lparr>sa_id = i, sa_sock = SOCKET_FD_INVALID\<rparr>) ks (d\<lparr>d_actions := []\<rparr>)"

text \<open>The other threads' steps before \<open>~Loop\<close>, before the test of the status and in \<open>join\<close>.\<close>

definition TcpServerDispatcher_destroy ::
    "'l event_base_api \<Rightarrow> 'l loop_hooks \<Rightarrow> ('l \<Rightarrow> 'l) \<Rightarrow> ('l loops \<Rightarrow> 'l loops) \<Rightarrow> ('l loops \<Rightarrow> 'l loops)
      \<Rightarrow> ('l loops \<Rightarrow> 'l loops) \<Rightarrow> session_id list \<Rightarrow> 'u frame_loop \<Rightarrow> ('b, 'w) dispatcher \<Rightarrow> 'l loops
      \<Rightarrow> ('b, 'w) dispatcher \<times> (loop_error + 'l loops) option" where
  "TcpServerDispatcher_destroy api hk remove between racing during ks f d w =
     (let d1 = destroy_members ks d
      in (d1, snd (FrameLoop_destroy api hk remove between racing during (d_no d1) f w)))"

section \<open>The sessions\<close>

lemma removes_all:
  "dispatcher_ok d held \<Longrightarrow>
    let d1 = fold (\<lambda>i. remove_action \<lparr>sa_id = i, sa_sock = SOCKET_FD_INVALID\<rparr>) ks d
    in dispatcher_ok d1 held \<and> d_sessions d1 = d_sessions d |` (- set ks) \<and> d_effects d1 = d_effects d
      \<and> d_actions d1 = d_actions d \<and> d_no d1 = d_no d"
proof (induction ks arbitrary: d)
  case Nil
  then show ?case by simp
next
  case (Cons i ks)
  let ?d = "remove_action \<lparr>sa_id = i, sa_sock = SOCKET_FD_INVALID\<rparr> d"
  have "d_sessions ?d = (d_sessions d)(i := None)"
    by (simp add: remove_action_def smap_erase_def Let_def split: option.split)
  with Cons.IH [OF remove_action_ok(1) [OF Cons.prems]] show ?case
    by (auto simp: Let_def remove_no_effect [OF Cons.prems] remove_action_fields restrict_map_def fun_eq_iff)
qed

text \<open>After the members are gone the sessions that exist are those the program points to.\<close>

lemma members_destroyed:
  assumes ok: "dispatcher_ok d held" and ks: "dom (d_sessions d) \<subseteq> set ks"
  shows "d_effects (destroy_members ks d) = d_effects d" "d_actions (destroy_members ks d) = []"
    "d_sessions (destroy_members ks d) i = None" "d_no (destroy_members ks d) = d_no d"
    and "d_heap (destroy_members ks d) a \<noteq> None \<longleftrightarrow> 0 < held a"
proof -
  let ?d = "destroy_members ks d"
  have fields: "d_sessions (d\<lparr>d_actions := []\<rparr>) = d_sessions d" "d_no (d\<lparr>d_actions := []\<rparr>) = d_no d"
    "d_effects (d\<lparr>d_actions := []\<rparr>) = d_effects d" "d_actions (d\<lparr>d_actions := []\<rparr>) = []" by simp_all
  have "dispatcher_ok (d\<lparr>d_actions := []\<rparr>) held" using ok by (simp add: pop_ok)
  from removes_all [OF this, of ks, unfolded Let_def fields]
  have d: "dispatcher_ok ?d held" "d_sessions ?d = d_sessions d |` (- set ks)" "d_effects ?d = d_effects d"
    "d_actions ?d = []" "d_no ?d = d_no d"
    unfolding destroy_members_def by blast+
  have none: "d_sessions ?d i = None" for i using ks by (auto simp: d(2) restrict_map_def)
  then show "d_effects ?d = d_effects d" "d_actions ?d = []" "d_sessions ?d i = None" "d_no ?d = d_no d"
    using d by simp_all
  have "table_refs ?d held a = held a" using none by (simp add: table_refs_def ran_def)
  then show "d_heap ?d a \<noteq> None \<longleftrightarrow> 0 < held a"
    using refs_okD(1) [OF dispatcher_okD(1) [OF d(1)], of a] by simp
qed

lemma removes_keep_no:
  "d_no (fold (\<lambda>i. remove_action \<lparr>sa_id = i, sa_sock = SOCKET_FD_INVALID\<rparr>) ks d) = d_no d"
  by (induction ks arbitrary: d) (simp_all add: remove_action_fields)

lemma destroy_members_no [simp]: "d_no (destroy_members ks d) = d_no d"
  by (simp add: destroy_members_def removes_keep_no)

end
