(* ===== verification/TcpServer.thy ===== *)
theory TcpServer
  imports DispatcherEnd
begin

text \<open>
  The class \<open>TcpServer\<close> (include/translib/tcpServer.h, src/translib/tcpServer.cpp): a listener on
  the master dispatcher's loop, and the dispatchers among which the accepted connections are
  distributed by their session ids.

  A dispatcher is a loop: \<open>d_no\<close> is the address of its \<open>Loop\<close> in the state of \<open>Event_Loop\<close>, which
  the operations that construct, start, stop and wait take along.
\<close>

section \<open>State\<close>

text \<open>
  With the members: the listeners that libevent holds, and the number of the next one.
\<close>

record ('b, 'w) tcp_server =
  sv_eventListener :: "nat option"
  sv_listeners :: "nat list"
  sv_next_listener :: nat
  sv_master :: "('b, 'w) dispatcher"
  sv_slavers :: "('b, 'w) dispatcher list"

section \<open>Operations\<close>

text \<open>
  \<open>new TcpServerDispatcher(this)\<close> for the addresses in turn; \<open>base\<close> is what \<open>event_base_new\<close>
  returns there. A constructor that throws ends the loop.
\<close>

fun new_dispatchers ::
    "(addr \<Rightarrow> 'l option) \<Rightarrow> 'w \<Rightarrow> addr list \<Rightarrow> 'l loops
      \<Rightarrow> loop_error option \<times> ('b, 'w) dispatcher list \<times> 'l loops" where
  "new_dispatchers base u [] w = (None, [], w)"
| "new_dispatchers base u (a # as) w =
     (case Loop_new a (base a) w of
        (Some err, w1) \<Rightarrow> (Some err, [], w1)
      | (None, w1) \<Rightarrow>
          (let (r, ds, w2) = new_dispatchers base u as w1
           in (r, TcpServerDispatcher_new a u # ds, w2)))"

text \<open>The slavers are made at \<open>at\<close>, \<open>at + 1\<close> and so on.\<close>

definition TcpServer_setThreads ::
    "(addr \<Rightarrow> 'l option) \<Rightarrow> 'w \<Rightarrow> addr \<Rightarrow> u16 \<Rightarrow> ('b, 'w) tcp_server \<Rightarrow> 'l loops
      \<Rightarrow> loop_error option \<times> ('b, 'w) tcp_server \<times> 'l loops" where
  "TcpServer_setThreads base u at threads sv w =
     (if sv_slavers sv \<noteq> [] then (None, sv, w)
      else
        let (r, ds, w1) = new_dispatchers base u [at ..< at + unat threads] w
        in (r, sv\<lparr>sv_slavers := sv_slavers sv @ ds\<rparr>, w1))"

definition TcpServer_new ::
    "(addr \<Rightarrow> 'l option) \<Rightarrow> 'w \<Rightarrow> addr \<Rightarrow> u16 \<Rightarrow> 'l loops
      \<Rightarrow> loop_error option \<times> ('b, 'w) tcp_server \<times> 'l loops" where
  "TcpServer_new base u at threads w =
     (let (r, w1) = Loop_new at (base at) w;
          sv = \<lparr>sv_eventListener = None, sv_listeners = [], sv_next_listener = 0,
                sv_master = TcpServerDispatcher_new at u, sv_slavers = []\<rparr>
      in if r \<noteq> None then (r, sv, w1) else TcpServer_setThreads base u (at + 1) threads sv w1)"

text \<open>The loop of the master, by its address.\<close>

definition TcpServer_getMasterLoop :: "('b, 'w) tcp_server \<Rightarrow> addr" where
  "TcpServer_getMasterLoop sv = d_no (sv_master sv)"

text \<open>\<open>dispatcher->start()\<close> for each; what it returns is dropped.\<close>

fun start_all ::
    "'l loop_hooks \<Rightarrow> tid \<Rightarrow> ('b, 'w) dispatcher list \<Rightarrow> 'l loops \<Rightarrow> loop_error + 'l loops" where
  "start_all hk t [] w = Inr w"
| "start_all hk t (d # ds) w =
     (case Loop_start hk True t (d_no d) w of
        Inl err \<Rightarrow> Inl err
      | Inr (r, w1) \<Rightarrow> start_all hk t ds w1)"

text \<open>
  \<open>listen\<close>, called by thread \<open>t\<close>; \<open>bind_ok\<close> is whether \<open>evconnlistener_new_bind\<close> succeeds. The
  options of the listening socket are not modelled.
\<close>

definition TcpServer_listen ::
    "'l loop_hooks \<Rightarrow> bool \<Rightarrow> tid \<Rightarrow> ('b, 'w) tcp_server \<Rightarrow> 'l loops
      \<Rightarrow> loop_error + bool \<times> ('b, 'w) tcp_server \<times> 'l loops" where
  "TcpServer_listen hk bind_ok t sv w =
     (if \<not> bind_ok then Inr (False, sv\<lparr>sv_eventListener := None\<rparr>, w)
      else
        let n = sv_next_listener sv;
            sv1 = sv\<lparr>sv_eventListener := Some n, sv_next_listener := n + 1,
                     sv_listeners := n # sv_listeners sv\<rparr>
        in case Loop_start hk True t (d_no (sv_master sv1)) w of
             Inl err \<Rightarrow> Inl err
           | Inr (False, w1) \<Rightarrow>
               Inr (False, sv1\<lparr>sv_listeners := remove1 n (sv_listeners sv1), sv_eventListener := None\<rparr>, w1)
           | Inr (True, w1) \<Rightarrow>
               (case start_all hk t (sv_slavers sv1) w1 of
                  Inl err \<Rightarrow> Inl err
                | Inr w2 \<Rightarrow> Inr (True, sv1, w2)))"

fun stop_all ::
    "'l event_base_api \<Rightarrow> 'l loop_hooks \<Rightarrow> addr list \<Rightarrow> 'l loops \<Rightarrow> loop_error + 'l loops" where
  "stop_all api hk [] w = Inr w"
| "stop_all api hk (a # as) w =
     (case Loop_stop api hk True a w of
        Inl err \<Rightarrow> Inl err
      | Inr w1 \<Rightarrow> stop_all api hk as w1)"

definition dispatchers :: "('b, 'w) tcp_server \<Rightarrow> ('b, 'w) dispatcher list" where
  "dispatchers sv = sv_master sv # sv_slavers sv"

definition TcpServer_stop ::
    "'l event_base_api \<Rightarrow> 'l loop_hooks \<Rightarrow> ('b, 'w) tcp_server \<Rightarrow> 'l loops \<Rightarrow> loop_error + 'l loops" where
  "TcpServer_stop api hk sv w = stop_all api hk (map d_no (dispatchers sv)) w"

text \<open>While \<open>wait\<close> joins a thread, the others go on (\<open>during\<close>).\<close>

fun wait_all :: "('l loops \<Rightarrow> 'l loops) \<Rightarrow> addr list \<Rightarrow> 'l loops \<Rightarrow> (loop_error + 'l loops) option" where
  "wait_all during [] w = Some (Inr w)"
| "wait_all during (a # as) w =
     (case Loop_wait during a w of
        None \<Rightarrow> None
      | Some (Inl err) \<Rightarrow> Some (Inl err)
      | Some (Inr w1) \<Rightarrow> wait_all during as w1)"

definition TcpServer_wait ::
    "('l loops \<Rightarrow> 'l loops) \<Rightarrow> ('b, 'w) tcp_server \<Rightarrow> 'l loops \<Rightarrow> (loop_error + 'l loops) option" where
  "TcpServer_wait during sv w = wait_all during (map d_no (dispatchers sv)) w"

text \<open>The dispatcher of a session id: the master, or the slaver with an index.\<close>

definition TcpServer_getSessionDispatcher :: "('b, 'w) tcp_server \<Rightarrow> session_id \<Rightarrow> nat option" where
  "TcpServer_getSessionDispatcher sv i =
     (if sv_slavers sv = [] then None else Some (unat (i mod of_nat (length (sv_slavers sv)))))"

definition at_dispatcher ::
    "nat option \<Rightarrow> (('b, 'w) dispatcher \<Rightarrow> ('b, 'w) dispatcher) \<Rightarrow> ('b, 'w) tcp_server \<Rightarrow> ('b, 'w) tcp_server"
  where
  "at_dispatcher k f sv =
     (case k of
        None \<Rightarrow> sv\<lparr>sv_master := f (sv_master sv)\<rparr>
      | Some j \<Rightarrow> sv\<lparr>sv_slavers := (sv_slavers sv)[j := f (sv_slavers sv ! j)]\<rparr>)"

text \<open>A connection was accepted. The static \<open>s_sessionIdGenerator\<close> is an argument and a result.\<close>

definition TcpServer_listenEventCallback ::
    "int \<Rightarrow> session_id \<Rightarrow> ('b, 'w) tcp_server \<Rightarrow> session_id \<times> ('b, 'w) tcp_server" where
  "TcpServer_listenEventCallback sock gen sv =
     (let i = gen + 1;
          k = TcpServer_getSessionDispatcher sv i
      in (i, at_dispatcher k (TcpServerDispatcher_addSession i sock) sv))"

text \<open>\<open>onListenError\<close> is user code; \<open>TcpServer\<close>'s own does nothing.\<close>

definition TcpServer_listenErrorCallback ::
    "(('b, 'w) tcp_server \<Rightarrow> ('b, 'w) tcp_server) \<Rightarrow> ('b, 'w) tcp_server option \<Rightarrow> ('b, 'w) tcp_server option"
  where
  "TcpServer_listenErrorCallback onListenError server =
     (case server of None \<Rightarrow> None | Some sv \<Rightarrow> Some (onListenError sv))"

text \<open>
  \<open>~TcpServer\<close>: the master and the slavers are deleted in turn, each with its frame timer (\<open>frames\<close>)
  and the order in which its table gives up its nodes (\<open>ks\<close>); \<open>between\<close>, \<open>racing\<close> and \<open>during\<close> are
  what the other threads do meanwhile. Then the listener is freed: \<open>evconnlistener_free\<close> takes
  its event out of the event base of the master's loop, so that base must still exist. The
  session factory has no state.
\<close>

fun delete_all ::
    "'l event_base_api \<Rightarrow> 'l loop_hooks \<Rightarrow> ('l \<Rightarrow> 'l) \<Rightarrow> ('l loops \<Rightarrow> 'l loops) \<Rightarrow> ('l loops \<Rightarrow> 'l loops)
      \<Rightarrow> ('l loops \<Rightarrow> 'l loops) \<Rightarrow> (addr \<Rightarrow> session_id list) \<Rightarrow> (addr \<Rightarrow> 'u frame_loop)
      \<Rightarrow> ('b, 'w) dispatcher list \<Rightarrow> 'l loops
      \<Rightarrow> ('b, 'w) dispatcher list \<times> (loop_error + 'l loops) option" where
  "delete_all api hk remove between racing during ks frames [] w = ([], Some (Inr w))"
| "delete_all api hk remove between racing during ks frames (d # ds) w =
     (case TcpServerDispatcher_destroy api hk remove between racing during (ks (d_no d)) (frames (d_no d)) d w of
        (d1, None) \<Rightarrow> (d1 # ds, None)
      | (d1, Some (Inl err)) \<Rightarrow> (d1 # ds, Some (Inl err))
      | (d1, Some (Inr w1)) \<Rightarrow>
          apfst (Cons d1) (delete_all api hk remove between racing during ks frames ds w1))"

text \<open>The result has the dispatchers as they were left.\<close>

definition TcpServer_destroy ::
    "'l event_base_api \<Rightarrow> 'l loop_hooks \<Rightarrow> ('l \<Rightarrow> 'l) \<Rightarrow> ('l loops \<Rightarrow> 'l loops) \<Rightarrow> ('l loops \<Rightarrow> 'l loops)
      \<Rightarrow> ('l loops \<Rightarrow> 'l loops) \<Rightarrow> (addr \<Rightarrow> session_id list) \<Rightarrow> (addr \<Rightarrow> 'u frame_loop)
      \<Rightarrow> ('b, 'w) tcp_server \<Rightarrow> 'l loops
      \<Rightarrow> ('b, 'w) dispatcher list \<times> (destroy_error + 'l loops) option" where
  "TcpServer_destroy api hk remove between racing during ks frames sv w =
     (case delete_all api hk remove between racing during ks frames (dispatchers sv) w of
        (ds, None) \<Rightarrow> (ds, None)
      | (ds, Some (Inl err)) \<Rightarrow> (ds, Some (Inl (LoopError err)))
      | (ds, Some (Inr w1)) \<Rightarrow>
          (ds, case sv_eventListener sv of
                 None \<Rightarrow> Some (Inr w1)
               | Some n \<Rightarrow>
                   if objs w1 (d_no (sv_master sv)) = None then Some (Inl FreedBase) else Some (Inr w1)))"

section \<open>Starting\<close>

text \<open>Loops at the given addresses that exist and were not started.\<close>

definition startable :: "addr list \<Rightarrow> 'l loops \<Rightarrow> bool" where
  "startable as w \<longleftrightarrow> (\<forall>a \<in> set as. \<exists>l. objs w a = Some l \<and> l_status l = StatusInit)"

definition has_thread :: "'l loops \<Rightarrow> addr \<Rightarrow> bool" where
  "has_thread w a \<longleftrightarrow> (\<exists>l t. objs w a = Some l \<and> l_thread l = Some t \<and> t < next_tid w
     \<and> calls w t = [(a, SetRunning)])"

text \<open>Starting a loop gives it a thread and leaves the threads of other loops alone.\<close>

lemma start_one:
  assumes "objs w a = Some l" and "l_status l = StatusInit"
  shows "\<exists>w1. Loop_start Loop_hooks True t a w = Inr (True, w1) \<and> has_thread w1 a
    \<and> (\<forall>b. b \<noteq> a \<longrightarrow> objs w1 b = objs w b) \<and> (\<forall>b. b \<noteq> a \<longrightarrow> has_thread w b \<longrightarrow> has_thread w1 b)"
  using assms by (auto simp: Loop_start_def Loop_hooks_def has_thread_def Let_def)
    (metis less_SucI less_irrefl)

lemma start_all_threads:
  "distinct (map d_no ds) \<Longrightarrow> startable (map d_no ds) w \<Longrightarrow>
    \<exists>w1. start_all Loop_hooks t ds w = Inr w1 \<and> (\<forall>a \<in> set (map d_no ds). has_thread w1 a)
      \<and> (\<forall>b. b \<notin> set (map d_no ds) \<longrightarrow> has_thread w b \<longrightarrow> has_thread w1 b)"
proof (induction ds arbitrary: w)
  case Nil
  then show ?case by simp
next
  case (Cons d ds)
  obtain l where "objs w (d_no d) = Some l" "l_status l = StatusInit"
    using Cons.prems(2) by (auto simp: startable_def)
  from start_one [OF this, of t] obtain w1 where w1: "Loop_start Loop_hooks True t (d_no d) w = Inr (True, w1)"
    "has_thread w1 (d_no d)" "\<forall>b. b \<noteq> d_no d \<longrightarrow> objs w1 b = objs w b"
    "\<forall>b. b \<noteq> d_no d \<longrightarrow> has_thread w b \<longrightarrow> has_thread w1 b" by blast
  have "startable (map d_no ds) w1"
    using Cons.prems w1(3) by (auto simp: startable_def) (metis image_eqI)
  with Cons.IH [of w1] Cons.prems(1) w1(1,2,4) show ?case by auto
qed

section \<open>Properties of starting\<close>

text \<open>A first \<open>listen\<close> that can bind starts the master's loop and every slaver's, each in a
  thread of its own, and holds one listener.\<close>

theorem server_listen_starts_all:
  assumes "startable (map d_no (dispatchers sv)) w" and "distinct (map d_no (dispatchers sv))"
  shows "\<exists>sv1 w1. TcpServer_listen Loop_hooks True t sv w = Inr (True, sv1, w1)
    \<and> (\<forall>d \<in> set (dispatchers sv). has_thread w1 (d_no d))
    \<and> (\<exists>n. sv_eventListener sv1 = Some n \<and> sv_listeners sv1 = n # sv_listeners sv)"
proof -
  let ?m = "d_no (sv_master sv)" and ?as = "map d_no (sv_slavers sv)"
  obtain l where "objs w ?m = Some l" "l_status l = StatusInit"
    using assms(1) by (auto simp: startable_def dispatchers_def)
  from start_one [OF this, of t] obtain w1 where w1: "Loop_start Loop_hooks True t ?m w = Inr (True, w1)"
    "has_thread w1 ?m" "\<forall>b. b \<noteq> ?m \<longrightarrow> objs w1 b = objs w b" by blast
  have "startable ?as w1"
    using assms w1(3) by (auto simp: startable_def dispatchers_def) (metis image_eqI)
  with start_all_threads [of "sv_slavers sv" w1 t] assms(2) obtain w2 where
    "start_all Loop_hooks t (sv_slavers sv) w1 = Inr w2" "\<forall>a \<in> set ?as. has_thread w2 a"
    "\<forall>b. b \<notin> set ?as \<longrightarrow> has_thread w1 b \<longrightarrow> has_thread w2 b"
    by (auto simp: dispatchers_def)
  then show ?thesis
    using w1(1,2) assms(2) by (simp add: TcpServer_listen_def dispatchers_def Let_def)
qed

text \<open>A server with two slavers.\<close>

definition new_server :: "(byte list, unit) tcp_server \<times> flag_base loops" where
  "new_server = snd (TcpServer_new (\<lambda>a. Some busy_base) () 7 2 loops_init)"

lemma new_server_eval:
  "map d_no (dispatchers (fst new_server)) = [7, 8, 9]" "startable [7, 8, 9] (snd new_server)"
  "sv_eventListener (fst new_server) = None" "sv_listeners (fst new_server) = []"
  by (simp_all add: new_server_def TcpServer_new_def TcpServer_setThreads_def Loop_new_def
      loops_init_def dispatchers_def TcpServerDispatcher_new_def startable_def upt_rec Let_def)

theorem server_listen_starts_all_witness:
  "\<exists>sv1 w1. TcpServer_listen Loop_hooks True 0 (fst new_server) (snd new_server) = Inr (True, sv1, w1)
    \<and> has_thread w1 7 \<and> has_thread w1 8 \<and> has_thread w1 9 \<and> length (sv_listeners sv1) = 1"
proof -
  have "distinct (map d_no (dispatchers (fst new_server)))" by (simp only: new_server_eval) simp
  moreover have "startable (map d_no (dispatchers (fst new_server))) (snd new_server)"
    by (simp only: new_server_eval)
  ultimately obtain sv1 w1 where ls: "TcpServer_listen Loop_hooks True 0 (fst new_server) (snd new_server)
      = Inr (True, sv1, w1)" "\<forall>d \<in> set (dispatchers (fst new_server)). has_thread w1 (d_no d)"
    "length (sv_listeners sv1) = 1"
    using server_listen_starts_all [of "fst new_server" "snd new_server" 0]
    by (auto simp: new_server_eval(4))
  then have "\<forall>a \<in> set (map d_no (dispatchers (fst new_server))). has_thread w1 a" by simp
  then show ?thesis using ls(1,3) by (simp only: new_server_eval) simp
qed

text \<open>A second \<open>listen\<close> fails because the master is already running, but first it overwrites
  the listener of the server: the new listener is freed, and the first one, which libevent
  still holds and which still accepts connections, is lost.\<close>

theorem server_second_listen_loses_listener:
  assumes "objs w (d_no (sv_master sv)) = Some l" and "l_status l \<noteq> StatusInit"
    and "sv_eventListener sv = Some n" and "n \<in> set (sv_listeners sv)"
  shows "\<exists>sv1. TcpServer_listen hk True t sv w = Inr (False, sv1, w)
    \<and> sv_eventListener sv1 = None \<and> n \<in> set (sv_listeners sv1)"
  using assms by (simp add: TcpServer_listen_def Loop_start_def Let_def)

theorem server_second_listen_loses_listener_witness:
  "\<exists>sv1. TcpServer_listen Loop_hooks True 0
      (fst new_server\<lparr>sv_eventListener := Some 0, sv_listeners := [0], sv_next_listener := 1\<rparr>)
      (set_loop 7 \<lparr>l_id = 1, l_base = Some busy_base, l_thread = Some 1, l_status = StatusRunning\<rparr>
        (snd new_server)) = Inr (False, sv1, set_loop 7 \<lparr>l_id = 1, l_base = Some busy_base,
          l_thread = Some 1, l_status = StatusRunning\<rparr> (snd new_server))
    \<and> 0 \<in> set (sv_listeners sv1)"
proof -
  let ?sv = "fst new_server\<lparr>sv_eventListener := Some 0, sv_listeners := [0], sv_next_listener := 1\<rparr>"
  let ?l = "\<lparr>l_id = 1, l_base = Some busy_base, l_thread = Some 1, l_status = StatusRunning\<rparr>"
  have "objs (set_loop 7 ?l (snd new_server)) (d_no (sv_master ?sv)) = Some ?l"
    using new_server_eval(1) by (simp add: set_loop_def dispatchers_def)
  from server_second_listen_loses_listener [OF this, of 0 Loop_hooks 0] show ?thesis
    by (auto simp: statuses)
qed

section \<open>Routing\<close>

definition dispatcher_at :: "('b, 'w) tcp_server \<Rightarrow> nat option \<Rightarrow> ('b, 'w) dispatcher" where
  "dispatcher_at sv k = (case k of None \<Rightarrow> sv_master sv | Some j \<Rightarrow> sv_slavers sv ! j)"

definition places :: "('b, 'w) tcp_server \<Rightarrow> nat option set" where
  "places sv = insert None (Some ` {..< length (sv_slavers sv)})"

lemma at_dispatcher_places [simp]:
  "places (at_dispatcher k f sv) = places sv"
  "length (sv_slavers (at_dispatcher k f sv)) = length (sv_slavers sv)"
  by (simp_all add: at_dispatcher_def places_def split: option.split)

lemma dispatcher_at_update:
  "k \<in> places sv \<Longrightarrow> dispatcher_at (at_dispatcher k f sv) j =
    (if j = k then f (dispatcher_at sv k) else dispatcher_at sv j)"
  by (auto simp: dispatcher_at_def at_dispatcher_def places_def nth_list_update split: option.splits)

lemma routing_update [simp]:
  "TcpServer_getSessionDispatcher (at_dispatcher k f sv) i = TcpServer_getSessionDispatcher sv i"
  by (auto simp: TcpServer_getSessionDispatcher_def at_dispatcher_def split: option.split)

text \<open>There are fewer than \<open>2 ^ 16\<close> slavers: \<open>setThreads\<close> takes a \<open>uint16_t\<close>.\<close>

lemma routing_in_places:
  assumes "length (sv_slavers sv) < 2 ^ 16"
  shows "TcpServer_getSessionDispatcher sv i \<in> places sv"
proof (cases "sv_slavers sv = []")
  case False
  have n: "unat (of_nat (length (sv_slavers sv)) :: session_id) = length (sv_slavers sv)"
    using assms by (simp add: unat_of_nat)
  have "unat (i mod of_nat (length (sv_slavers sv))) < length (sv_slavers sv)"
    using False by (simp add: unat_mod n)
  with False show ?thesis by (simp add: TcpServer_getSessionDispatcher_def places_def)
qed (simp add: TcpServer_getSessionDispatcher_def places_def)

text \<open>
  The life of a listening server: connections are accepted, sessions are removed by anyone, and
  each dispatcher works. The ids do not wrap around. The state has the id generator, the
  server, and the pointers the program holds to the sessions of each dispatcher.
\<close>

inductive server_step ::
    "'b evbuffer_api \<Rightarrow> ('b, 'w) server_code \<Rightarrow> (session_id \<Rightarrow> attach_env)
      \<Rightarrow> session_id \<times> ('b, 'w) tcp_server \<times> (nat option \<Rightarrow> addr \<Rightarrow> nat)
      \<Rightarrow> session_id \<times> ('b, 'w) tcp_server \<times> (nat option \<Rightarrow> addr \<Rightarrow> nat) \<Rightarrow> bool"
  for api :: "'b evbuffer_api" and code :: "('b, 'w) server_code"
    and env :: "session_id \<Rightarrow> attach_env" where
  accept: "gen \<noteq> - 1 \<Longrightarrow> TcpServer_listenEventCallback sock gen sv = (gen1, sv1) \<Longrightarrow>
    server_step api code env (gen, sv, held) (gen1, sv1, held)"
| remove: "k \<in> places sv \<Longrightarrow>
    server_step api code env (gen, sv, held)
      (gen, at_dispatcher k (TcpServerDispatcher_removeSession i) sv, held)"
| work: "k \<in> places sv \<Longrightarrow>
    dispatcher_work api code env (dispatcher_at sv k, held k) (d1, h1) \<Longrightarrow>
    server_step api code env (gen, sv, held) (gen, at_dispatcher k (\<lambda>d. d1) sv, held(k := h1))"

text \<open>It begins with a server whose dispatchers are new.\<close>

definition fresh_server :: "('b, 'w) tcp_server \<Rightarrow> bool" where
  "fresh_server sv \<longleftrightarrow> length (sv_slavers sv) < 2 ^ 16
   \<and> (\<forall>d \<in> set (dispatchers sv). \<exists>k w. d = TcpServerDispatcher_new k w)"

inductive server_reach ::
    "'b evbuffer_api \<Rightarrow> ('b, 'w) server_code \<Rightarrow> (session_id \<Rightarrow> attach_env)
      \<Rightarrow> session_id \<times> ('b, 'w) tcp_server \<times> (nat option \<Rightarrow> addr \<Rightarrow> nat) \<Rightarrow> bool"
  for api :: "'b evbuffer_api" and code :: "('b, 'w) server_code"
    and env :: "session_id \<Rightarrow> attach_env" where
  fresh: "fresh_server sv \<Longrightarrow> server_reach api code env (gen, sv, (\<lambda>k a. 0))"
| step: "server_reach api code env s \<Longrightarrow> server_step api code env s s1 \<Longrightarrow> server_reach api code env s1"

text \<open>
  Every dispatcher is in order and knows only ids that were given out and that are routed to
  it.
\<close>

definition server_ok ::
    "session_id \<times> ('b, 'w) tcp_server \<times> (nat option \<Rightarrow> addr \<Rightarrow> nat) \<Rightarrow> bool" where
  "server_ok s \<longleftrightarrow>
     (case s of (gen, sv, held) \<Rightarrow>
        length (sv_slavers sv) < 2 ^ 16
      \<and> (\<forall>k \<in> places sv. dispatcher_ok (dispatcher_at sv k) (held k)
          \<and> (\<forall>i \<in> known_ids (dispatcher_at sv k). i \<le> gen \<and> TcpServer_getSessionDispatcher sv i = k)))"

lemma server_okD:
  assumes "server_ok (gen, sv, held)" and "k \<in> places sv"
  shows "dispatcher_ok (dispatcher_at sv k) (held k)"
    and "i \<in> known_ids (dispatcher_at sv k) \<Longrightarrow> i \<le> gen \<and> TcpServer_getSessionDispatcher sv i = k"
  using assms by (simp_all add: server_ok_def)

lemma server_ok_fresh: "fresh_server sv \<Longrightarrow> server_ok (gen, sv, (\<lambda>k a. 0))"
proof -
  assume fresh: "fresh_server sv"
  have "\<exists>j w. dispatcher_at sv k = TcpServerDispatcher_new j w" if "k \<in> places sv" for k
  proof -
    have "dispatcher_at sv k \<in> set (dispatchers sv)"
      using that by (auto simp: places_def dispatcher_at_def dispatchers_def)
    with fresh show ?thesis by (simp add: fresh_server_def)
  qed
  then show ?thesis
    using fresh unfolding server_ok_def prod.case fresh_server_def
    by (metis dispatcher_ok_new known_ids_new empty_iff)
qed

text \<open>Replacing one dispatcher by one that knows no other ids keeps the invariant.\<close>

lemma server_ok_update:
  assumes ok: "server_ok (gen, sv, held)" and k: "k \<in> places sv" and gen: "gen \<le> gen1"
    and d: "dispatcher_ok (f (dispatcher_at sv k)) h"
    and ids: "\<And>i. i \<in> known_ids (f (dispatcher_at sv k)) \<Longrightarrow>
      i \<in> known_ids (dispatcher_at sv k) \<or> i \<le> gen1 \<and> TcpServer_getSessionDispatcher sv i = k"
  shows "server_ok (gen1, at_dispatcher k f sv, held(k := h))"
  unfolding server_ok_def prod.case
proof (intro conjI ballI)
  show "length (sv_slavers (at_dispatcher k f sv)) < 2 ^ 16" using ok by (simp add: server_ok_def)
next
  fix j assume "j \<in> places (at_dispatcher k f sv)"
  then have j: "j \<in> places sv" by simp
  note before = server_okD [OF ok j] server_okD [OF ok k]
  show "dispatcher_ok (dispatcher_at (at_dispatcher k f sv) j) ((held(k := h)) j)"
    using before d by (simp add: dispatcher_at_update [OF k])
  fix i assume "i \<in> known_ids (dispatcher_at (at_dispatcher k f sv) j)"
  then show "i \<le> gen1" "TcpServer_getSessionDispatcher (at_dispatcher k f sv) i = j"
    using before ids order_trans [OF _ gen] by (auto simp: dispatcher_at_update [OF k] split: if_splits)
qed

lemma server_step_ok:
  "server_step api code env s s1 \<Longrightarrow> server_code_ok code \<Longrightarrow> adds_nothing code \<Longrightarrow> server_ok s \<Longrightarrow>
    server_ok s1"
proof (induction rule: server_step.induct)
  case (accept gen sock sv gen1 sv1 held)
  let ?k = "TcpServer_getSessionDispatcher sv (gen + 1)"
  let ?f = "TcpServerDispatcher_addSession (gen + 1) sock"
  have k: "?k \<in> places sv" using accept.prems(3) by (intro routing_in_places) (simp add: server_ok_def)
  have "gen \<le> gen + 1" using accept.hyps(1) by (simp add: word_le_plus_one_iff)
  moreover have "dispatcher_ok (?f (dispatcher_at sv ?k)) (held ?k)"
    using do_call_ok [OF server_okD(1) [OF accept.prems(3) k], of "AddSession (gen + 1) sock"] by simp
  ultimately have "server_ok (gen + 1, at_dispatcher ?k ?f sv, held(?k := held ?k))"
    using known_ids_call(1) [of "gen + 1" sock] by (intro server_ok_update [OF accept.prems(3) k]) auto
  moreover have "gen1 = gen + 1" "sv1 = at_dispatcher ?k ?f sv"
    using accept.hyps(2) by (auto simp: TcpServer_listenEventCallback_def Let_def)
  ultimately show ?case by simp
next
  case (remove k sv gen held i)
  have "dispatcher_ok (TcpServerDispatcher_removeSession i (dispatcher_at sv k)) (held k)"
    using do_call_ok [OF server_okD(1) [OF remove.prems(3) remove.hyps], of "RemoveSession i"] by simp
  then have "server_ok (gen, at_dispatcher k (TcpServerDispatcher_removeSession i) sv, held(k := held k))"
    by (intro server_ok_update [OF remove.prems(3) remove.hyps]) (simp_all add: known_ids_call(2))
  then show ?case by simp
next
  case (work k sv held d1 h1 gen)
  have ok: "dispatcher_ok (dispatcher_at sv k) (held k)"
    by (rule server_okD [OF work.prems(3) work.hyps(1)])
  have "dispatcher_ok d1 h1"
    using dispatcher_work_ok [OF work.hyps(2) work.prems(1)] ok by simp
  moreover have "known_ids d1 \<subseteq> known_ids (dispatcher_at sv k)"
    using work_known_ids [OF work.hyps(2) work.prems(1,2)] ok by simp
  ultimately show ?case
    by (intro server_ok_update [OF work.prems(3) work.hyps(1)]) auto
qed

lemma server_reach_ok:
  "server_reach api code env s \<Longrightarrow> server_code_ok code \<Longrightarrow> adds_nothing code \<Longrightarrow> server_ok s"
  by (induction rule: server_reach.induct) (auto simp: server_ok_fresh dest: server_step_ok)

section \<open>Properties of routing\<close>

text \<open>C4: In every state a listening server reaches, whatever the order of accepting, frames,
  callbacks and removals, a session is in the table of the dispatcher that its id is routed to
  and of no other, its id was given out, and so the next id is new: no session is ever
  overwritten. The user's code is assumed not to add sessions itself, and the ids not to wrap.\<close>

theorem server_sessions_routed:
  assumes "server_reach api code env (gen, sv, held)" and "server_code_ok code" and "adds_nothing code"
    and "k \<in> places sv" and "d_sessions (dispatcher_at sv k) i = Some a"
  shows "TcpServer_getSessionDispatcher sv i = k \<and> i \<le> gen
    \<and> (gen \<noteq> - 1 \<longrightarrow> (\<forall>j \<in> places sv. d_sessions (dispatcher_at sv j) (gen + 1) = None))"
proof -
  have ok: "server_ok (gen, sv, held)" by (rule server_reach_ok [OF assms(1-3)])
  have "i \<in> known_ids (dispatcher_at sv k)" using assms(5) by (auto simp: known_ids_def)
  moreover have "d_sessions (dispatcher_at sv j) (gen + 1) = None" if j: "j \<in> places sv" and gen: "gen \<noteq> - 1" for j
  proof (rule ccontr)
    assume "d_sessions (dispatcher_at sv j) (gen + 1) \<noteq> None"
    then have "gen + 1 \<in> known_ids (dispatcher_at sv j)" by (auto simp: known_ids_def)
    then have "gen + 1 \<le> gen" using server_okD(2) [OF ok j] by blast
    moreover have "gen \<le> gen + 1" using gen by (simp add: word_le_plus_one_iff)
    ultimately show False by (metis add.right_neutral add_left_cancel order_antisym zero_neq_one)
  qed
  ultimately show ?thesis using server_okD(2) [OF ok assms(4)] by blast
qed

text \<open>The first connection of a server with two slavers goes to slaver 1.\<close>

theorem server_sessions_routed_witness:
  "\<exists>gen (sv :: (byte list, unit) tcp_server) held. server_reach list_api TcpServer_code all_attach (gen, sv, held)
    \<and> session_at (dispatcher_at sv (Some 1)) 1 = Some 10 \<and> TcpServer_getSessionDispatcher sv 1 = Some 1"
proof -
  let ?new = "TcpServerDispatcher_new :: nat \<Rightarrow> unit \<Rightarrow> (byte list, unit) dispatcher"
  let ?sv = "fst new_server"
  have sv: "sv_master ?sv = ?new 7 ()" "sv_slavers ?sv = [?new 8 (), ?new 9 ()]"
    by (simp_all add: new_server_def TcpServer_new_def TcpServer_setThreads_def Loop_new_def
        loops_init_def upt_rec Let_def)
  have "fresh_server ?sv" by (auto simp: fresh_server_def dispatchers_def sv)
  then have r0: "server_reach list_api TcpServer_code all_attach (0, ?sv, (\<lambda>k a. 0))"
    by (rule server_reach.fresh)
  let ?sv1 = "at_dispatcher (Some 1) (TcpServerDispatcher_addSession 1 10) ?sv"
  have "TcpServer_getSessionDispatcher ?sv 1 = Some 1"
    by (simp add: TcpServer_getSessionDispatcher_def sv unat_mod)
  then have "TcpServer_listenEventCallback 10 0 ?sv = (1, ?sv1)"
    by (simp add: TcpServer_listenEventCallback_def)
  from server_step.accept [OF _ this]
  have r1: "server_reach list_api TcpServer_code all_attach (1, ?sv1, (\<lambda>k a. 0))"
    by (intro server_reach.step [OF r0]) simp
  let ?d = "TcpServerDispatcher_addSession 1 10 (?new 9 ())"
  have place: "Some 1 \<in> places ?sv1" by (simp add: places_def sv)
  have at: "dispatcher_at ?sv1 (Some 1) = ?d" by (simp add: dispatcher_at_def at_dispatcher_def sv)
  have ok: "dispatcher_ok ?d (\<lambda>a. 0)"
    using do_call_ok [OF dispatcher_ok_new, of "AddSession 1 10"] by simp
  have acts: "d_actions ?d = [\<lparr>sa_id = 1, sa_sock = 10\<rparr>] @ []" "d_actions ?d \<noteq> []" "session_at ?d i = None" for i
    by (simp_all add: TcpServerDispatcher_addSession_def TcpServerDispatcher_new_def session_at_def)
  obtain d1 where d1: "on_frame_loop list_api TcpServer_code all_attach ?d = Some d1"
    "session_at d1 = fold (action_spec all_attach) [\<lparr>sa_id = 1, sa_sock = 10\<rparr>] (session_at ?d)"
    using on_frame_works_off [OF ok acts(1) _ TcpServer_code_ok TcpServer_code_removes, of list_api all_attach]
    by (auto simp: TcpServer_code_pushes simp del: fold_simps frame_pushes.simps)
  have session: "session_at d1 1 = Some 10"
    by (simp add: d1(2) action_spec_def all_attach_def attach_ok_def SOCKET_FD_INVALID_def)
  let ?sv2 = "at_dispatcher (Some 1) (\<lambda>d. d1) ?sv1"
  have "dispatcher_work list_api TcpServer_code all_attach (dispatcher_at ?sv1 (Some 1), (\<lambda>a. 0)) (d1, (\<lambda>a. 0))"
    unfolding at by (rule dispatcher_work.frame) (simp add: TcpServerDispatcher_onFrame_def acts(2) d1(1))
  then have "server_step list_api TcpServer_code all_attach (1, ?sv1, (\<lambda>k a. 0))
      (1, ?sv2, (\<lambda>k a. 0)(Some 1 := (\<lambda>a. 0)))"
    by (rule server_step.work [OF place])
  then have r2: "server_reach list_api TcpServer_code all_attach (1, ?sv2, (\<lambda>k a. 0)(Some 1 := (\<lambda>a. 0)))"
    by (rule server_reach.step [OF r1])
  have place2: "Some 1 \<in> places ?sv2" and at2: "dispatcher_at ?sv2 (Some 1) = d1"
    using place by (simp_all add: dispatcher_at_update)
  obtain a where "d_sessions d1 1 = Some a"
    using session by (auto simp: session_at_def split: option.splits)
  then have "d_sessions (dispatcher_at ?sv2 (Some 1)) 1 = Some a" by (simp only: at2)
  from server_sessions_routed [OF r2 TcpServer_code_ok TcpServer_code_adds_nothing place2 this]
  moreover have "session_at (dispatcher_at ?sv2 (Some 1)) 1 = Some 10" by (simp only: at2 session)
  ultimately show ?thesis using r2 by blast
qed

text \<open>Connections accepted one after another.\<close>

fun accept_all :: "int list \<Rightarrow> session_id \<Rightarrow> ('b, 'w) tcp_server \<Rightarrow> session_id \<times> ('b, 'w) tcp_server" where
  "accept_all [] gen sv = (gen, sv)"
| "accept_all (sock # socks) gen sv =
     (let (gen1, sv1) = TcpServer_listenEventCallback sock gen sv in accept_all socks gen1 sv1)"

text \<open>The additions that one of \<open>n\<close> slavers gets.\<close>

fun share :: "nat \<Rightarrow> nat \<Rightarrow> session_id \<Rightarrow> int list \<Rightarrow> session_action list" where
  "share n j gen [] = []"
| "share n j gen (sock # socks) =
     (if unat (gen + 1) mod n = j then [\<lparr>sa_id = gen + 1, sa_sock = sock\<rparr>] else [])
     @ share n j (gen + 1) socks"

lemma div_step:
  assumes n: "0 < n" "j < n"
  shows "(Suc m + n - 1 - j) div n = (m + n - 1 - j) div n + (if m mod n = j then 1 else (0 :: nat))"
proof -
  define k where "k = m + n - 1 - j"
  have k: "Suc m + n - 1 - j = Suc k" "Suc k = m + (n - j)" using n by (simp_all add: k_def)
  have "Suc k mod n = (m mod n + (n - j)) mod n" by (simp add: k(2) mod_add_left_eq)
  also have "\<dots> = 0 \<longleftrightarrow> m mod n = j"
  proof (cases "m mod n < j")
    case True
    then have "m mod n + (n - j) < n" using n by simp
    with True n show ?thesis by simp
  next
    case False
    have "m mod n < n" using n by simp
    then have "(m mod n - j) mod n = m mod n - j" by simp
    moreover have "m mod n + (n - j) = (m mod n - j) + n" using False n by simp
    ultimately have "(m mod n + (n - j)) mod n = m mod n - j" by (simp only: mod_add_self2)
    with False show ?thesis by auto
  qed
  finally have "Suc k mod n = 0 \<longleftrightarrow> m mod n = j" .
  then show ?thesis unfolding k(1) div_Suc k_def [symmetric] by simp
qed

lemma length_share:
  "0 < n \<Longrightarrow> j < n \<Longrightarrow> unat gen + length socks < 2 ^ 64 \<Longrightarrow>
    (unat gen + 1 + n - 1 - j) div n + length (share n j gen socks) =
      (unat gen + 1 + length socks + n - 1 - j) div n"
proof (induction socks arbitrary: gen)
  case Nil
  then show ?case by simp
next
  case (Cons sock socks)
  have u: "unat (gen + 1) = unat gen + 1"
    using Cons.prems(3) by (simp add: unat_word_ariths)
  let ?b = "if unat (gen + 1) mod n = j then 1 else 0 :: nat"
  have ih: "(unat (gen + 1) + 1 + n - 1 - j) div n + length (share n j (gen + 1) socks) =
      (unat (gen + 1) + 1 + length socks + n - 1 - j) div n"
    using Cons.IH [of "gen + 1"] Cons.prems u by simp
  have "(unat gen + 1 + n - 1 - j) div n + length (share n j gen (sock # socks)) =
      (unat gen + 1 + n - 1 - j) div n + ?b + length (share n j (gen + 1) socks)" by simp
  also have "(unat gen + 1 + n - 1 - j) div n + ?b = (unat (gen + 1) + 1 + n - 1 - j) div n"
    using div_step [of n j "unat gen + 1"] Cons.prems(1,2) u by simp
  also note ih
  also have "unat (gen + 1) + 1 + length socks = unat gen + 1 + length (sock # socks)"
    by (simp add: u)
  finally show ?case .
qed

text \<open>A slaver's queue grows by its share.\<close>

lemma accept_all_queues:
  "sv_slavers sv \<noteq> [] \<Longrightarrow> length (sv_slavers sv) < 2 ^ 16 \<Longrightarrow> j < length (sv_slavers sv) \<Longrightarrow>
    accept_all socks gen sv = (gen1, sv1) \<Longrightarrow>
    length (sv_slavers sv1) = length (sv_slavers sv)
    \<and> d_actions (sv_slavers sv1 ! j) =
        d_actions (sv_slavers sv ! j) @ share (length (sv_slavers sv)) j gen socks"
proof (induction socks arbitrary: gen sv)
  case Nil
  then show ?case by simp
next
  case (Cons sock socks)
  let ?n = "length (sv_slavers sv)"
  let ?k = "unat ((gen + 1) mod of_nat ?n)"
  obtain sv2 where step: "TcpServer_listenEventCallback sock gen sv = (gen + 1, sv2)"
    "sv2 = at_dispatcher (Some ?k) (TcpServerDispatcher_addSession (gen + 1) sock) sv"
    using Cons.prems(1)
    by (auto simp: TcpServer_listenEventCallback_def TcpServer_getSessionDispatcher_def Let_def)
  have u: "unat (of_nat ?n :: session_id) = ?n" using Cons.prems(2) by (simp add: unat_of_nat)
  have k: "?k = unat (gen + 1) mod ?n" by (simp add: unat_mod u)
  then have "?k < ?n" using Cons.prems(1) by simp
  then have here: "d_actions (sv_slavers sv2 ! j) = d_actions (sv_slavers sv ! j)
      @ (if unat (gen + 1) mod ?n = j then [\<lparr>sa_id = gen + 1, sa_sock = sock\<rparr>] else [])"
    using Cons.prems(3) k
    by (auto simp: step(2) at_dispatcher_def TcpServerDispatcher_addSession_def nth_list_update)
  have len: "length (sv_slavers sv2) = ?n" by (simp add: step(2))
  have "accept_all socks (gen + 1) sv2 = (gen1, sv1)" using Cons.prems(4) step(1) by simp
  moreover have "sv_slavers sv2 \<noteq> []" using len Cons.prems(1) by auto
  ultimately show ?case using Cons.IH [of sv2 "gen + 1"] len Cons.prems(2,3) here by auto
qed

text \<open>C28: The connections are distributed in turn: of \<open>k\<close> connections accepted in a row, each of
  \<open>n\<close> slavers is handed, in order, those whose id has its index as remainder, and these are
  \<open>k div n\<close> or one more.\<close>

theorem server_round_robin:
  assumes "sv_slavers sv \<noteq> []" and "length (sv_slavers sv) < 2 ^ 16" and "j < length (sv_slavers sv)"
    and "unat gen + length socks < 2 ^ 64" and "accept_all socks gen sv = (gen1, sv1)"
  shows "let n = length (sv_slavers sv) in
    d_actions (sv_slavers sv1 ! j) = d_actions (sv_slavers sv ! j) @ share n j gen socks
    \<and> length (share n j gen socks) \<in> {length socks div n, length socks div n + 1}"
proof -
  let ?n = "length (sv_slavers sv)" and ?k = "length socks"
  let ?a = "unat gen + 1 + ?n - 1 - j"
  have n: "0 < ?n" using assms(1) by simp
  have "unat gen + 1 + ?k + ?n - 1 - j = ?a + ?k" using assms(3) by simp
  with length_share [OF n assms(3,4)] have "?a div ?n + length (share ?n j gen socks) = (?a + ?k) div ?n"
    by simp
  moreover have "(?a + ?k) div ?n = ?a div ?n + ?k div ?n + (?a mod ?n + ?k mod ?n) div ?n"
    by (rule div_add1_eq)
  moreover have "(?a mod ?n + ?k mod ?n) div ?n \<le> 1"
  proof -
    have "?a mod ?n < ?n" "?k mod ?n < ?n" using n by simp_all
    then have "?a mod ?n + ?k mod ?n < 2 * ?n" by linarith
    then have "(?a mod ?n + ?k mod ?n) div ?n < 2" using n by (simp add: div_less_iff_less_mult)
    then show ?thesis by simp
  qed
  ultimately have "length (share ?n j gen socks) \<in> {?k div ?n, ?k div ?n + 1}" by auto
  with accept_all_queues [OF assms(1-3,5)] show ?thesis by (simp add: Let_def)
qed

theorem server_round_robin_witness:
  "let sv1 = snd (accept_all [10, 20, 30] 0 (fst new_server)) in
    length (d_actions (sv_slavers sv1 ! 0)) = 1 \<and> length (d_actions (sv_slavers sv1 ! 1)) = 2"
proof -
  let ?sv = "fst new_server"
  let ?r = "accept_all [10, 20, 30] 0 ?sv"
  have sv: "length (sv_slavers ?sv) = 2" "d_actions (sv_slavers ?sv ! 0) = []"
    "d_actions (sv_slavers ?sv ! Suc 0) = []"
    by (simp_all add: new_server_def TcpServer_new_def TcpServer_setThreads_def Loop_new_def
        loops_init_def upt_rec TcpServerDispatcher_new_def Let_def)
  then have "sv_slavers ?sv \<noteq> []" by auto
  note robin = server_round_robin [OF this, of _ 0 "[10, 20, 30]" "fst ?r" "snd ?r"]
  have "share 2 0 0 [10, 20, 30] = [\<lparr>sa_id = 2, sa_sock = 20\<rparr>]"
    "share 2 1 0 [10, 20, 30] = [\<lparr>sa_id = 1, sa_sock = 10\<rparr>, \<lparr>sa_id = 3, sa_sock = 30\<rparr>]"
    by simp_all
  then show ?thesis
    using robin [of 0] robin [of 1] by (simp add: sv Let_def del: share.simps accept_all.simps)
qed

section \<open>Destroying\<close>

text \<open>Other threads that do not make a loop at an address of a deleted one.\<close>

definition makes_no_loop :: "addr \<Rightarrow> ('l loops \<Rightarrow> 'l loops) \<Rightarrow> bool" where
  "makes_no_loop a f \<longleftrightarrow> (\<forall>w. objs w a = None \<longrightarrow> objs (f w) a = None)"

lemma loop_wait_none:
  "Loop_wait during b w = Some (Inr w1) \<Longrightarrow> objs w a = None \<Longrightarrow> makes_no_loop a during \<Longrightarrow>
    objs w1 a = None"
  by (auto simp: Loop_wait_def Loop_join_def makes_no_loop_def Let_def split: option.splits if_splits sum.splits)

lemma loop_stop_none:
  "Loop_stop api hk waiting b w = Inr w1 \<Longrightarrow> objs w a = None \<Longrightarrow> objs w1 a = None"
  by (auto simp: Loop_stop_def set_loop_def map_base_def Let_def split: option.splits if_splits)

lemma destroy_end_none:
  "Loop_destroy_end b w = Inr w1 \<Longrightarrow> objs w1 b = None \<and> (objs w a = None \<longrightarrow> objs w1 a = None)"
  by (auto simp: Loop_destroy_end_def Loop_unregister_def split: option.splits if_splits)

lemma loop_destroy_last:
  assumes "Loop_destroy api hk racing during b w = Some (Inr w1)"
  obtains w2 where "Loop_destroy_end b w2 = Inr w1"
    "objs w a = None \<Longrightarrow> makes_no_loop a racing \<Longrightarrow> makes_no_loop a during \<Longrightarrow> objs w2 a = None"
proof -
  obtain l where l: "objs w b = Some l" using assms by (auto simp: Loop_destroy_def split: option.splits)
  show thesis
  proof (cases "l_thread l")
    case None
    then show thesis using that [of w] assms l by (simp add: Loop_destroy_def)
  next
    case (Some t)
    from assms l Some obtain w0 where stop: "Loop_stop api hk True b w = Inr w0"
      by (simp add: Loop_destroy_def split: sum.splits)
    from assms l Some stop obtain w2 where wait: "Loop_wait during b (racing w0) = Some (Inr w2)"
      and last: "Loop_destroy_end b w2 = Inr w1"
      by (auto simp: Loop_destroy_def split: option.splits sum.splits)
    have "objs (racing w0) a = None" if "objs w a = None" "makes_no_loop a racing"
      using that loop_stop_none [OF stop] by (simp add: makes_no_loop_def)
    with last show thesis by (intro that) (use loop_wait_none [OF wait] in blast)+
  qed
qed

lemma loop_destroy_none:
  assumes "Loop_destroy api hk racing during b w = Some (Inr w1)"
  shows "objs w1 b = None"
    and "objs w a = None \<Longrightarrow> makes_no_loop a racing \<Longrightarrow> makes_no_loop a during \<Longrightarrow> objs w1 a = None"
proof -
  show "objs w1 b = None" using assms by (rule loop_destroy_last) (simp add: destroy_end_none)
next
  assume none: "objs w a = None" "makes_no_loop a racing" "makes_no_loop a during"
  from assms show "objs w1 a = None"
  proof (rule loop_destroy_last)
    fix w2 assume "Loop_destroy_end b w2 = Inr w1"
      and "objs w a = None \<Longrightarrow> makes_no_loop a racing \<Longrightarrow> makes_no_loop a during \<Longrightarrow> objs w2 a = None"
    then show ?thesis using none destroy_end_none by blast
  qed
qed

lemma delete_one_none:
  assumes "TcpServerDispatcher_destroy api hk remove between racing during k f d w = (d1, Some (Inr w1))"
  shows "objs w1 (d_no d) = None"
    and "objs w a = None \<Longrightarrow> makes_no_loop a between \<Longrightarrow> makes_no_loop a racing \<Longrightarrow> makes_no_loop a during
      \<Longrightarrow> objs w1 a = None"
proof -
  let ?w = "if t_event (frameTimer f) \<noteq> None then change_base remove (d_no d) w else w"
  have d: "Loop_destroy api hk racing during (d_no d) (between ?w) = Some (Inr w1)"
    using assms
    by (simp add: TcpServerDispatcher_destroy_def FrameLoop_destroy_def Let_def split: if_split_asm)
  show "objs w1 (d_no d) = None" by (rule loop_destroy_none(1) [OF d])
  assume a: "objs w a = None" "makes_no_loop a between" "makes_no_loop a racing" "makes_no_loop a during"
  then have "objs ?w a = None" by auto
  then show "objs w1 a = None"
    using loop_destroy_none(2) [OF d] a(2-4) by (simp add: makes_no_loop_def)
qed

lemma delete_all_none:
  "delete_all api hk remove between racing during ks frames ds w = (ds1, Some (Inr w1)) \<Longrightarrow> objs w a = None \<Longrightarrow>
    makes_no_loop a between \<Longrightarrow> makes_no_loop a racing \<Longrightarrow> makes_no_loop a during \<Longrightarrow> objs w1 a = None"
proof (induction ds arbitrary: w ds1)
  case Nil
  then show ?case by simp
next
  case (Cons d ds)
  then obtain d1 ds2 w2 where one: "TcpServerDispatcher_destroy api hk remove between racing during
      (ks (d_no d)) (frames (d_no d)) d w = (d1, Some (Inr w2))"
    and rest: "delete_all api hk remove between racing during ks frames ds w2 = (ds2, Some (Inr w1))"
    by (auto simp: apfst_def map_prod_def split: option.splits sum.splits prod.splits)
  have "objs w2 a = None" by (rule delete_one_none(2) [OF one Cons.prems(2-5)])
  with Cons.IH [OF rest] Cons.prems(3-5) show ?case by simp
qed

text \<open>A thread that runs on makes no loop.\<close>

lemma run_steps_make_no_loop: "makes_no_loop a (Loop_run_steps api hk t n)"
proof -
  have step: "Loop_run_step api hk t w = Some (Inr w1) \<Longrightarrow> objs w a = None \<Longrightarrow> objs w1 a = None" for w w1
    by (auto simp: Loop_run_step_def set_loop_def Let_def
        split: list.splits prod.splits option.splits run_pc.splits if_splits)
  have "objs w a = None \<Longrightarrow> objs (Loop_run_steps api hk t n w) a = None" for w
    by (induction n arbitrary: w) (auto split: option.split sum.split dest: step)
  then show ?thesis by (simp add: makes_no_loop_def)
qed

text \<open>C27: A server that listens cannot be destroyed well. Deleting its loops may end the program or
  not return; when it does, the destructor frees the listener, whose event base went with
  the master's loop.\<close>
theorem server_destroy_uses_freed_base:
  assumes "sv_eventListener sv = Some n"
    and "makes_no_loop (d_no (sv_master sv)) between" and "makes_no_loop (d_no (sv_master sv)) racing"
    and "makes_no_loop (d_no (sv_master sv)) during"
  shows "TcpServer_destroy api hk remove between racing during ks frames sv w =
    apsnd (map_option (\<lambda>r. case r of Inl err \<Rightarrow> Inl (LoopError err) | Inr w1 \<Rightarrow> Inl FreedBase))
      (delete_all api hk remove between racing during ks frames (dispatchers sv) w)"
proof -
  have base: "objs w2 (d_no (sv_master sv)) = None"
    if "delete_all api hk remove between racing during ks frames (dispatchers sv) w = (ds, Some (Inr w2))" for w2 ds
  proof -
    from that obtain d1 ds2 w3 where one: "TcpServerDispatcher_destroy api hk remove between racing during
        (ks (d_no (sv_master sv))) (frames (d_no (sv_master sv))) (sv_master sv) w = (d1, Some (Inr w3))"
      and rest: "delete_all api hk remove between racing during ks frames (sv_slavers sv) w3 = (ds2, Some (Inr w2))"
      by (auto simp: dispatchers_def apfst_def map_prod_def split: option.splits sum.splits prod.splits)
    show ?thesis by (rule delete_all_none [OF rest delete_one_none(1) [OF one] assms(2-4)])
  qed
  show ?thesis
    using assms(1) base by (auto simp: TcpServer_destroy_def split: prod.split option.split sum.split)
qed

theorem server_destroy_uses_freed_base_witness:
  "snd (TcpServer_destroy flag_api Loop_hooks id id id (Loop_run_steps flag_api Loop_hooks 1 4)
     (\<lambda>a. []) (\<lambda>a. FrameLoop_new :: unit frame_loop)
     \<lparr>sv_eventListener = Some 0, sv_listeners = [0], sv_next_listener = 1,
      sv_master = (TcpServerDispatcher_new 7 () :: (byte list, unit) dispatcher), sv_slavers = []\<rparr>
     (Loop_run_steps flag_api Loop_hooks 1 4 one_started)) = Some (Inl FreedBase)"
proof -
  let ?sv = "\<lparr>sv_eventListener = Some 0, sv_listeners = [0], sv_next_listener = 1,
      sv_master = TcpServerDispatcher_new 7 (), sv_slavers = []\<rparr> :: (byte list, unit) tcp_server"
  let ?w = "Loop_run_steps flag_api Loop_hooks 1 4 one_started"
  let ?l = "\<lparr>l_id = 1, l_base = Some busy_base, l_thread = Some 1, l_status = StatusRunning\<rparr>"
  have w: "objs ?w 7 = Some ?l" "1 \<in> joinable ?w" "calls ?w 1 = [(7, InLoop)]"
    by (simp_all add: eval_nat_numeral loop_eval)
  have id: "Loop_run_steps flag_api Loop_hooks 1 0 = id" by (simp add: fun_eq_iff)
  obtain w1 where "Loop_destroy flag_api Loop_hooks id (Loop_run_steps flag_api Loop_hooks 1 4) 7 ?w = Some (Inr w1)"
    using loop_destroy_live [OF flag_api_laws w(1) _ _ w(2) _ w(3), of busy_base 0 4]
    unfolding id by (auto simp: destroyed_after_def statuses)
  then have all: "snd (delete_all flag_api Loop_hooks id id id (Loop_run_steps flag_api Loop_hooks 1 4)
      (\<lambda>a. []) (\<lambda>a. FrameLoop_new :: unit frame_loop) (dispatchers ?sv) ?w) = Some (Inr w1)"
    by (simp add: dispatchers_def TcpServerDispatcher_destroy_def TcpServerDispatcher_new_def
        FrameLoop_destroy_def FrameLoop_new_def Timer_new_def Let_def)
  have "sv_eventListener ?sv = Some 0" "makes_no_loop (d_no (sv_master ?sv)) id"
    by (simp_all add: makes_no_loop_def)
  from server_destroy_uses_freed_base [where api = flag_api and hk = Loop_hooks and remove = id
      and ks = "\<lambda>a. []" and frames = "\<lambda>a. FrameLoop_new :: unit frame_loop" and w = ?w,
      OF this this(2) run_steps_make_no_loop]
  show ?thesis using all by simp
qed

end
