(* ===== verification/ServerEnd.thy ===== *)
theory ServerEnd
  imports TcpServer
begin

text \<open>
  What is left of a dispatcher's connections at its end. The theory composes the sessions, the
  frame timer and the loop.
\<close>

section \<open>Properties\<close>




end
