(* ===== verification/Logger.thy ===== *)
theory Logger
  imports Prelude
begin

text \<open>
  The logger (include/logger/logger.h, src/logger/logger.cpp): the levels, the class \<open>logger\<close> and
  the functions that go through \<open>active_logger\<close>. The two output streams hold the characters
  written to them; each call writes under the mutex, so a line is written as a whole.
\<close>

section \<open>Levels\<close>

datatype log_level = Error | Warn | Info | Debug

fun level_num :: "log_level \<Rightarrow> nat" where
  "level_num Error = 0"
| "level_num Warn = 1"
| "level_num Info = 2"
| "level_num Debug = 3"

lemma level_num_inj: "level_num a = level_num b \<longleftrightarrow> a = b"
  by (cases a; cases b) simp_all

instantiation log_level :: linorder
begin

definition less_eq_log_level :: "log_level \<Rightarrow> log_level \<Rightarrow> bool" where
  "less_eq_log_level a b \<longleftrightarrow> level_num a \<le> level_num b"

definition less_log_level :: "log_level \<Rightarrow> log_level \<Rightarrow> bool" where
  "less_log_level a b \<longleftrightarrow> level_num a < level_num b"

instance
  by standard (auto simp: less_eq_log_level_def less_log_level_def level_num_inj)

end

section \<open>Output\<close>

definition colour :: "char \<Rightarrow> char \<Rightarrow> char \<Rightarrow> string" where
  "colour mode tens units = [CHR 0x1B, CHR ''['', mode, CHR '';'', tens, units, CHR ''m'']"

definition black :: string where
  "black = colour CHR ''1'' CHR ''3'' CHR ''0''"

definition red :: string where
  "red = colour CHR ''1'' CHR ''3'' CHR ''1''"

definition yellow :: string where
  "yellow = colour CHR ''1'' CHR ''3'' CHR ''3''"

definition blue :: string where
  "blue = colour CHR ''1'' CHR ''3'' CHR ''4''"

definition normal :: string where
  "normal = colour CHR ''0'' CHR ''3'' CHR ''9''"

text \<open>What follows the level's name is the same for the four levels.\<close>

definition log_rest :: "string \<Rightarrow> nat \<Rightarrow> string \<Rightarrow> string" where
  "log_rest file line msg =
     normal @ ''] ['' @ file @ '':'' @ show_nat line @ ''] '' @ msg @ [CHR 0x0A]"

record logger =
  m_level :: log_level

record streams =
  cout :: string
  cerr :: string

definition logger_new :: "log_level \<Rightarrow> logger" where
  "logger_new level = \<lparr>m_level = level\<rparr>"

definition logger_set_log_level :: "log_level \<Rightarrow> logger \<Rightarrow> logger" where
  "logger_set_log_level level l = l\<lparr>m_level := level\<rparr>"

definition logger_debug :: "logger \<Rightarrow> string \<Rightarrow> string \<Rightarrow> nat \<Rightarrow> streams \<Rightarrow> streams" where
  "logger_debug l msg file line s =
     (if m_level l \<ge> Debug
      then s\<lparr>cout := cout s @ ''['' @ black @ ''DEBUG'' @ log_rest file line msg\<rparr> else s)"

definition logger_info :: "logger \<Rightarrow> string \<Rightarrow> string \<Rightarrow> nat \<Rightarrow> streams \<Rightarrow> streams" where
  "logger_info l msg file line s =
     (if m_level l \<ge> Info
      then s\<lparr>cout := cout s @ ''['' @ blue @ ''INFO '' @ log_rest file line msg\<rparr> else s)"

definition logger_warn :: "logger \<Rightarrow> string \<Rightarrow> string \<Rightarrow> nat \<Rightarrow> streams \<Rightarrow> streams" where
  "logger_warn l msg file line s =
     (if m_level l \<ge> Warn
      then s\<lparr>cout := cout s @ ''['' @ yellow @ ''WARN '' @ log_rest file line msg\<rparr> else s)"

definition logger_error :: "logger \<Rightarrow> string \<Rightarrow> string \<Rightarrow> nat \<Rightarrow> streams \<Rightarrow> streams" where
  "logger_error l msg file line s =
     (if m_level l \<ge> Error
      then s\<lparr>cerr := cerr s @ ''['' @ red @ ''ERROR'' @ log_rest file line msg\<rparr> else s)"

section \<open>The functions of the library\<close>

text \<open>
  \<open>active_logger\<close> may hold no logger; the program starts with one of level \<open>error\<close>. The
  state is the pointer and the two streams.
\<close>

definition active_logger_init :: "logger option" where
  "active_logger_init = Some (logger_new Error)"

datatype log_call = LogDebug string string nat | LogInfo string string nat | LogWarn string string nat
  | LogError string string nat | SetLevel log_level

fun log_step :: "log_call \<Rightarrow> logger option \<times> streams \<Rightarrow> logger option \<times> streams" where
  "log_step (LogDebug msg file line) (al, s) =
     (al, case al of None \<Rightarrow> s | Some l \<Rightarrow> logger_debug l msg file line s)"
| "log_step (LogInfo msg file line) (al, s) =
     (al, case al of None \<Rightarrow> s | Some l \<Rightarrow> logger_info l msg file line s)"
| "log_step (LogWarn msg file line) (al, s) =
     (al, case al of None \<Rightarrow> s | Some l \<Rightarrow> logger_warn l msg file line s)"
| "log_step (LogError msg file line) (al, s) =
     (al, case al of None \<Rightarrow> s | Some l \<Rightarrow> logger_error l msg file line s)"
| "log_step (SetLevel level) (al, s) = (map_option (logger_set_log_level level) al, s)"

text \<open>
  The macro \<open>__LOG\<close> at a line of a function: it puts the function's name before the message. The
  first argument is the name of one of the functions above.
\<close>

definition LOG ::
    "(string \<Rightarrow> string \<Rightarrow> nat \<Rightarrow> log_call) \<Rightarrow> string \<Rightarrow> string \<Rightarrow> nat \<Rightarrow> string \<Rightarrow> log_call" where
  "LOG level func file line msg = level (''[fuction:'' @ func @ ''] '' @ msg) file line"

section \<open>What is printed\<close>

text \<open>A message: its level (\<open>None\<close> for a call that prints nothing) and the line it makes.\<close>

fun call_level :: "log_call \<Rightarrow> log_level option" where
  "call_level (LogDebug msg file line) = Some Debug"
| "call_level (LogInfo msg file line) = Some Info"
| "call_level (LogWarn msg file line) = Some Warn"
| "call_level (LogError msg file line) = Some Error"
| "call_level (SetLevel level) = None"

fun call_line :: "log_call \<Rightarrow> string" where
  "call_line (LogDebug msg file line) = ''['' @ black @ ''DEBUG'' @ log_rest file line msg"
| "call_line (LogInfo msg file line) = ''['' @ blue @ ''INFO '' @ log_rest file line msg"
| "call_line (LogWarn msg file line) = ''['' @ yellow @ ''WARN '' @ log_rest file line msg"
| "call_line (LogError msg file line) = ''['' @ red @ ''ERROR'' @ log_rest file line msg"
| "call_line (SetLevel level) = []"

text \<open>The level in force after some calls: the one set last, \<open>error\<close> at first.\<close>

fun level_step :: "log_level \<Rightarrow> log_call \<Rightarrow> log_level" where
  "level_step l (SetLevel m) = m"
| "level_step l _ = l"

definition level_after :: "log_call list \<Rightarrow> log_level" where
  "level_after cs = foldl level_step Error cs"

text \<open>The calls whose message is printed, with the calls before them to fix the level.\<close>

fun printed :: "log_call list \<Rightarrow> log_call list \<Rightarrow> log_call list" where
  "printed before [] = []"
| "printed before (c # cs) =
     (case call_level c of
        Some k \<Rightarrow> if k \<le> level_after before then [c] else []
      | None \<Rightarrow> []) @ printed (before @ [c]) cs"

lemma Error_least [simp]: "Error \<le> l"
  by (simp add: less_eq_log_level_def)

lemma log_run:
  "fold log_step cs (Some (logger_new (level_after before)), s) =
     (Some (logger_new (level_after (before @ cs))),
      s\<lparr>cout := cout s @ concat (map call_line (filter (\<lambda>c. call_level c \<noteq> Some Error) (printed before cs))),
        cerr := cerr s @ concat (map call_line (filter (\<lambda>c. call_level c = Some Error) (printed before cs)))\<rparr>)"
proof (induction cs arbitrary: before s)
  case Nil
  then show ?case by simp
next
  case (Cons c cs)
  have level: "level_after (b @ [x]) = level_step (level_after b) x" for b x
    by (simp add: level_after_def)
  show ?case
    using Cons.IH [of "before @ [c]"]
    by (cases c) (simp_all add: level logger_debug_def logger_info_def logger_warn_def
        logger_error_def logger_new_def logger_set_log_level_def)
qed

text \<open>C32: Through the functions of the library, standard output and standard error get exactly the
  lines of the messages whose level is at most the level in force when they were logged, whole
  and in order: error messages, which are always printed, on standard error, the others on
  standard output.\<close>
theorem log_output_exact:
  "snd (fold log_step cs (active_logger_init, \<lparr>cout = [], cerr = []\<rparr>)) =
     \<lparr>cout = concat (map call_line (filter (\<lambda>c. call_level c \<noteq> Some Error) (printed [] cs))),
      cerr = concat (map call_line (filter (\<lambda>c. call_level c = Some Error) cs))\<rparr>"
proof -
  have errors: "filter (\<lambda>c. call_level c = Some Error) (printed before cs) =
      filter (\<lambda>c. call_level c = Some Error) cs" for before
    by (induction cs arbitrary: before) (auto split: option.split)
  have start: "active_logger_init = Some (logger_new (level_after []))"
    by (simp add: active_logger_init_def level_after_def)
  show ?thesis unfolding start log_run by (simp add: errors)
qed

end
