(* ===== verification/TimedLoop.thy ===== *)
theory TimedLoop
  imports FrameLoop
begin

text \<open>
  A loop at work with a timer: the thread in \<open>_run\<close> calls the timer's \<open>eventHandler\<close> at each
  timeout, until the event loop returns because it was told to stop or because no event is left.
  The theory composes \<open>Timer\<close> and \<open>Event_Loop\<close>.
\<close>

section \<open>A thread in its event loop\<close>

definition in_event_loop :: "addr \<Rightarrow> tid \<Rightarrow> 'b \<Rightarrow> 'b loops \<Rightarrow> bool" where
  "in_event_loop a n b w \<longleftrightarrow> calls w n = [(a, InLoop)] \<and> n \<in> joinable w
     \<and> (\<exists>l. objs w a = Some l \<and> l_thread l = Some n \<and> l_status l = StatusRunning \<and> l_base l = Some b)"

definition run_ended :: "addr \<Rightarrow> tid \<Rightarrow> 'b loops \<Rightarrow> bool" where
  "run_ended a n w \<longleftrightarrow> calls w n = [] \<and> n \<in> joinable w
     \<and> (\<exists>l. objs w a = Some l \<and> l_thread l = Some n \<and> l_status l = StatusFinished)"

lemma loop_enters:
  assumes "objs w a = Some l" and "l_status l = StatusInit" and "l_base l = Some b"
  obtains w1 where "Loop_start Loop_hooks True m a w = Inr (True, w1)"
    "l_status (the (objs w1 a)) = StatusInit" "l_thread (the (objs w1 a)) = Some (next_tid w)" "a \<in> dom (objs w1)"
    "in_event_loop a (next_tid w) (event_base_loop_enter api b) (Loop_run_steps api Loop_hooks (next_tid w) 4 w1)"
  using assms
  by (simp add: Loop_start_def Loop_hooks_def in_event_loop_def eval_nat_numeral Loop_run_step_def
      set_loop_def map_base_def Let_def)

lemma loop_leaves:
  "in_event_loop a n b w \<Longrightarrow> event_base_loop_returns api b \<Longrightarrow>
    run_ended a n (Loop_run_steps api Loop_hooks n 4 w)"
  by (auto simp: in_event_loop_def run_ended_def eval_nat_numeral Loop_run_step_def set_loop_def
      map_base_def Loop_hooks_def Let_def)

lemma loop_stays:
  "in_event_loop a n b w \<Longrightarrow> \<not> event_base_loop_returns api b \<Longrightarrow> Loop_run_steps api hk n k w = w"
  by (cases k) (auto simp: in_event_loop_def Loop_run_step_def)

lemma in_loop_changed: "in_event_loop a n b w \<Longrightarrow> in_event_loop a n (f b) (change_base f a w)"
  by (auto simp: in_event_loop_def)

lemma in_loop_stopped:
  assumes "in_event_loop a n b w"
  obtains w1 where "Loop_stop api Loop_hooks True a w = Inr w1"
    "in_event_loop a n (event_base_loopexit api b) w1"
  using assms by (auto simp: in_event_loop_def Loop_stop_def Loop_hooks_def statuses)

text \<open>After the run \<open>wait\<close>, called before its end, joins the thread, and the destructor is safe.\<close>

lemma waited_for:
  assumes "objs w a = Some l" and "l_thread l = Some n" and "l_status l \<noteq> StatusFinished"
    and "run_ended a n w1" and "leaves_alone a n racing"
  obtains w2 where "Loop_wait (\<lambda>_. w1) a w = Some (Inr w2)" "n \<notin> joinable w2"
    "\<exists>w3. Loop_destroy api hk racing during a w2 = Some (Inr w3) \<and> objs w3 a = None"
proof
  let ?w = "w1\<lparr>joinable := joinable w1 - {n}\<rparr>"
  show "Loop_wait (\<lambda>_. w1) a w = Some (Inr ?w)" "n \<notin> joinable ?w"
    using assms by (auto simp: Loop_wait_def Loop_join_def run_ended_def)
  show "\<exists>w3. Loop_destroy api hk racing during a ?w = Some (Inr w3) \<and> objs w3 a = None"
    using assms(4,5) by (auto simp: run_ended_def leaves_alone_def Loop_destroy_def Loop_stop_def Loop_wait_def
        Loop_destroy_end_def Loop_unregister_def)
qed

section \<open>The timeouts\<close>

text \<open>
  \<open>arm p\<close> is libevent's event base after the event of the timer was added to it or taken out, and
  \<open>quiet\<close> says that nobody has asked it to stop. The documentation of \<open>event_base_loop\<close>: it goes
  on while there is an event and no such request, and returns otherwise.
\<close>

definition timer_base_laws :: "'b event_base_api \<Rightarrow> (bool \<Rightarrow> 'b \<Rightarrow> 'b) \<Rightarrow> ('b \<Rightarrow> bool) \<Rightarrow> bool" where
  "timer_base_laws api arm quiet \<longleftrightarrow>
     (\<forall>b p. quiet b \<longrightarrow> quiet (arm p b)) \<and> (\<forall>b. quiet b \<longrightarrow> quiet (event_base_loop_enter api b))
   \<and> (\<forall>b p. event_base_loop_enter api (arm p b) = arm p (event_base_loop_enter api b))
   \<and> (\<forall>b p. event_base_loop_returns api (arm p b) \<longleftrightarrow> \<not> (p \<and> quiet b))
   \<and> (\<forall>b. \<not> quiet (event_base_loopexit api b))"

definition arm_flag :: "bool \<Rightarrow> flag_base \<Rightarrow> flag_base" where
  "arm_flag p b = b\<lparr>fb_events := (if p then 1 else 0)\<rparr>"

lemma flag_api_timer_laws: "timer_base_laws flag_api arm_flag (\<lambda>b. \<not> fb_exit b \<and> \<not> fb_break b)"
  by (simp add: timer_base_laws_def flag_api_def arm_flag_def)

definition loop_over :: "'b event_base_api \<Rightarrow> addr \<Rightarrow> 'b loops \<Rightarrow> bool" where
  "loop_over api a w =
     (case objs w a of
        None \<Rightarrow> True
      | Some l \<Rightarrow> (case l_base l of None \<Rightarrow> True | Some b \<Rightarrow> event_base_loop_returns api b))"

text \<open>The timeouts \<open>es\<close> at the loop at \<open>a\<close>; the handler may act on the loops, and stop this one.\<close>

fun loop_timeouts ::
    "'b event_base_api \<Rightarrow> (bool \<Rightarrow> 'b \<Rightarrow> 'b) \<Rightarrow> ('u, 'x \<times> 'b loops) user_code \<Rightarrow> addr \<Rightarrow> event_env list
      \<Rightarrow> 'u timer \<Rightarrow> 'x \<times> 'b loops \<Rightarrow> timer_error + 'u timer \<times> 'x \<times> 'b loops" where
  "loop_timeouts api arm uc a [] t s = Inr (t, s)"
| "loop_timeouts api arm uc a (e # es) t s =
     (if loop_over api a (snd s) then Inr (t, s)
      else (case Timer_eventHandler uc e t s of
              Inl err \<Rightarrow> Inl err
            | Inr (t1, x, w) \<Rightarrow>
                loop_timeouts api arm uc a es t1 (x, change_base (arm (Timer_pending t1)) a w)))"

lemma loop_over_in: "in_event_loop a n b w \<Longrightarrow> loop_over api a w = event_base_loop_returns api b"
  by (auto simp: in_event_loop_def loop_over_def)

lemma timeouts_over: "loop_over api a (snd s) \<Longrightarrow> loop_timeouts api arm uc a es t s = Inr (t, s)"
  by (cases es) simp_all

lemma timeout_armed:
  assumes laws: "timer_base_laws api arm quiet" and "quiet b" and "in_event_loop a n (arm True b) w"
    and "armed t"
  shows "loop_timeouts api arm uc a (e # es) t (x, w) =
    (case call_handler uc e (t_handler t) (timer_tick t) (x, w) of
       Inl err \<Rightarrow> Inl err
     | Inr (t1, x1, w1) \<Rightarrow>
         loop_timeouts api arm uc a es t1 (x1, change_base (arm (Timer_pending t1)) a w1))"
proof -
  have "\<not> loop_over api a w"
    using laws assms(2) by (simp add: loop_over_in [OF assms(3)] timer_base_laws_def)
  then show ?thesis using assms(4) by (simp add: eventHandler_tick armed_def)
qed

text \<open>A handler that leaves the timer and the loops alone: the loop lasts as long as the rounds.\<close>

lemma timeouts_counted:
  assumes laws: "timer_base_laws api arm quiet" and keeps: "user_keeps uc u (map_prod g id)"
  shows "armed t \<Longrightarrow> t_handler t = UserHandler u \<Longrightarrow> quiet b \<Longrightarrow> in_event_loop a n (arm True b) w \<Longrightarrow>
    \<exists>t1 w1 b1. loop_timeouts api arm uc a es t (x, w) =
        Inr (t1, (g ^^ min (length es) (rounds_left t)) x, w1)
      \<and> quiet b1 \<and> in_event_loop a n (arm (length es < rounds_left t) b1) w1"
proof (induction es arbitrary: t w b x)
  case Nil
  then show ?case using rounds_left_pos [OF Nil(1)] by auto
next
  case (Cons e es)
  have call: "call_handler uc e (t_handler t) (timer_tick t) (x, w) = Inr (timer_tick t, g x, w)"
    using keeps Cons.prems(2) by (simp add: user_keeps_def)
  let ?t = "timer_tick t" and ?p = "Timer_pending (timer_tick t)"
  let ?w = "change_base (arm ?p) a w" and ?b = "arm True b"
  have step: "loop_timeouts api arm uc a (e # es) t (x, w) = loop_timeouts api arm uc a es ?t (g x, ?w)"
    using timeout_armed [OF laws Cons.prems(3,4,1), of uc e es x] call by simp
  have at: "in_event_loop a n (arm ?p ?b) ?w" by (rule in_loop_changed [OF Cons.prems(4)])
  have quiet: "quiet ?b" using laws Cons.prems(3) by (simp add: timer_base_laws_def)
  show ?case
  proof (cases "rounds_left t = 1")
    case True
    then have p: "\<not> ?p" using tick_last [OF Cons.prems(1) True] by (simp add: run_out_def Timer_pending_def)
    have "event_base_loop_returns api (arm ?p ?b)" using laws p by (simp add: timer_base_laws_def)
    then have "loop_timeouts api arm uc a es ?t (g x, ?w) = Inr (?t, g x, ?w)"
      by (intro timeouts_over) (simp add: loop_over_in [OF at])
    with step at quiet p True show ?thesis by auto
  next
    case False
    note more = tick_more [OF Cons.prems(1) False]
    have "?p" using more(2) by (rule armed_pending)
    with at have "in_event_loop a n (arm True ?b) ?w" by simp
    moreover have "t_handler ?t = UserHandler u" using Cons.prems(2) by (simp add: more(1))
    ultimately obtain t1 w1 b1 where
      "loop_timeouts api arm uc a es ?t (g x, ?w) = Inr (t1, (g ^^ min (length es) (rounds_left t - 1)) (g x), w1)"
      "quiet b1" "in_event_loop a n (arm (length es < rounds_left t - 1) b1) w1"
      using Cons.IH [OF more(2) _ quiet, of ?w "g x"] more(3) by auto
    moreover have "min (length (e # es)) (rounds_left t) = Suc (min (length es) (rounds_left t - 1))"
      "length es < rounds_left t - 1 \<longleftrightarrow> length (e # es) < rounds_left t"
      using rounds_left_pos [OF Cons.prems(1)] by auto
    ultimately show ?thesis by (auto simp: step funpow_swap1 simp del: loop_timeouts.simps)
  qed
qed

section \<open>Properties\<close>

text \<open>C14: A loop ends by itself when no event is left: with a timer for \<open>r\<close> rounds as its only event,
  the thread of the loop stays in the event loop for the first rounds; with the last one the
  thread runs to the end of \<open>_run\<close>. The handler has been called once per round.\<close>
theorem loop_ends_with_its_timer:
  assumes "timer_base_laws api arm quiet" and "quiet b"
    and "objs w a = Some l" and "l_status l = StatusInit" and "l_base l = Some b"
    and "Timer_startRounds e i r (UserHandler u) Timer_new = (True, t)"
    and "user_keeps uc u (map_prod g id)"
  shows "\<exists>w1 t2 w3. Loop_start Loop_hooks True m a (change_base (arm True) a w) = Inr (True, w1)
    \<and> loop_timeouts api arm uc a es t (x, Loop_run_steps api Loop_hooks (next_tid w) 4 w1) =
        Inr (t2, (g ^^ min (length es) (max 1 (unat r))) x, w3)
    \<and> (let w4 = Loop_run_steps api Loop_hooks (next_tid w) 4 w3
       in if length es < max 1 (unat r) then calls w4 (next_tid w) = [(a, InLoop)]
          else calls w4 (next_tid w) = [] \<and> map_option l_status (objs w4 a) = Some StatusFinished)"
proof -
  let ?w = "change_base (arm True) a w" and ?n = "next_tid w"
  have "objs ?w a = Some (map_base (arm True) l)" "next_tid ?w = ?n"
    using assms(3) by (simp_all add: change_base_def set_loop_def)
  moreover have "l_status (map_base (arm True) l) = StatusInit" "l_base (map_base (arm True) l) = Some (arm True b)"
    using assms(4,5) by simp_all
  ultimately obtain w1 where start: "Loop_start Loop_hooks True m a ?w = Inr (True, w1)"
    and "in_event_loop a ?n (event_base_loop_enter api (arm True b)) (Loop_run_steps api Loop_hooks ?n 4 w1)"
    by (metis loop_enters)
  then have at: "in_event_loop a ?n (arm True (event_base_loop_enter api b)) (Loop_run_steps api Loop_hooks ?n 4 w1)"
    using assms(1) by (simp add: timer_base_laws_def)
  have "quiet (event_base_loop_enter api b)" using assms(1,2) by (simp add: timer_base_laws_def)
  from timeouts_counted [OF assms(1,7) started_armed(1,2) [OF assms(6)] this at, of es x]
  obtain t1 w3 b1 where run: "loop_timeouts api arm uc a es t (x, Loop_run_steps api Loop_hooks ?n 4 w1) =
      Inr (t1, (g ^^ min (length es) (max 1 (unat r))) x, w3)"
    and b1: "quiet b1" "in_event_loop a ?n (arm (length es < max 1 (unat r)) b1) w3"
    by (auto simp: started_armed(5) [OF assms(6)])
  have "event_base_loop_returns api (arm (length es < max 1 (unat r)) b1) \<longleftrightarrow> \<not> length es < max 1 (unat r)"
    using assms(1) b1(1) by (simp add: timer_base_laws_def)
  then have "if length es < max 1 (unat r) then calls (Loop_run_steps api Loop_hooks ?n 4 w3) ?n = [(a, InLoop)]
      else run_ended a ?n (Loop_run_steps api Loop_hooks ?n 4 w3)"
    using loop_leaves [OF b1(2)] loop_stays [OF b1(2)] b1(2) by (auto simp: in_event_loop_def)
  then show ?thesis
    using start run by (auto simp: run_ended_def Let_def split: if_splits)
qed

theorem loop_ends_with_its_timer_witness:
  "\<exists>w1 t t2 w3. Loop_start Loop_hooks True 0 7 (change_base (arm_flag True) 7 one_loop) = Inr (True, w1)
    \<and> loop_timeouts flag_api arm_flag
        \<lparr>call_user = (\<lambda>(u :: unit) t (x, w). (t, Suc x, w)), call_cb = (\<lambda>c p n t w. (0, t, w))\<rparr> 7 [good_env, good_env] t
        (0, Loop_run_steps flag_api Loop_hooks 1 4 w1) = Inr (t2, 2, w3)
    \<and> calls (Loop_run_steps flag_api Loop_hooks 1 4 w3) 1 = []"
proof -
  let ?uc = "\<lparr>call_user = (\<lambda>u t (x, w). (t, Suc x, w)), call_cb = (\<lambda>c p n t w. (0, t, w))\<rparr>
    :: (unit, nat \<times> flag_base loops) user_code"
  obtain t where t: "Timer_startRounds good_env 10 2 (UserHandler ()) Timer_new = (True, t)"
    using start_new_timer by blast
  have w: "objs one_loop 7 = Some \<lparr>l_id = 1, l_base = Some busy_base, l_thread = None, l_status = StatusInit\<rparr>"
    "next_tid one_loop = 1" by (simp_all add: loop_eval)
  have quiet: "\<not> fb_exit busy_base \<and> \<not> fb_break busy_base" by (simp add: busy_base_def)
  have keeps: "user_keeps ?uc () (map_prod Suc id)" by (auto simp: user_keeps_def)
  have two: "max 1 (unat (2 :: u64)) = 2" "length [good_env, good_env] = 2" "(Suc ^^ min 2 2) 0 = 2"
    by (simp, simp, simp add: numeral_2_eq_2)
  have l: "l_status \<lparr>l_id = 1, l_base = Some busy_base, l_thread = None, l_status = StatusInit\<rparr> = StatusInit"
    "l_base \<lparr>l_id = 1, l_base = Some busy_base, l_thread = None, l_status = StatusInit\<rparr> = Some busy_base"
    by simp_all
  show ?thesis
    using loop_ends_with_its_timer [OF flag_api_timer_laws quiet w(1) l t keeps, of 0 "[good_env, good_env]" 0]
    unfolding two w(2) Let_def if_not_P [OF less_irrefl] by blast
qed

end
