(* ===== verification/ChainExample.thy ===== *)
theory ChainExample
  imports TimedLoop
begin

text \<open>
  The timer example (example/timerExample.cpp): a loop with one timer, whose handlers start it again
  and, in the end, stop the loop; \<open>timerExample()\<close> from the construction of the server to its end.
\<close>

section \<open>The server\<close>

text \<open>The lambda of \<open>start\<close> and \<open>tick\<close>; what they print, and an error of \<open>stop\<close>.\<close>

datatype timer_example = AfterLambda | Tick

datatype timer_line = BeforeStart | AfterRound u64 | RoundBegin u64

record timer_world =
  tw_out :: "timer_line list"
  tw_error :: "loop_error option"

definition ExampleTimerServer_stop ::
    "'b event_base_api \<Rightarrow> addr \<Rightarrow> timer_world \<times> 'b loops \<Rightarrow> timer_world \<times> 'b loops" where
  "ExampleTimerServer_stop api a s =
     (case Loop_stop api Loop_hooks True a (snd s) of
        Inl err \<Rightarrow> ((fst s)\<lparr>tw_error := Some err\<rparr>, snd s)
      | Inr w \<Rightarrow> (fst s, w))"

definition ExampleTimerServer_tick ::
    "'b event_base_api \<Rightarrow> addr \<Rightarrow> timer_example timer \<Rightarrow> timer_world \<times> 'b loops \<Rightarrow> timer_world \<times> 'b loops" where
  "ExampleTimerServer_tick api a t s =
     (let round = Timer_curRound t;
          s1 = ((fst s)\<lparr>tw_out := tw_out (fst s) @ [RoundBegin round]\<rparr>, snd s)
      in if Timer_isFinished t then ExampleTimerServer_stop api a s1 else s1)"

text \<open>\<open>e\<close> is what libevent answers to the start within the lambda.\<close>

definition ExampleTimerServer_after ::
    "event_env \<Rightarrow> timer_example timer \<Rightarrow> timer_world \<times> 'b loops
      \<Rightarrow> timer_example timer \<times> timer_world \<times> 'b loops" where
  "ExampleTimerServer_after e t s =
     (let s1 = ((fst s)\<lparr>tw_out := tw_out (fst s) @ [AfterRound (Timer_curRound t)]\<rparr>, snd s)
      in if Timer_isFinished t
         then (snd (Timer_startRounds e 1000 5 (UserHandler Tick) t), s1)
         else (t, s1))"

definition ExampleTimerServer_code ::
    "'b event_base_api \<Rightarrow> addr \<Rightarrow> event_env \<Rightarrow> (timer_example, timer_world \<times> 'b loops) user_code" where
  "ExampleTimerServer_code api a e =
     \<lparr>call_user = (\<lambda>u t s. case u of AfterLambda \<Rightarrow> ExampleTimerServer_after e t s
        | Tick \<Rightarrow> (t, ExampleTimerServer_tick api a t s)),
      call_cb = (\<lambda>c p n t s. (0, t, s))\<rparr>"

text \<open>
  \<open>start\<close>, by thread \<open>m\<close>: the timer is started, then the loop, in a thread of its own; \<open>wait\<close> is
  called before that thread has ended (the first timeout is a second away). In the meantime the
  thread enters the event loop, has the timeouts \<open>es\<close>, and goes on with \<open>_run\<close>. An exception of a
  handler leaves the thread, which ends the program.
\<close>

definition ExampleTimerServer_start ::
    "'b event_base_api \<Rightarrow> (bool \<Rightarrow> 'b \<Rightarrow> 'b) \<Rightarrow> event_env \<Rightarrow> event_env list \<Rightarrow> addr \<Rightarrow> tid
      \<Rightarrow> timer_example timer \<Rightarrow> 'b loops
      \<Rightarrow> (loop_error + timer_world \<times> timer_example timer \<times> 'b loops) option" where
  "ExampleTimerServer_start api arm e es a m t w =
     (let (r, t1) = Timer_startAfter e 1000 100 2 (UserHandler AfterLambda) t;
          w1 = (if Timer_pending t1 then change_base (arm True) a w else w);
          x = \<lparr>tw_out = [BeforeStart], tw_error = None\<rparr>;
          n = next_tid w1
      in case Loop_start Loop_hooks True m a w1 of
           Inl err \<Rightarrow> Some (Inl err)
         | Inr (r, w2) \<Rightarrow>
             (case loop_timeouts api arm (ExampleTimerServer_code api a e) a es t1
                     (x, Loop_run_steps api Loop_hooks n 4 w2) of
                Inl BadFunctionCall \<Rightarrow> Some (Inl Terminate)
              | Inr (t2, x1, w3) \<Rightarrow>
                  map_option (map_sum id (\<lambda>w4. (x1, t2, w4)))
                    (Loop_wait (\<lambda>_. Loop_run_steps api Loop_hooks n 4 w3) a w2)))"

text \<open>\<open>timerExample()\<close>, which makes the server at \<open>a\<close> on its first use.\<close>

definition timerExample ::
    "'b event_base_api \<Rightarrow> (bool \<Rightarrow> 'b \<Rightarrow> 'b) \<Rightarrow> event_env \<Rightarrow> event_env list \<Rightarrow> addr \<Rightarrow> tid \<Rightarrow> 'b option
      \<Rightarrow> 'b loops \<Rightarrow> (loop_error + timer_world \<times> timer_example timer \<times> 'b loops) option" where
  "timerExample api arm e es a m base w =
     (case Loop_new a base w of
        (Some err, w1) \<Rightarrow> Some (Inl err)
      | (None, w1) \<Rightarrow> ExampleTimerServer_start api arm e es a m Timer_new w1)"

section \<open>The chain\<close>

text \<open>A timer of the chain.\<close>

definition chained :: "u32 \<Rightarrow> u64 \<Rightarrow> u64 \<Rightarrow> timer_example handler \<Rightarrow> timer_example timer" where
  "chained i r c h =
     \<lparr>t_event = Some \<lparr>ev_persist = (r > 1), ev_timeout = Some (interval_timeval i)\<rparr>, t_interval = i,
      t_round = r, t_curRound = c, t_handler = h, t_userData = 0, t_CBHandler = None, t_tid = 0\<rparr>"

lemma chained_pending [simp]: "Timer_pending (chained i r c h)"
  by (simp add: chained_def Timer_pending_def)

text \<open>Timeouts whose handlers leave the loops alone and the timer armed.\<close>

definition linked ::
    "('u, 'x \<times> 'b loops) user_code \<Rightarrow> event_env \<Rightarrow> 'u timer \<times> 'x \<Rightarrow> 'u timer \<times> 'x \<Rightarrow> bool" where
  "linked uc e c d \<longleftrightarrow> Timer_pending (fst d)
     \<and> (\<forall>w. Timer_eventHandler uc e (fst c) (snd c, w) = Inr (fst d, snd d, w))"

lemma linked_timeouts:
  assumes laws: "timer_base_laws api arm quiet"
  shows "(linked uc e ^^ k) (t, x) (t1, x1) \<Longrightarrow> quiet b \<Longrightarrow> in_event_loop a n (arm True b) w \<Longrightarrow>
    \<exists>w1 b1. loop_timeouts api arm uc a (replicate k e @ es) t (x, w) = loop_timeouts api arm uc a es t1 (x1, w1)
      \<and> quiet b1 \<and> in_event_loop a n (arm True b1) w1"
proof (induction k arbitrary: t x w b)
  case 0
  then show ?case by auto
next
  case (Suc k)
  obtain t2 x2 where link: "linked uc e (t, x) (t2, x2)" "(linked uc e ^^ k) (t2, x2) (t1, x1)"
    using Suc.prems(1) by (metis relpowp_Suc_D2 surj_pair)
  let ?w = "change_base (arm True) a w"
  have "quiet (arm True b)" using laws Suc.prems(2) by (simp add: timer_base_laws_def)
  moreover have "in_event_loop a n (arm True (arm True b)) ?w" by (rule in_loop_changed [OF Suc.prems(3)])
  moreover have "\<not> loop_over api a w"
    using laws Suc.prems(2) by (simp add: loop_over_in [OF Suc.prems(3)] timer_base_laws_def)
  then have "loop_timeouts api arm uc a (replicate (Suc k) e @ es) t (x, w) =
      loop_timeouts api arm uc a (replicate k e @ es) t2 (x2, ?w)"
    using link(1) by (simp add: linked_def)
  ultimately show ?case using Suc.IH [OF link(2)] by metis
qed

text \<open>The seven timeouts before the last one; the round counts are those the callbacks print.\<close>

abbreviation at_start :: "timer_example timer" where
  "at_start \<equiv> chained 1000 1 0 (AfterHandler 100 2 (UserHandler AfterLambda))"

lemma chain_links:
  assumes "event_new_ok e" and "event_add_ok e"
  shows "linked (ExampleTimerServer_code api a e) e (at_start, x) (chained 100 2 0 (UserHandler AfterLambda), x)"
    and "linked (ExampleTimerServer_code api a e) e (chained 100 2 0 (UserHandler AfterLambda), x)
      (chained 100 2 1 (UserHandler AfterLambda), x\<lparr>tw_out := tw_out x @ [AfterRound 1]\<rparr>)"
    and "linked (ExampleTimerServer_code api a e) e (chained 100 2 1 (UserHandler AfterLambda), x)
      (chained 1000 5 0 (UserHandler Tick), x\<lparr>tw_out := tw_out x @ [AfterRound 3]\<rparr>)"
    and "c + 1 < 5 \<Longrightarrow> linked (ExampleTimerServer_code api a e) e (chained 1000 5 c (UserHandler Tick), x)
      (chained 1000 5 (c + 1) (UserHandler Tick), x\<lparr>tw_out := tw_out x @ [RoundBegin (c + 1)]\<rparr>)"
  unfolding linked_def using assms
  by (simp_all add: chained_def Timer_eventHandler_def event_del_def Timer_reset_def after_lambda_def
      ExampleTimerServer_code_def ExampleTimerServer_after_def ExampleTimerServer_tick_def
      Timer_startRounds_def Timer_isFinished_def Timer_pending_def Let_def not_less [symmetric])

lemma chain_linked:
  assumes "event_new_ok e" and "event_add_ok e"
  shows "(linked (ExampleTimerServer_code api a e) e ^^ 7) (at_start, \<lparr>tw_out = out, tw_error = None\<rparr>)
    (chained 1000 5 4 (UserHandler Tick), \<lparr>tw_out = out @ [AfterRound 1, AfterRound 3, RoundBegin 1,
       RoundBegin 2, RoundBegin 3, RoundBegin 4], tw_error = None\<rparr>)"
proof -
  note link = chain_links [OF assms, where api = api and a = a]
  have ticks: "linked (ExampleTimerServer_code api a e) e (chained 1000 5 c (UserHandler Tick), x)
      (chained 1000 5 c1 (UserHandler Tick), x\<lparr>tw_out := tw_out x @ [RoundBegin c1]\<rparr>)"
    if "c1 = c + 1" "c1 < 5" for c c1 x using link(4) [where c = c] that by simp
  have seven: "7 = Suc (Suc (Suc (Suc (Suc (Suc (Suc 0))))))" by simp
  show ?thesis
    unfolding seven
    by (rule relpowp_Suc_I2, rule link(1), rule relpowp_Suc_I2, rule link(2), rule relpowp_Suc_I2, rule link(3))
      (rule relpowp_Suc_I2, rule ticks [of 1], simp, simp, rule relpowp_Suc_I2, rule ticks [of 2], simp, simp,
        rule relpowp_Suc_I2, rule ticks [of 3], simp, simp, rule relpowp_Suc_I2, rule ticks [of 4], simp_all)
qed

lemma chain_last:
  assumes "in_event_loop a n b w"
  obtains t w1 where "Timer_eventHandler (ExampleTimerServer_code api a e) e (chained 1000 5 4 (UserHandler Tick)) (x, w) =
      Inr (t, x\<lparr>tw_out := tw_out x @ [RoundBegin 6]\<rparr>, w1)"
    "\<not> Timer_pending t" "in_event_loop a n (event_base_loopexit api b) w1"
proof -
  obtain w1 where w1: "Loop_stop api Loop_hooks True a w = Inr w1"
    "in_event_loop a n (event_base_loopexit api b) w1" by (rule in_loop_stopped [OF assms])
  then show thesis
    by (intro that [OF _ _ w1(2), of "run_out (chained 1000 5 5 (UserHandler Tick))"])
      (simp_all add: chained_def run_out_def Timer_eventHandler_def event_del_def Timer_reset_def
        ExampleTimerServer_code_def ExampleTimerServer_tick_def ExampleTimerServer_stop_def
        Timer_isFinished_def Timer_pending_def Let_def)
qed

lemma chain_runs:
  assumes laws: "timer_base_laws api arm quiet" and ok: "event_new_ok e" "event_add_ok e"
    and b: "quiet b" "in_event_loop a n (arm True b) w"
  obtains t w1 b1 where "loop_timeouts api arm (ExampleTimerServer_code api a e) a (replicate 8 e @ es)
      at_start (\<lparr>tw_out = out, tw_error = None\<rparr>, w) =
    Inr (t, \<lparr>tw_out = out @ [AfterRound 1, AfterRound 3, RoundBegin 1, RoundBegin 2, RoundBegin 3,
      RoundBegin 4, RoundBegin 6], tw_error = None\<rparr>, w1)"
    "\<not> Timer_pending t" "in_event_loop a n b1 w1" "event_base_loop_returns api b1"
proof -
  let ?uc = "ExampleTimerServer_code api a e"
  let ?x = "\<lparr>tw_out = out @ [AfterRound 1, AfterRound 3, RoundBegin 1, RoundBegin 2, RoundBegin 3,
      RoundBegin 4], tw_error = None\<rparr>"
  have eight: "replicate 8 e @ es = replicate 7 e @ e # es" by (simp add: eval_nat_numeral)
  obtain w1 b1 where run: "loop_timeouts api arm ?uc a (replicate 8 e @ es) at_start (\<lparr>tw_out = out, tw_error = None\<rparr>, w) =
      loop_timeouts api arm ?uc a (e # es) (chained 1000 5 4 (UserHandler Tick)) (?x, w1)"
    and b1: "quiet b1" "in_event_loop a n (arm True b1) w1"
    using linked_timeouts [OF laws chain_linked [OF ok] b] unfolding eight by blast
  obtain t w2 where last: "Timer_eventHandler ?uc e (chained 1000 5 4 (UserHandler Tick)) (?x, w1) =
      Inr (t, ?x\<lparr>tw_out := tw_out ?x @ [RoundBegin 6]\<rparr>, w2)"
    and t: "\<not> Timer_pending t" and w2: "in_event_loop a n (event_base_loopexit api (arm True b1)) w2"
    by (rule chain_last [OF b1(2)])
  let ?w = "change_base (arm False) a w2" and ?b = "arm False (event_base_loopexit api (arm True b1))"
  have at: "in_event_loop a n ?b ?w" by (rule in_loop_changed [OF w2])
  have ret: "event_base_loop_returns api ?b" using laws by (simp add: timer_base_laws_def)
  have "\<not> loop_over api a w1"
    using laws b1(1) by (simp add: loop_over_in [OF b1(2)] timer_base_laws_def)
  then have "loop_timeouts api arm ?uc a (e # es) (chained 1000 5 4 (UserHandler Tick)) (?x, w1) =
      Inr (t, ?x\<lparr>tw_out := tw_out ?x @ [RoundBegin 6]\<rparr>, ?w)"
    using last t ret timeouts_over [of api a "(_, ?w)"] by (simp add: loop_over_in [OF at])
  with run t at ret show thesis by (intro that) simp_all
qed

section \<open>Properties\<close>

text \<open>C15: The timer example ends: after the delay, two rounds and five rounds the last callback stops
  the loop, the thread ends and is joined, and the program returns, whatever timeouts may follow;
  the timer is gone, and the destructor that runs at exit does no harm when other threads leave
  this loop alone. The last line of each
  stage shows a round too many (3 of 2, 6 of 5), because a timer is reset before its last call.\<close>
theorem timer_example_ends:
  assumes "timer_base_laws api arm quiet" and "quiet b" and "event_new_ok e" and "event_add_ok e"
    and "leaves_alone a (next_tid w) racing"
  shows "\<exists>t w1. timerExample api arm e (replicate 8 e @ es) a m (Some b) w =
      Some (Inr (\<lparr>tw_out = [BeforeStart, AfterRound 1, AfterRound 3, RoundBegin 1, RoundBegin 2, RoundBegin 3,
         RoundBegin 4, RoundBegin 6], tw_error = None\<rparr>, t, w1))
    \<and> \<not> Timer_pending t \<and> (\<exists>w2. Loop_destroy api Loop_hooks racing during a w1 = Some (Inr w2) \<and> objs w2 a = None)"
proof -
  obtain w0 l where new: "Loop_new a (Some b) w = (None, w0)" "objs w0 a = Some l"
    "l_status l = StatusInit" "l_base l = Some b" "next_tid w0 = next_tid w" by (simp add: Loop_new_def Let_def)
  have start: "Timer_startAfter e 1000 100 2 (UserHandler AfterLambda) Timer_new = (True, at_start)"
    using assms(3,4) by (simp add: Timer_startAfter_def Timer_startOnce_def Timer_startRounds_def Timer_new_def
        chained_def Let_def)
  let ?w = "change_base (arm True) a w0" and ?n = "next_tid w0"
  have l: "objs ?w a = Some (map_base (arm True) l)" "next_tid ?w = ?n"
    "l_status (map_base (arm True) l) = StatusInit" "l_base (map_base (arm True) l) = Some (arm True b)"
    using new by (simp_all add: change_base_def set_loop_def)
  obtain w1 where w1: "Loop_start Loop_hooks True m a ?w = Inr (True, w1)"
    "l_status (the (objs w1 a)) = StatusInit" "l_thread (the (objs w1 a)) = Some ?n" "a \<in> dom (objs w1)"
    "in_event_loop a ?n (event_base_loop_enter api (arm True b)) (Loop_run_steps api Loop_hooks ?n 4 w1)"
    using loop_enters [OF l(1,3,4)] unfolding l(2) by metis
  have b: "quiet (event_base_loop_enter api b)"
    "in_event_loop a ?n (arm True (event_base_loop_enter api b)) (Loop_run_steps api Loop_hooks ?n 4 w1)"
    using assms(1,2) w1(5) by (simp_all add: timer_base_laws_def)
  obtain t w2 b1 where run: "loop_timeouts api arm (ExampleTimerServer_code api a e) a (replicate 8 e @ es) at_start
      (\<lparr>tw_out = [BeforeStart], tw_error = None\<rparr>, Loop_run_steps api Loop_hooks ?n 4 w1) =
    Inr (t, \<lparr>tw_out = [BeforeStart] @ [AfterRound 1, AfterRound 3, RoundBegin 1, RoundBegin 2, RoundBegin 3,
      RoundBegin 4, RoundBegin 6], tw_error = None\<rparr>, w2)"
    and t: "\<not> Timer_pending t" and w2: "in_event_loop a ?n b1 w2" "event_base_loop_returns api b1"
    by (rule chain_runs [OF assms(1,3,4) b])
  obtain l1 where l1: "objs w1 a = Some l1" using w1(4) by blast
  then have "l_thread l1 = Some ?n" "l_status l1 \<noteq> StatusFinished" using w1(2,3) by (simp_all add: statuses)
  then obtain w3 where wait: "Loop_wait (\<lambda>_. Loop_run_steps api Loop_hooks ?n 4 w2) a w1 = Some (Inr w3)"
    and destroy: "\<exists>w4. Loop_destroy api Loop_hooks racing during a w3 = Some (Inr w4) \<and> objs w4 a = None"
    using waited_for [OF l1 _ _ loop_leaves [OF w2]] assms(5) new(5) by metis
  show ?thesis
    using new(1) start w1(1) run wait t destroy l(2)
    by (simp add: timerExample_def ExampleTimerServer_start_def del: replicate.simps)
qed

theorem timer_example_ends_witness:
  "\<exists>t w1. timerExample flag_api arm_flag good_env (replicate 8 good_env @ [good_env]) 7 0
        (Some \<lparr>fb_exit = False, fb_break = False, fb_events = 0\<rparr>) loops_init =
      Some (Inr (\<lparr>tw_out = [BeforeStart, AfterRound 1, AfterRound 3, RoundBegin 1, RoundBegin 2, RoundBegin 3,
         RoundBegin 4, RoundBegin 6], tw_error = None\<rparr>, t, w1))"
  using timer_example_ends [OF flag_api_timer_laws, of "\<lparr>fb_exit = False, fb_break = False, fb_events = 0\<rparr>"
      good_env 7 loops_init id "[good_env]" 0 id]
  by (auto simp: good_env_def leaves_alone_def simp del: replicate.simps)

end
