(* ===== verification/TimerManager.thy ===== *)
theory TimerManager
  imports Timer Event_Loop Shared
begin

text \<open>
  The class \<open>TimerManager\<close> (include/translib/timerManager.h, src/translib/timerManager.cpp): a map
  from ids to timers behind \<open>std::shared_ptr\<close>, which an audit clears of finished timers.

  Each method takes its mutex for the whole access to the map, so it is one step.
\<close>

section \<open>State\<close>

definition AUDIT_TIMER :: u32 where
  "AUDIT_TIMER = 5000"

text \<open>The handler of the audit timer is one of the functions \<open>'u\<close>.\<close>

record 'u timer_manager =
  uniqueID_atomic :: u32
  t_map :: "(u32 \<times> addr) list"
  audit_timer :: "'u timer option"

section \<open>Operations\<close>

text \<open>\<open>init\<close> starts the manager's own loop in a new thread, or leaves a given loop alone.\<close>

definition TimerManager_init ::
    "'b loop_hooks \<Rightarrow> bool \<Rightarrow> tid \<Rightarrow> addr \<Rightarrow> 'b loops \<Rightarrow> loop_error + bool \<times> 'b loops" where
  "TimerManager_init hk begin_loop t loop_at w =
     (if begin_loop
      then (case Loop_start hk True t loop_at w of
              Inl err \<Rightarrow> Inl err
            | Inr (r, w1) \<Rightarrow> Inr (True, w1))
      else Inr (True, w))"

text \<open>The members as a constructor leaves them: the audit timer is started for good with handler
  \<open>audit\<close>; what the start returns is dropped.\<close>

definition TimerManager_members :: "event_env \<Rightarrow> 'u \<Rightarrow> 'u timer_manager" where
  "TimerManager_members e audit =
     \<lparr>uniqueID_atomic = 0, t_map = [],
      audit_timer = Some (snd (Timer_startForever e AUDIT_TIMER (UserHandler audit) Timer_new))\<rparr>"

text \<open>The event of the audit timer enters and leaves the event base of the loop at \<open>a\<close> by \<open>f\<close>.\<close>

definition audit_event :: "('b \<Rightarrow> 'b) \<Rightarrow> addr \<Rightarrow> 'u timer_manager \<Rightarrow> 'b loops \<Rightarrow> 'b loops" where
  "audit_event f a m w =
     (case audit_timer m of
        None \<Rightarrow> w
      | Some t \<Rightarrow> if t_event t = None then w else change_base f a w)"

text \<open>
  The constructors, called by thread \<open>t\<close>. Both construct the member \<open>loop\<close> at \<open>own_at\<close>, with the
  base that \<open>event_base_new\<close> returns. \<open>TimerManager()\<close> (\<open>loop_in\<close> is \<open>None\<close>) starts it and audits
  through \<open>instance()\<close>; \<open>TimerManager(Loop &)\<close> takes the loop at \<open>loop_in\<close> as it is and audits
  itself. \<open>between\<close> is what the other threads do before the audit timer is started.
\<close>

definition TimerManager_new ::
    "'b loop_hooks \<Rightarrow> event_env \<Rightarrow> ('b \<Rightarrow> 'b) \<Rightarrow> ('b loops \<Rightarrow> 'b loops) \<Rightarrow> addr \<Rightarrow> 'b option
      \<Rightarrow> addr option \<Rightarrow> tid \<Rightarrow> 'u \<Rightarrow> 'b loops \<Rightarrow> (loop_error + 'u timer_manager) \<times> 'b loops" where
  "TimerManager_new hk e add between own_at base loop_in t audit w =
     (case Loop_new own_at base w of
        (Some err, w1) \<Rightarrow> (Inl err, w1)
      | (None, w1) \<Rightarrow>
          (let loop_at = (case loop_in of None \<Rightarrow> own_at | Some a \<Rightarrow> a)
           in case TimerManager_init hk (loop_in = None) t loop_at w1 of
                Inl err \<Rightarrow> (Inl err, w1)
              | Inr (r, w2) \<Rightarrow>
                  (let m = TimerManager_members e audit
                   in (Inr m, audit_event add loop_at m (between w2)))))"

text \<open>\<open>uniqueID_atomic++\<close> wraps around.\<close>

definition TimerManager_getUniqueID :: "'u timer_manager \<Rightarrow> u32 \<times> 'u timer_manager" where
  "TimerManager_getUniqueID m =
     (uniqueID_atomic m, m\<lparr>uniqueID_atomic := uniqueID_atomic m + 1\<rparr>)"

text \<open>
  Dropping the last pointer to a timer runs \<open>~Timer\<close>, which frees the event. The new timer is at
  address \<open>a\<close>; the caller gets its id and a pointer to it, the map another
  one when it takes the entry.
\<close>

definition TimerManager_getTimer ::
    "addr \<Rightarrow> 'u timer_manager \<Rightarrow> 'u timer sheap \<Rightarrow> u32 \<times> 'u timer_manager \<times> 'u timer sheap" where
  "TimerManager_getTimer a m h =
     (let (i, m1) = TimerManager_getUniqueID m;
          h1 = shared_new a Timer_new h;
          h2 = (if umap_find (t_map m1) i = None then shared_copy a h1 else h1)
      in (i, m1\<lparr>t_map := umap_emplace i a (t_map m1)\<rparr>, h2))"

text \<open>The loop of \<open>auditTimer\<close>, with the entries it leaves.\<close>

fun audit_loop :: "(u32 \<times> addr) list \<Rightarrow> 'u timer sheap \<Rightarrow> (u32 \<times> addr) list \<times> 'u timer sheap" where
  "audit_loop [] h = ([], h)"
| "audit_loop ((i, a) # es) h =
     (case h a of
        Some (t, n) \<Rightarrow>
          if Timer_isFinished t then audit_loop es (shared_drop a h)
          else (let (k, h1) = audit_loop es h in ((i, a) # k, h1))
      | None \<Rightarrow> (let (k, h1) = audit_loop es h in ((i, a) # k, h1)))"

definition TimerManager_auditTimer ::
    "'u timer_manager \<Rightarrow> 'u timer sheap \<Rightarrow> bool \<times> 'u timer_manager \<times> 'u timer sheap" where
  "TimerManager_auditTimer m h =
     (let (k, h1) = audit_loop (t_map m) h in (True, m\<lparr>t_map := k\<rparr>, h1))"

definition TimerManager_killTimer ::
    "u32 \<Rightarrow> 'u timer_manager \<Rightarrow> 'u timer sheap \<Rightarrow> bool \<times> 'u timer_manager \<times> 'u timer sheap" where
  "TimerManager_killTimer i m h =
     (True, m\<lparr>t_map := umap_erase i (t_map m)\<rparr>,
      case umap_find (t_map m) i of None \<Rightarrow> h | Some a \<Rightarrow> shared_drop a h)"

text \<open>
  The map is destroyed with its pointers. When the event base of the timers is \<open>gone\<close>, the last
  pointer to a timer that has an event must not be dropped: \<open>~Timer\<close> frees the event.
\<close>

fun drop_timers :: "bool \<Rightarrow> (u32 \<times> addr) list \<Rightarrow> 'u timer sheap \<Rightarrow> 'u timer sheap option" where
  "drop_timers gone [] h = Some h"
| "drop_timers gone ((i, a) # es) h =
     (case h a of
        None \<Rightarrow> drop_timers gone es h
      | Some (t, n) \<Rightarrow>
          if gone \<and> n \<le> 1 \<and> t_event t \<noteq> None then None
          else drop_timers gone es (shared_drop a h))"

text \<open>
  \<open>~TimerManager\<close> deletes the audit timer, whose event leaves the base of the loop at \<open>loop_at\<close>
  that the manager uses (\<open>remove\<close>). Then the members are destroyed, the last one first: the
  member \<open>loop\<close> at \<open>own_at\<close>, and after it the map. The result has the timers that are left, and
  the loops.
\<close>

definition TimerManager_destroy ::
    "'b event_base_api \<Rightarrow> 'b loop_hooks \<Rightarrow> ('b \<Rightarrow> 'b) \<Rightarrow> ('b loops \<Rightarrow> 'b loops) \<Rightarrow> ('b loops \<Rightarrow> 'b loops)
      \<Rightarrow> ('b loops \<Rightarrow> 'b loops) \<Rightarrow> addr \<Rightarrow> addr \<Rightarrow> 'u timer_manager \<Rightarrow> 'u timer sheap \<Rightarrow> 'b loops
      \<Rightarrow> (destroy_error + 'u timer sheap \<times> 'b loops) option" where
  "TimerManager_destroy api hk remove between racing during own_at loop_at m h w =
     (case Loop_destroy api hk racing during own_at (between (audit_event remove loop_at m w)) of
        None \<Rightarrow> None
      | Some (Inl err) \<Rightarrow> Some (Inl (LoopError err))
      | Some (Inr w1) \<Rightarrow>
          (case drop_timers (objs w1 loop_at = None) (t_map m) h of
             None \<Rightarrow> Some (Inl FreedBase)
           | Some h1 \<Rightarrow> Some (Inr (h1, w1))))"

section \<open>The map is a table\<close>

interpretation timers: emplace_table umap_find umap_erase umap_ok umap_emplace
  by unfold_locales
    (simp_all add: umap_find_erase umap_ok_erase umap_find_emplace umap_ok_emplace)

section \<open>The invariant\<close>

definition entries_at :: "(u32 \<times> addr) list \<Rightarrow> addr \<Rightarrow> nat" where
  "entries_at es a = length (filter (\<lambda>e. snd e = a) es)"

text \<open>
  \<open>held\<close> is the number of pointers the program has to each timer. A timer exists exactly as
  long as the map or the program points to it, and the map points to it at most once.
\<close>

definition tm_ok :: "'u timer_manager \<Rightarrow> 'u timer sheap \<Rightarrow> (addr \<Rightarrow> nat) \<Rightarrow> bool" where
  "tm_ok m h held \<longleftrightarrow> umap_ok (t_map m) \<and> (\<forall>a. entries_at (t_map m) a \<le> 1)
   \<and> refs_ok h (\<lambda>a. entries_at (t_map m) a + held a)"

text \<open>The steps of a program with a timer manager: it may use any timer it has a pointer to.\<close>

inductive tm_step ::
    "'u timer_manager \<times> 'u timer sheap \<times> (addr \<Rightarrow> nat) \<Rightarrow> 'u timer_manager \<times> 'u timer sheap \<times> (addr \<Rightarrow> nat) \<Rightarrow> bool"
  where
  get: "h a = None \<Longrightarrow> TimerManager_getTimer a m h = (i, m1, h1) \<Longrightarrow>
    tm_step (m, h, held) (m1, h1, held(a := 1))"
| copy: "0 < held a \<Longrightarrow> tm_step (m, h, held) (m, shared_copy a h, held(a := held a + 1))"
| drop: "0 < held a \<Longrightarrow> tm_step (m, h, held) (m, shared_drop a h, held(a := held a - 1))"
| kill: "TimerManager_killTimer i m h = (r, m1, h1) \<Longrightarrow> tm_step (m, h, held) (m1, h1, held)"
| audit: "TimerManager_auditTimer m h = (r, m1, h1) \<Longrightarrow> tm_step (m, h, held) (m1, h1, held)"
| use: "h a = Some (t, n) \<Longrightarrow> tm_step (m, h, held) (m, h(a \<mapsto> (t1, n)), held)"

inductive tm_reach :: "'u timer_manager \<times> 'u timer sheap \<times> (addr \<Rightarrow> nat) \<Rightarrow> bool" where
  init: "tm_reach (TimerManager_members e audit, (\<lambda>a. None), (\<lambda>a. 0))"
| step: "tm_reach s \<Longrightarrow> tm_step s s1 \<Longrightarrow> tm_reach s1"

lemma entries_at_simps [simp]:
  "entries_at [] a = 0"
  "entries_at ((i, b) # es) a = (if b = a then 1 else 0) + entries_at es a"
  by (simp_all add: entries_at_def)

lemma entries_emplace:
  "umap_find es i = None \<Longrightarrow> entries_at (umap_emplace i b es) a = (if b = a then 1 else 0) + entries_at es a"
  "umap_find es i \<noteq> None \<Longrightarrow> umap_emplace i b es = es"
  by (auto simp: umap_emplace_def umap_find_def map_of_eq_None_iff)

lemma entries_erase:
  assumes "umap_ok es"
  shows "entries_at es a = entries_at (umap_erase i es) a + (if umap_find es i = Some a then 1 else 0)"
  using assms
proof (induction es)
  case Nil
  then show ?case by (simp add: umap_erase_def)
next
  case (Cons e es)
  obtain j b where e: "e = (j, b)" by (cases e)
  show ?case
  proof (cases "j = i")
    case True
    with Cons.prems e have "\<forall>e \<in> set es. fst e \<noteq> i" by (auto simp: umap_ok_def)
    then have "umap_erase i es = es" by (simp add: umap_erase_def filter_id_conv)
    with True e show ?thesis by (auto simp: umap_erase_def umap_find_def)
  next
    case False
    have "umap_ok es" using Cons.prems by (simp add: umap_ok_def)
    with Cons.IH False e show ?thesis by (simp add: umap_erase_def umap_find_def)
  qed
qed

lemma entries_filter: "entries_at (filter P es) a \<le> entries_at es a"
  by (induction es) (auto simp: entries_at_def)

lemma entries_pos: "0 < entries_at es a \<longleftrightarrow> (\<exists>i. (i, a) \<in> set es)"
  by (force simp: entries_at_def filter_empty_conv)

section \<open>The audit\<close>

definition finished_entry :: "'u timer sheap \<Rightarrow> u32 \<times> addr \<Rightarrow> bool" where
  "finished_entry h e \<longleftrightarrow> (case h (snd e) of None \<Rightarrow> False | Some (t, n) \<Rightarrow> Timer_isFinished t)"

text \<open>
  The loop leaves the entries of unfinished timers, frees no timer that is still referenced and
  touches none: whether a timer is finished does not depend on what was erased before it.
\<close>

text \<open>Dropping the pointer of an entry does not change which of the others are finished.\<close>

lemma finished_entry_drop:
  assumes "h a = Some (t, entries_at ((i, a) # es) a + r)" and "x \<in> set es"
  shows "finished_entry (shared_drop a h) x = finished_entry h x"
proof (cases "snd x = a")
  case True
  have "0 < entries_at es a" using True assms(2) by (auto simp: entries_at_def filter_empty_conv)
  with True assms(1) show ?thesis by (simp add: finished_entry_def shared_drop_def)
next
  case False
  then show ?thesis by (simp add: finished_entry_def drop_other)
qed

lemma audit_loop_spec:
  "refs_ok h (\<lambda>a. entries_at es a + r a) \<Longrightarrow> audit_loop es h = (k, h1) \<Longrightarrow>
     k = filter (\<lambda>e. \<not> finished_entry h e) es \<and> refs_ok h1 (\<lambda>a. entries_at k a + r a)
     \<and> (\<forall>a t n. h1 a = Some (t, n) \<longrightarrow> (\<exists>n0. h a = Some (t, n0)))"
proof (induction es arbitrary: h k h1 r)
  case Nil
  then show ?case by auto
next
  case (Cons e es)
  obtain i a where e: "e = (i, a)" by (cases e)
  let ?r = "\<lambda>b. entries_at (e # es) b + r b"
  obtain t where t: "h a = Some (t, ?r a)"
    using Cons.prems(1) by (rule refs_cell [where a = a]) (simp_all add: e)
  have fin: "finished_entry h e = Timer_isFinished t" using t by (simp add: finished_entry_def e)
  show ?case
  proof (cases "Timer_isFinished t")
    case True
    have "refs_ok (shared_drop a h) (?r(a := ?r a - 1))"
      using Cons.prems(1) by (rule refs_drop) (simp add: e)
    also have "?r(a := ?r a - 1) = (\<lambda>b. entries_at es b + r b)" by (auto simp: e)
    finally have ok: "refs_ok (shared_drop a h) (\<lambda>b. entries_at es b + r b)" .
    have run: "audit_loop es (shared_drop a h) = (k, h1)" using Cons.prems(2) e t True by simp
    note from_rest = Cons.IH [OF ok run]
    have "k = filter (\<lambda>x. \<not> finished_entry h x) (e # es)"
      using from_rest finished_entry_drop [where h = h and a = a, OF t [unfolded e]] True fin by (auto cong: filter_cong)
    moreover have "\<exists>n0. h b = Some (t, n0)" if "h1 b = Some (t, n)" for b t n
      using from_rest that by (metis drop_keeps)
    ultimately show ?thesis using from_rest by blast
  next
    case False
    obtain k1 where k1: "audit_loop es h = (k1, h1)" "k = e # k1"
      using Cons.prems(2) e t False by (auto split: prod.splits)
    have refs: "?r = (\<lambda>b. entries_at es b + (r(a := r a + 1)) b)"
      "(\<lambda>b. entries_at k b + r b) = (\<lambda>b. entries_at k1 b + (r(a := r a + 1)) b)"
      by (auto simp: e k1)
    note from_rest = Cons.IH [OF Cons.prems(1) [unfolded refs(1)] k1(1)]
    then have "k = filter (\<lambda>x. \<not> finished_entry h x) (e # es)" by (simp add: k1(2) fin False)
    with from_rest show ?thesis unfolding refs(2) by blast
  qed
qed

lemma audit_ok:
  assumes "tm_ok m h held" and "TimerManager_auditTimer m h = (r, m1, h1)"
  shows "tm_ok m1 h1 held" and "t_map m1 = filter (\<lambda>e. \<not> finished_entry h e) (t_map m)"
    and "h1 a = Some (t, n) \<Longrightarrow> \<exists>n0. h a = Some (t, n0)"
proof -
  obtain k where k: "audit_loop (t_map m) h = (k, h1)" "m1 = m\<lparr>t_map := k\<rparr>"
    using assms(2) by (auto simp: TimerManager_auditTimer_def split: prod.splits)
  note spec = audit_loop_spec [OF _ k(1), of held]
  show map: "t_map m1 = filter (\<lambda>e. \<not> finished_entry h e) (t_map m)"
    using spec assms(1) by (simp add: tm_ok_def k(2))
  show "tm_ok m1 h1 held" using spec assms(1)
    by (auto simp: tm_ok_def k(2) umap_ok_filter intro: order_trans [OF entries_filter])
  show "\<exists>n0. h a = Some (t, n0)" if "h1 a = Some (t, n)"
    using spec assms(1) that by (simp add: tm_ok_def)
qed

lemma tm_ok_new: "tm_ok (TimerManager_members e audit) (\<lambda>a. None) (\<lambda>a. 0)"
  by (simp add: tm_ok_def TimerManager_members_def umap_ok_def refs_ok_def)

lemma tm_ok_get:
  assumes ok: "tm_ok m h held" and fresh: "h a = None"
    and get: "TimerManager_getTimer a m h = (i, m1, h1)"
  shows "tm_ok m1 h1 (held(a := 1))"
proof -
  let ?es = "t_map m" and ?r = "\<lambda>b. entries_at (t_map m) b + held b"
  let ?i = "uniqueID_atomic m"
  have r: "refs_ok h ?r" and um: "umap_ok ?es" using ok by (simp_all add: tm_ok_def)
  have none: "entries_at ?es a = 0" "held a = 0" using refs_okD(1) [OF r, of a] fresh by simp_all
  have new: "refs_ok (shared_new a Timer_new h) (?r(a := 1))" by (rule refs_new [OF r])
  have "refs_ok h1 (\<lambda>b. entries_at (umap_emplace ?i a ?es) b + (held(a := 1)) b)"
  proof (cases "umap_find ?es ?i")
    case None
    have "h1 = shared_copy a (shared_new a Timer_new h)"
      using get None by (simp add: TimerManager_getTimer_def TimerManager_getUniqueID_def Let_def)
    moreover have "(?r(a := 1))(a := (?r(a := 1)) a + 1) =
        (\<lambda>b. entries_at (umap_emplace ?i a ?es) b + (held(a := 1)) b)"
      by (rule ext) (simp add: entries_emplace(1) [OF None] none)
    ultimately show ?thesis using refs_copy [OF new, of a] by simp
  next
    case (Some b)
    have "h1 = shared_new a Timer_new h"
      using get Some by (simp add: TimerManager_getTimer_def TimerManager_getUniqueID_def Let_def)
    moreover have "?r(a := 1) = (\<lambda>b. entries_at (umap_emplace ?i a ?es) b + (held(a := 1)) b)"
      by (rule ext) (simp add: entries_emplace(2) Some none)
    ultimately show ?thesis using new by simp
  qed
  moreover have "entries_at (umap_emplace ?i a ?es) b \<le> 1" for b
    using ok none by (cases "umap_find ?es ?i") (auto simp: tm_ok_def entries_emplace)
  ultimately show ?thesis
    using get timers.wf_emplace [OF um]
    by (auto simp: tm_ok_def TimerManager_getTimer_def TimerManager_getUniqueID_def Let_def)
qed

lemma tm_ok_kill:
  assumes ok: "tm_ok m h held" and kill: "TimerManager_killTimer i m h = (r, m1, h1)"
  shows "tm_ok m1 h1 held"
proof -
  let ?es = "t_map m" and ?r = "\<lambda>b. entries_at (t_map m) b + held b"
  have r: "refs_ok h ?r" and um: "umap_ok ?es" using ok by (simp_all add: tm_ok_def)
  note ent = entries_erase [OF um, of _ i]
  have "refs_ok h1 (\<lambda>b. entries_at (umap_erase i ?es) b + held b)"
  proof (cases "umap_find ?es i")
    case None
    have "h1 = h" using kill None by (simp add: TimerManager_killTimer_def)
    moreover have "?r = (\<lambda>b. entries_at (umap_erase i ?es) b + held b)"
      by (rule ext) (simp add: ent None)
    ultimately show ?thesis using r by simp
  next
    case (Some a)
    have "h1 = shared_drop a h" using kill Some by (simp add: TimerManager_killTimer_def)
    moreover have "?r(a := ?r a - 1) = (\<lambda>b. entries_at (umap_erase i ?es) b + held b)"
      by (rule ext) (simp add: ent Some)
    moreover have "0 < ?r a" by (simp add: ent Some)
    ultimately show ?thesis using refs_drop [OF r] by metis
  qed
  moreover have "entries_at (umap_erase i ?es) b \<le> 1" for b
    using ok by (simp add: tm_ok_def umap_erase_def order_trans [OF entries_filter])
  ultimately show ?thesis
    using kill timers.wf_erase [OF um] by (auto simp: tm_ok_def TimerManager_killTimer_def)
qed

lemma tm_step_ok: "tm_step s s1 \<Longrightarrow> (case s of (m, h, held) \<Rightarrow> tm_ok m h held) \<Longrightarrow>
    (case s1 of (m, h, held) \<Rightarrow> tm_ok m h held)"
proof (induction rule: tm_step.induct)
  case (copy held a m h)
  let ?r = "\<lambda>b. entries_at (t_map m) b + held b"
  have "?r(a := ?r a + 1) = (\<lambda>b. entries_at (t_map m) b + (held(a := held a + 1)) b)" by auto
  with copy refs_copy [of h ?r a] show ?case by (simp add: tm_ok_def)
next
  case (drop held a m h)
  let ?r = "\<lambda>b. entries_at (t_map m) b + held b"
  have "?r(a := ?r a - 1) = (\<lambda>b. entries_at (t_map m) b + (held(a := held a - 1)) b)"
    using drop.hyps by auto
  with drop refs_drop [of h ?r a] show ?case by (simp add: tm_ok_def)
next
  case (use h a t n m held t1)
  then show ?case by (simp add: tm_ok_def refs_use)
qed (use tm_ok_get tm_ok_kill audit_ok(1) in \<open>auto simp del: fun_upd_apply\<close>)

lemma tm_reach_ok: "tm_reach s \<Longrightarrow> (case s of (m, h, held) \<Rightarrow> tm_ok m h held)"
  by (induction rule: tm_reach.induct) (simp add: tm_ok_new, rule tm_step_ok)

lemma tm_refs:
  assumes "tm_ok m h held"
  shows "h a \<noteq> None \<longleftrightarrow> 0 < held a \<or> (\<exists>i. umap_find (t_map m) i = Some a)"
    and "h a = Some (t, n) \<Longrightarrow> n = entries_at (t_map m) a + held a"
proof -
  have r: "refs_ok h (\<lambda>a. entries_at (t_map m) a + held a)" and um: "umap_ok (t_map m)"
    using assms by (simp_all add: tm_ok_def)
  have "h a \<noteq> None \<longleftrightarrow> 0 < entries_at (t_map m) a + held a"
    using refs_okD(1) [OF r, of a] by auto
  then show "h a \<noteq> None \<longleftrightarrow> 0 < held a \<or> (\<exists>i. umap_find (t_map m) i = Some a)"
    using entries_pos [of "t_map m" a] umap_find_in_set [OF um] by (auto simp: add_pos_pos)
  show "h a = Some (t, n) \<Longrightarrow> n = entries_at (t_map m) a + held a"
    by (rule refs_okD(2) [OF r])
qed

section \<open>Properties\<close>

text \<open>C16: A timer object exists exactly as long as the manager's map or the program refers to it,
  whatever the order of getting, killing, auditing and dropping pointers: none is leaked, and
  none is used after it was freed.\<close>

theorem tm_timers_exist_while_referenced:
  assumes "tm_reach (m, h, held)"
  shows "h a \<noteq> None \<longleftrightarrow> 0 < held a \<or> (\<exists>i. umap_find (t_map m) i = Some a)"
  using tm_refs(1) tm_reach_ok [OF assms] by simp

text \<open>A manager that has given out two timers, at addresses 100 and 200.\<close>

definition two_timers :: "unit timer_manager \<times> unit timer sheap \<times> (addr \<Rightarrow> nat)" where
  "two_timers =
     (let m0 = TimerManager_members \<lparr>event_new_ok = True, event_add_ok = True\<rparr> ();
          (i, m1, h1) = TimerManager_getTimer 100 m0 (\<lambda>a. None);
          (j, m2, h2) = TimerManager_getTimer 200 m1 h1
      in (m2, h2, (\<lambda>a. 0)(100 := 1, 200 := 1)))"

lemma two_timers_eval: "two_timers =
    (\<lparr>uniqueID_atomic = 2, t_map = [(1, 200), (0, 100)],
      audit_timer = audit_timer (TimerManager_members \<lparr>event_new_ok = True, event_add_ok = True\<rparr> ())\<rparr>,
     (\<lambda>a. None)(100 \<mapsto> (Timer_new, 2), 200 \<mapsto> (Timer_new, 2)), (\<lambda>a. 0)(100 := 1, 200 := 1))"
  by (simp add: two_timers_def TimerManager_getTimer_def TimerManager_getUniqueID_def
      TimerManager_members_def umap_emplace_def shared_new_def shared_copy_def umap_find_def
      fun_upd_twist Let_def numeral_2_eq_2)

lemma two_timers_reach: "tm_reach two_timers"
proof -
  let ?m = "TimerManager_members \<lparr>event_new_ok = True, event_add_ok = True\<rparr> () :: unit timer_manager"
  obtain i m1 h1 where g1: "TimerManager_getTimer 100 ?m (\<lambda>a. None) = (i, m1, h1)"
    by (rule prod_cases3)
  obtain j m2 h2 where g2: "TimerManager_getTimer 200 m1 h1 = (j, m2, h2)" by (rule prod_cases3)
  have h1: "h1 200 = None"
    using g1 by (auto simp: TimerManager_getTimer_def TimerManager_getUniqueID_def shared_new_def
        shared_copy_def Let_def)
  have "tm_reach (m1, h1, (\<lambda>a. 0)(100 := 1))"
    by (rule tm_reach.step [OF tm_reach.init tm_step.get [OF _ g1]]) simp
  then have "tm_reach (m2, h2, (\<lambda>a. 0)(100 := 1, 200 := 1))"
    by (rule tm_reach.step [OF _ tm_step.get [OF h1 g2]])
  then show ?thesis by (simp add: two_timers_def g1 g2)
qed

theorem tm_timers_exist_while_referenced_witness:
  "case two_timers of (m, h, held) \<Rightarrow> h 100 \<noteq> None \<and> h 300 = None"
proof -
  obtain m h held where tt: "two_timers = (m, h, held)" by (rule prod_cases3)
  then have "tm_reach (m, h, held)" using two_timers_reach by simp
  from tm_timers_exist_while_referenced [OF this, of 100]
    tm_timers_exist_while_referenced [OF this, of 300] tt show ?thesis
    by (auto simp: two_timers_eval umap_find_def)
qed

text \<open>The audit, in terms of what a client of the manager sees.\<close>

lemma audit_exact:
  assumes "tm_reach (m, h, held)" and "TimerManager_auditTimer m h = (r, m1, h1)"
  shows "umap_find (t_map m1) i =
      (case umap_find (t_map m) i of None \<Rightarrow> None
       | Some a \<Rightarrow> if finished_entry h (i, a) then None else Some a)
    \<and> (h1 a = None \<longleftrightarrow> h a = None \<or> held a = 0 \<and> finished_entry h (i, a))
    \<and> (h1 a = Some (t, n) \<longrightarrow> (\<exists>n0. h a = Some (t, n0)))"
proof -
  have ok: "tm_ok m h held" using tm_reach_ok [OF assms(1)] by simp
  note audit = audit_ok [OF ok assms(2)]
  have um: "umap_ok (t_map m)" using ok by (simp add: tm_ok_def)
  have find: "umap_find (t_map m1) j = (case umap_find (t_map m) j of None \<Rightarrow> None
      | Some a \<Rightarrow> if finished_entry h (j, a) then None else Some a)" for j
    by (simp add: audit(2) umap_find_filter [OF um] split: option.split)
  have fin: "finished_entry h (j, a) = finished_entry h (i, a)" for j
    by (simp add: finished_entry_def)
  have "h1 a \<noteq> None \<longleftrightarrow> h a \<noteq> None \<and> (0 < held a \<or> \<not> finished_entry h (i, a))"
    unfolding tm_refs(1) [OF audit(1)] tm_refs(1) [OF ok] find using fin
    by (auto split: option.splits)
  then have "h1 a = None \<longleftrightarrow> h a = None \<or> held a = 0 \<and> finished_entry h (i, a)"
    by (metis neq0_conv)
  with find audit(3) show ?thesis by blast
qed

text \<open>C20: \<open>auditTimer\<close> forgets exactly the finished timers, and frees exactly those of them that
  the program has no pointer to; every other timer stays as it is.\<close>

theorem tm_audit_exact:
  assumes "tm_reach (m, h, held)" and "TimerManager_auditTimer m h = (r, m1, h1)"
  shows "umap_find (t_map m1) i =
      (case umap_find (t_map m) i of None \<Rightarrow> None
       | Some a \<Rightarrow> if finished_entry h (i, a) then None else Some a)
    \<and> (h1 a = None \<longleftrightarrow> h a = None \<or> held a = 0 \<and> finished_entry h (i, a))
    \<and> (h1 a = Some (t, n) \<longrightarrow> (\<exists>n0. h a = Some (t, n0)))"
  using audit_exact [OF assms] .

text \<open>A timer that has run out is forgotten and, without a holder, freed; one that was never
  started stays.\<close>

theorem tm_audit_exact_witness:
  "\<exists>(m :: unit timer_manager) h held r m1 h1.
      tm_reach (m, h, held) \<and> TimerManager_auditTimer m h = (r, m1, h1)
    \<and> umap_find (t_map m1) 0 = None \<and> umap_find (t_map m1) 1 = Some 200 \<and> h 100 \<noteq> None \<and> h1 100 = None"
proof -
  let ?m = "fst two_timers" and ?h = "fst (snd two_timers)"
  let ?h1 = "?h(100 \<mapsto> (Timer_new\<lparr>t_curRound := 2\<rparr>, 2))"
  let ?held = "(\<lambda>a :: addr. 0 :: nat)(100 := 1, 200 := 1)"
  have "tm_step (?m, ?h, ?held) (?m, ?h1, ?held)"
    by (rule tm_step.use [of _ _ Timer_new]) (simp add: two_timers_eval)
  moreover have "two_timers = (?m, ?h, ?held)" by (simp add: two_timers_eval)
  ultimately have "tm_reach (?m, ?h1, ?held)"
    using two_timers_reach tm_reach.step by metis
  then have reach: "tm_reach (?m, shared_drop 100 ?h1, ?held(100 := ?held 100 - 1))"
    by (rule tm_reach.step [OF _ tm_step.drop]) simp
  let ?h2 = "shared_drop 100 ?h1"
  obtain r m1 h1 where audit: "TimerManager_auditTimer ?m ?h2 = (r, m1, h1)" by (rule prod_cases3)
  have h2: "?h2 100 = Some (Timer_new\<lparr>t_curRound := 2\<rparr>, 1)" "?h2 200 = Some (Timer_new, 2)"
    by (simp_all add: shared_drop_def two_timers_eval)
  have fin: "finished_entry ?h2 (i, 100)" "\<not> finished_entry ?h2 (i, 200)" for i
    unfolding finished_entry_def snd_conv h2 by (simp_all add: Timer_isFinished_def Timer_new_def)
  note exact = tm_audit_exact [OF reach audit]
  have find: "umap_find (t_map ?m) 0 = Some 100" "umap_find (t_map ?m) 1 = Some 200"
    by (simp_all add: two_timers_eval umap_find_def)
  have held: "(?held(100 := ?held 100 - 1)) 100 = 0" by simp
  have "umap_find (t_map m1) 0 = None" "h1 100 = None"
    using exact [of 0 100] by (simp_all only: fin find held option.case if_True simp_thms)
  moreover have "umap_find (t_map m1) 1 = Some 200"
    using exact [of 1 200] by (simp only: fin find option.case if_False simp_thms)
  moreover have "?h2 100 \<noteq> None" by (simp add: h2(1))
  ultimately show ?thesis using reach audit by blast
qed

text \<open>\<open>killTimer\<close> takes the timer out of the map and always reports success; it does not stop
  the timer: as long as the program has a pointer to it, it stays armed with all its rounds,
  and only without one it is freed.\<close>

theorem tm_kill_does_not_stop:
  assumes "tm_reach (m, h, held)" and "umap_find (t_map m) i = Some a" and "h a = Some (t, n)"
    and "TimerManager_killTimer i m h = (r, m1, h1)"
  shows "r \<and> umap_find (t_map m1) i = None
    \<and> h1 a = (if 0 < held a then Some (t, held a) else None)"
proof -
  have ok: "tm_ok m h held" using tm_reach_ok [OF assms(1)] by simp
  then have um: "umap_ok (t_map m)" and one: "entries_at (t_map m) a \<le> 1" by (simp_all add: tm_ok_def)
  have "0 < entries_at (t_map m) a"
    using assms(2) umap_find_in_set [OF um] entries_pos [of "t_map m" a] by blast
  then have "n = 1 + held a" using one tm_refs(2) [OF ok assms(3)] by simp
  then have "shared_drop a h a = (if 0 < held a then Some (t, held a) else None)"
    using assms(3) by (simp add: shared_drop_def)
  moreover have "r" "h1 = shared_drop a h" "t_map m1 = umap_erase i (t_map m)"
    using assms(2,4) by (auto simp: TimerManager_killTimer_def)
  moreover have "umap_find (umap_erase i (t_map m)) i = None" using um by (rule timers.erased_not_found)
  ultimately show ?thesis by simp
qed

text \<open>A timer that was armed before it is killed is still armed.\<close>

theorem tm_kill_does_not_stop_witness:
  "let m = fst two_timers; h = fst (snd two_timers);
      t = snd (Timer_startForever good_env 10 (UserHandler ()) Timer_new);
      (r, m1, h1) = TimerManager_killTimer 0 m (h(100 \<mapsto> (t, 2)))
    in Timer_pending t \<and> r \<and> h1 100 = Some (t, 1)"
proof -
  let ?m = "fst two_timers" and ?h = "fst (snd two_timers)"
  let ?t = "snd (Timer_startForever good_env 10 (UserHandler ()) Timer_new)"
  let ?h1 = "?h(100 \<mapsto> (?t, 2))"
  let ?held = "(\<lambda>a :: addr. 0 :: nat)(100 := 1, 200 := 1)"
  have "tm_step (?m, ?h, ?held) (?m, ?h1, ?held)"
    by (rule tm_step.use [of _ _ Timer_new]) (simp add: two_timers_eval)
  moreover have "two_timers = (?m, ?h, ?held)" by (simp add: two_timers_eval)
  ultimately have reach: "tm_reach (?m, ?h1, ?held)"
    using two_timers_reach tm_reach.step by metis
  obtain r m1 h1 where kill: "TimerManager_killTimer 0 ?m ?h1 = (r, m1, h1)" by (rule prod_cases3)
  have find: "umap_find (t_map ?m) 0 = Some 100" and at: "?h1 100 = Some (?t, 2)"
    by (simp_all add: two_timers_eval umap_find_def)
  have "Timer_pending ?t"
    by (simp add: Timer_pending_def Timer_startForever_def Timer_startRounds_def good_env_def
        Timer_new_def Let_def)
  moreover note tm_kill_does_not_stop [OF reach find at kill]
  ultimately show ?thesis using kill by (simp add: Let_def)
qed

text \<open>When the 32-bit id counter comes round to an id still in use, \<open>getTimer\<close> returns the new
  timer with the id of the old one: the new timer is not in the map, and killing the id kills
  the old timer.\<close>

theorem tm_id_collision:
  assumes "tm_ok m h held" and "umap_find (t_map m) (uniqueID_atomic m) = Some b" and "h a = None"
    and "TimerManager_getTimer a m h = (i, m1, h1)"
  shows "umap_find (t_map m1) i = Some b \<and> b \<noteq> a \<and> (\<forall>j. umap_find (t_map m1) j \<noteq> Some a)
    \<and> h1 a = Some (Timer_new, 1)"
proof -
  have um: "umap_ok (t_map m)" using assms(1) by (simp add: tm_ok_def)
  have none: "umap_find (t_map m) j \<noteq> Some a" for j
    using tm_refs(1) [OF assms(1), of a] assms(3) by blast
  have i: "i = uniqueID_atomic m" and m1: "t_map m1 = umap_emplace (uniqueID_atomic m) a (t_map m)"
    and h1: "h1 = shared_new a Timer_new h"
    using assms(2,4)
    by (auto simp: TimerManager_getTimer_def TimerManager_getUniqueID_def Let_def)
  have "umap_find (t_map m1) = umap_find (t_map m)"
    unfolding m1 using um assms(2) by (rule timers.emplace_keeps_old)
  then show ?thesis using none assms(2) by (auto simp: i h1 shared_new_def)
qed

theorem tm_id_collision_witness:
  "\<exists>i m1 h1. TimerManager_getTimer 300 (fst two_timers\<lparr>uniqueID_atomic := 0\<rparr>) (fst (snd two_timers)) = (i, m1, h1)
    \<and> umap_find (t_map m1) i = Some 100 \<and> h1 300 = Some (Timer_new, 1)"
proof -
  let ?m = "fst two_timers\<lparr>uniqueID_atomic := 0\<rparr>" and ?h = "fst (snd two_timers)"
  have "tm_ok (fst two_timers) ?h (snd (snd two_timers))"
    using tm_reach_ok [OF two_timers_reach] by (simp add: case_prod_beta)
  then have ok: "tm_ok ?m ?h (snd (snd two_timers))" by (simp add: tm_ok_def)
  have find: "umap_find (t_map ?m) (uniqueID_atomic ?m) = Some 100" "?h 300 = None"
    by (simp_all add: two_timers_eval umap_find_def)
  obtain i m1 h1 where get: "TimerManager_getTimer 300 ?m ?h = (i, m1, h1)" by (rule prod_cases3)
  from tm_id_collision [OF ok find get] get show ?thesis by blast
qed

text \<open>The manager with its own loop starts the loop's thread before there is any event in it:
  the thread may run through the event loop and finish before the audit timer is added, and
  from then on no timer of the manager ever fires.\<close>

theorem tm_own_loop_may_finish:
  assumes "event_base_loop_returns api (event_base_loop_enter api b)"
  shows "\<exists>m w1. TimerManager_new Loop_hooks e add (Loop_run_steps api Loop_hooks (next_tid w) 8) a (Some b)
      None t audit w = (Inr m, w1)
    \<and> map_option l_status (objs w1 a) = Some StatusFinished \<and> calls w1 (next_tid w) = []"
proof -
  define w1 where "w1 = snd (Loop_new a (Some b) w)"
  have new: "Loop_new a (Some b) w = (None, w1)" "next_tid w1 = next_tid w"
    "\<exists>l. objs w1 a = Some l \<and> l_status l = StatusInit \<and> l_base l = Some b"
    by (simp_all add: w1_def Loop_new_def Let_def)
  obtain l where l: "objs w1 a = Some l" "l_status l = StatusInit" "l_base l = Some b"
    using new(3) by blast
  have "\<exists>w2. Loop_start Loop_hooks True t a w1 = Inr (True, w2)
      \<and> (let w3 = Loop_run_steps api Loop_hooks (next_tid w) 8 w2
         in map_option l_status (objs w3 a) = Some StatusFinished \<and> calls w3 (next_tid w) = [])"
    using l assms new(2)
    by (simp add: Loop_start_def Loop_hooks_def eval_nat_numeral Loop_run_step_def set_loop_def
        map_base_def Let_def)
  then show ?thesis
    by (auto simp: TimerManager_new_def TimerManager_init_def new(1) audit_event_def
        option.map_comp comp_def Let_def split: option.split)
qed

theorem tm_own_loop_may_finish_witness:
  "\<exists>(m :: unit timer_manager) w1. TimerManager_new Loop_hooks good_env (\<lambda>b. b\<lparr>fb_events := fb_events b + 1\<rparr>)
      (Loop_run_steps flag_api Loop_hooks 1 8) 7 (Some (busy_base\<lparr>fb_events := 0\<rparr>)) None 0 () loops_init =
      (Inr m, w1) \<and> map_option l_status (objs w1 7) = Some StatusFinished"
proof -
  let ?b = "busy_base\<lparr>fb_events := 0\<rparr>"
  have "event_base_loop_returns flag_api (event_base_loop_enter flag_api ?b)" "next_tid (loops_init :: flag_base loops) = 1"
    by (simp_all add: loop_eval)
  with tm_own_loop_may_finish [of flag_api ?b, where w = loops_init and e = good_env and audit = "()" and a = 7
      and t = 0 and add = "\<lambda>b. b\<lparr>fb_events := fb_events b + 1\<rparr>"]
  show ?thesis by auto
qed

text \<open>Destroying a manager on a given loop: the member loop was never started, and the timers that
  stay are those the program points to.\<close>

lemma drop_timers_ok:
  "refs_ok h (\<lambda>a. entries_at es a + r a) \<Longrightarrow>
    \<exists>h1. drop_timers False es h = Some h1 \<and> refs_ok h1 r"
proof (induction es arbitrary: h)
  case Nil
  then show ?case by simp
next
  case (Cons e es)
  obtain i a where e: "e = (i, a)" by (cases e)
  let ?r = "\<lambda>b. entries_at (e # es) b + r b"
  obtain t where t: "h a = Some (t, ?r a)"
    using Cons.prems by (rule refs_cell [where a = a]) (simp add: e)
  have "refs_ok (shared_drop a h) (?r(a := ?r a - 1))"
    using Cons.prems by (rule refs_drop) (simp add: e)
  also have "?r(a := ?r a - 1) = (\<lambda>b. entries_at es b + r b)" by (auto simp: e)
  finally show ?case using Cons.IH [of "shared_drop a h"] t by (simp add: e)
qed

theorem tm_destroy_given_loop:
  assumes ok: "tm_ok m h held" and l: "objs w own_at = Some l" "l_thread l = None"
    and other: "loop_at \<noteq> own_at" "objs w loop_at \<noteq> None"
  shows "\<exists>h1 w1. TimerManager_destroy api hk remove id racing during own_at loop_at m h w = Some (Inr (h1, w1))
    \<and> (\<forall>a. h1 a \<noteq> None \<longleftrightarrow> 0 < held a) \<and> objs w1 own_at = None \<and> objs w1 loop_at \<noteq> None
    \<and> Loop_get (l_id l) w1 = None"
proof -
  let ?w = "audit_event remove loop_at m w"
  have w: "objs ?w own_at = Some l" "objs ?w loop_at \<noteq> None"
    using l other by (auto simp: audit_event_def split: option.split)
  then have destroy: "Loop_destroy api hk racing during own_at ?w = Some (Inr (Loop_unregister own_at l ?w))"
    using l(2) by (simp add: Loop_destroy_def Loop_destroy_end_def)
  obtain h1 where h1: "drop_timers False (t_map m) h = Some h1" "refs_ok h1 held"
    using drop_timers_ok ok by (fastforce simp: tm_ok_def)
  have "\<forall>a. h1 a \<noteq> None \<longleftrightarrow> 0 < held a" using refs_okD(1) [OF h1(2)] by simp
  moreover have "objs (Loop_unregister own_at l ?w) loop_at = objs ?w loop_at"
    "objs (Loop_unregister own_at l ?w) own_at = None" "Loop_get (l_id l) (Loop_unregister own_at l ?w) = None"
    using other(1) by (simp_all add: Loop_unregister_def Loop_get_def smap_find_def smap_erase_def)
  moreover obtain l2 where "objs ?w loop_at = Some l2" using w(2) by blast
  ultimately show ?thesis
    using destroy h1(1) by (simp add: TimerManager_destroy_def)
qed

text \<open>A manager with its own loop frees the base of its timers before the map: when one that only
  the map points to has an event, the destruction never succeeds.\<close>

lemma drop_timers_gone:
  "(i, a) \<in> set es \<Longrightarrow> h a = Some (t, 1) \<Longrightarrow> t_event t \<noteq> None \<Longrightarrow> drop_timers True es h = None"
proof (induction es arbitrary: h)
  case Nil
  then show ?case by simp
next
  case (Cons e es)
  obtain j b where e: "e = (j, b)" by (cases e)
  show ?case
  proof (cases "b = a")
    case True
    with Cons.prems e show ?thesis by simp
  next
    case False
    with Cons.prems e have "(i, a) \<in> set es" "shared_drop b h a = Some (t, 1)" by (auto simp: drop_other)
    with Cons.IH Cons.prems e show ?thesis by (auto split: option.split)
  qed
qed

lemma destroyed_gone: "Loop_destroy api hk racing during b w = Some (Inr w1) \<Longrightarrow> objs w1 b = None"
  by (auto simp: Loop_destroy_def Loop_destroy_end_def Loop_unregister_def
      split: option.splits sum.splits if_splits)

theorem tm_destroy_own_loop_fails:
  assumes "(i, a) \<in> set (t_map m)" and "h a = Some (t, 1)" and "t_event t \<noteq> None"
  shows "TimerManager_destroy api hk remove between racing during own_at own_at m h w \<noteq> Some (Inr s)"
  using drop_timers_gone [where h = h and a = a, OF assms]
  by (auto simp: TimerManager_destroy_def dest: destroyed_gone split: option.split sum.split)

theorem tm_destroy_own_loop_fails_witness:
  "TimerManager_destroy flag_api Loop_hooks id id id id 7 7
     \<lparr>uniqueID_atomic = 1, t_map = [(0, 100)], audit_timer = None\<rparr>
     (\<lambda>a. if a = 100 then Some (snd (Timer_startForever good_env 10 (UserHandler ()) Timer_new), 1) else None)
     one_loop = Some (Inl FreedBase)"
proof -
  let ?t = "snd (Timer_startForever good_env 10 (UserHandler ()) Timer_new)"
  have t: "t_event ?t \<noteq> None"
    by (simp add: Timer_startForever_def Timer_startRounds_def good_env_def Timer_new_def Let_def)
  have "\<exists>w1. Loop_destroy flag_api Loop_hooks id id 7 one_loop = Some (Inr w1) \<and> objs w1 7 = None"
    by (simp add: Loop_destroy_def Loop_destroy_end_def Loop_unregister_def loop_eval)
  with t show ?thesis by (auto simp: TimerManager_destroy_def audit_event_def)
qed

end
