(* ===== verification/ManagedTimers.thy ===== *)
theory ManagedTimers
  imports TimerManager
begin

text \<open>
  Timers at work under a manager: the timers live in the heap of shared objects, libevent calls
  them there, the program drops its pointers, and the manager audits and kills. The theory
  composes \<open>Timer\<close>, \<open>TimerManager\<close> and the use counts.
\<close>

section \<open>Timers in the heap\<close>

text \<open>A method call through a shared pointer; \<open>None\<close> is a call through a dangling one.\<close>

definition heap_call ::
    "('u timer \<Rightarrow> bool \<times> 'u timer) \<Rightarrow> addr \<Rightarrow> 'u timer sheap \<Rightarrow> (bool \<times> 'u timer sheap) option" where
  "heap_call f a h =
     (case h a of
        None \<Rightarrow> None
      | Some (t, n) \<Rightarrow> (let (r, t1) = f t in Some (r, h(a \<mapsto> (t1, n)))))"

text \<open>
  The timeouts of the timer at an address; destroying a timer has freed its event, so there are
  none where no timer is. The handlers leave the heap alone.
\<close>

definition heap_timeouts ::
    "('u, 'w) user_code \<Rightarrow> event_env list \<Rightarrow> addr \<Rightarrow> 'u timer sheap \<Rightarrow> 'w
      \<Rightarrow> timer_error + 'u timer sheap \<times> 'w" where
  "heap_timeouts uc es a h w =
     (case h a of
        None \<Rightarrow> Inr (h, w)
      | Some (t, n) \<Rightarrow>
          (case Timer_run uc es t w of
             Inl err \<Rightarrow> Inl err
           | Inr (t1, w1) \<Rightarrow> Inr (h(a \<mapsto> (t1, n)), w1)))"

lemma get_timer_cell:
  assumes "TimerManager_getTimer a m h = (i, m1, h1)" and "umap_find (t_map m) (uniqueID_atomic m) = None"
    and "tm_ok m h held"
  shows "i = uniqueID_atomic m" and "umap_find (t_map m1) i = Some a" and "h1 a = Some (Timer_new, 2)"
proof -
  have um: "umap_ok (t_map m)" using assms(3) by (simp add: tm_ok_def)
  show i: "i = uniqueID_atomic m"
    using assms(1) by (auto simp: TimerManager_getTimer_def TimerManager_getUniqueID_def Let_def)
  have "t_map m1 = umap_emplace i a (t_map m)"
    using assms(1) by (auto simp: TimerManager_getTimer_def TimerManager_getUniqueID_def Let_def)
  then show "umap_find (t_map m1) i = Some a"
    using timers.emplaced_fresh_found [OF um] assms(2) i by simp
  show "h1 a = Some (Timer_new, 2)"
    using assms(1,2) by (auto simp: TimerManager_getTimer_def TimerManager_getUniqueID_def
        shared_new_def shared_copy_def Let_def)
qed

text \<open>A started timer is finished in the sense of the audit exactly when its rounds are over.\<close>

lemma started_not_finished:
  assumes "Timer_startRounds e i r h t = (True, t1)" and "k < unat r"
  shows "\<not> Timer_isFinished (t1\<lparr>t_curRound := of_nat k\<rparr>)"
proof -
  have "k < 2 ^ 64" using assms(2) unat_lt_2p [of r] by simp
  then have "unat (of_nat k :: u64) = k" by (simp add: unat_of_nat)
  then show ?thesis using started_armed(3) [OF assms(1)] assms(2)
    by (simp add: Timer_isFinished_def word_le_nat_alt)
qed

lemma started_run_out_finished:
  assumes "Timer_startRounds e i r h t = (True, t1)" and "r \<noteq> - 1"
  shows "Timer_isFinished (run_out t1)"
  using started_armed(3) [OF assms(1)] assms(2)
  by (simp add: Timer_isFinished_def run_out_def word_le_plus_one_iff)

text \<open>A timer of the manager from \<open>getTimer\<close> to the last timeout seen.\<close>

lemma managed_run:
  assumes reach: "tm_reach (m, h, held)" and fresh: "h a = None"
    and free: "umap_find (t_map m) (uniqueID_atomic m) = None"
    and get: "TimerManager_getTimer a m h = (i, m1, h1)"
    and start: "heap_call (Timer_startRounds e interval r (UserHandler u)) a h1 = Some (True, h2)"
    and keeps: "user_keeps uc u g" and r: "0 < r"
  obtains t where "Timer_startRounds e interval r (UserHandler u) Timer_new = (True, t)"
    and "heap_timeouts uc es a (shared_drop a h2) w =
      Inr (h2(a \<mapsto> (if length es < unat r then t\<lparr>t_curRound := of_nat (length es)\<rparr> else run_out t, 1)),
        (g ^^ min (length es) (unat r)) w)"
    and "tm_reach (m1, h2(a \<mapsto>
        (if length es < unat r then t\<lparr>t_curRound := of_nat (length es)\<rparr> else run_out t, 1)), held(a := 0))"
    and "umap_find (t_map m1) i = Some a"
proof -
  have ok: "tm_ok m h held" using tm_reach_ok [OF reach] by simp
  note cell = get_timer_cell [OF get free ok]
  obtain t where t: "Timer_startRounds e interval r (UserHandler u) Timer_new = (True, t)"
    and h2: "h2 = h1(a \<mapsto> (t, 2))"
    using start by (auto simp: heap_call_def cell(3) split: prod.splits)
  note s = started_armed [OF t]
  let ?t = "if length es < unat r then t\<lparr>t_curRound := of_nat (length es)\<rparr> else run_out t"
  have "0 < unat r" using r by (simp add: unat_gt_0)
  then have left: "rounds_left t = unat r" using s(5) by simp
  have call: "call_handler uc e (UserHandler u) t w = Inr (t, g w)" for e t w
    using keeps by (simp add: user_keeps_def)
  have run: "Timer_run uc es t w = Inr (?t, (g ^^ min (length es) (unat r)) w)"
    using run_counts [OF call s(1,2), of es w] by (simp add: left s(4) min_def)
  have dropped: "shared_drop a h2 = h2(a \<mapsto> (t, 1))" by (simp add: h2 shared_drop_def)
  have out: "heap_timeouts uc es a (shared_drop a h2) w =
      Inr (h2(a \<mapsto> (?t, 1)), (g ^^ min (length es) (unat r)) w)"
    using run by (simp add: heap_timeouts_def dropped)
  have "tm_reach (m1, h1, held(a := 1))"
    by (rule tm_reach.step [OF reach tm_step.get [OF fresh get]])
  then have "tm_reach (m1, h2, held(a := 1))"
    unfolding h2 by (rule tm_reach.step) (rule tm_step.use [of h1 a Timer_new 2, OF cell(3)])
  then have "tm_reach (m1, shared_drop a h2, (held(a := 1))(a := (held(a := 1)) a - 1))"
    by (rule tm_reach.step) (rule tm_step.drop, simp)
  then have "tm_reach (m1, h2(a \<mapsto> (t, 1)), held(a := 0))" by (simp add: dropped)
  then have "tm_reach (m1, (h2(a \<mapsto> (t, 1)))(a \<mapsto> (?t, 1)), held(a := 0))"
    by (rule tm_reach.step) (rule tm_step.use [of _ _ t], simp)
  then have "tm_reach (m1, h2(a \<mapsto> (?t, 1)), held(a := 0))" by (simp only: fun_upd_upd)
  with t out show thesis using cell(2) by (rule that)
qed

section \<open>Properties\<close>

text \<open>C13: A timer that the program got from the manager, started for \<open>r\<close> rounds and let go of is
  called once per timeout until it has been called \<open>r\<close> times. An audit keeps it, armed, as long
  as rounds are left, and forgets and frees it afterwards; a kill at any time forgets and frees
  it, and no call follows. (The rounds are neither 0 nor \<open>2 ^ 64 - 1\<close>: a timer for no rounds counts
  as finished before its one call, and one for \<open>2 ^ 64 - 1\<close> never does.)\<close>
theorem managed_timer_life:
  assumes "tm_reach (m, h, held)" and "h a = None"
    and "umap_find (t_map m) (uniqueID_atomic m) = None"
    and "TimerManager_getTimer a m h = (i, m1, h1)"
    and "heap_call (Timer_startRounds e interval r (UserHandler u)) a h1 = Some (True, h2)"
    and "user_keeps uc u g" and "0 < r" and "r \<noteq> - 1"
  shows "\<exists>h3. heap_timeouts uc es a (shared_drop a h2) w =
        Inr (h3, (g ^^ min (length es) (unat r)) w)
    \<and> (case TimerManager_auditTimer m1 h3 of (ok, m4, h4) \<Rightarrow>
         if length es < unat r
         then umap_find (t_map m4) i = Some a \<and> (\<exists>t n. h4 a = Some (t, n) \<and> Timer_pending t)
         else umap_find (t_map m4) i = None \<and> h4 a = None)
    \<and> (case TimerManager_killTimer i m1 h3 of (ok, m4, h4) \<Rightarrow>
         umap_find (t_map m4) i = None \<and> h4 a = None
         \<and> (\<forall>fs w. heap_timeouts uc fs a h4 w = Inr (h4, w)))"
proof -
  obtain t where t: "Timer_startRounds e interval r (UserHandler u) Timer_new = (True, t)"
    and run: "heap_timeouts uc es a (shared_drop a h2) w = Inr (h2(a \<mapsto>
        (if length es < unat r then t\<lparr>t_curRound := of_nat (length es)\<rparr> else run_out t, 1)),
        (g ^^ min (length es) (unat r)) w)"
    and reach: "tm_reach (m1, h2(a \<mapsto>
        (if length es < unat r then t\<lparr>t_curRound := of_nat (length es)\<rparr> else run_out t, 1)), held(a := 0))"
    and find: "umap_find (t_map m1) i = Some a"
    by (rule managed_run [OF assms(1-7)])
  let ?t = "if length es < unat r then t\<lparr>t_curRound := of_nat (length es)\<rparr> else run_out t"
  let ?h = "h2(a \<mapsto> (?t, 1))"
  have at: "?h a = Some (?t, 1)" by simp
  have fin: "finished_entry ?h (i, a) \<longleftrightarrow> \<not> length es < unat r"
    using started_not_finished [OF t] started_run_out_finished [OF t assms(8)]
    by (simp add: finished_entry_def)
  obtain ok m4 h4 where audit: "TimerManager_auditTimer m1 ?h = (ok, m4, h4)" by (rule prod_cases3)
  note exact = audit_exact [OF reach audit, of i a]
  have "(if length es < unat r
         then umap_find (t_map m4) i = Some a \<and> (\<exists>t n. h4 a = Some (t, n) \<and> Timer_pending t)
         else umap_find (t_map m4) i = None \<and> h4 a = None)"
  proof (cases "length es < unat r")
    case True
    have "Timer_pending ?t"
      using armed_advance(1) [OF started_armed(1) [OF t], of "length es"] True started_armed(4,5) [OF t]
      by (simp add: armed_pending)
    moreover obtain t4 n4 where "h4 a = Some (t4, n4)" using exact True fin at by (cases "h4 a") auto
    moreover have "t4 = ?t"
      using audit_exact [OF reach audit, of i a t4 n4] calculation(2) at by auto
    ultimately show ?thesis using exact True fin find by auto
  next
    case False
    then show ?thesis using exact fin find by simp
  qed
  moreover obtain ok1 m5 h5 where kill: "TimerManager_killTimer i m1 ?h = (ok1, m5, h5)"
    by (rule prod_cases3)
  have gone: "umap_find (t_map m5) i = None" "h5 a = None"
    using tm_kill_does_not_stop [OF reach find at kill] by simp_all
  moreover have "heap_timeouts uc fs a h5 w = Inr (h5, w)" for fs w
    using gone(2) by (simp add: heap_timeouts_def)
  ultimately show ?thesis
    by (intro exI [of _ ?h]) (simp only: run audit kill prod.case, blast)
qed

theorem managed_timer_life_witness:
  "\<exists>(m1 :: unit timer_manager) h2 h3 i.
     TimerManager_getTimer 100 (TimerManager_members good_env ()) (\<lambda>a. None) = (i, m1, h2)
   \<and> (\<exists>h4. heap_call (Timer_startRounds good_env 250 3 (UserHandler ())) 100 h2 = Some (True, h4)
       \<and> heap_timeouts \<lparr>call_user = (\<lambda>u t w. (t, Suc w)), call_cb = (\<lambda>c p n t w. (0, t, w))\<rparr>
           (replicate 5 good_env) 100 (shared_drop 100 h4) 0 = Inr (h3, 3)
       \<and> (case TimerManager_auditTimer m1 h3 of (ok, m5, h5) \<Rightarrow> h5 100 = None))"
proof -
  let ?m = "TimerManager_members good_env () :: unit timer_manager"
  let ?uc = "\<lparr>call_user = (\<lambda>u t w. (t, Suc w)), call_cb = (\<lambda>c p n t w. (0, t, w))\<rparr> :: (unit, nat) user_code"
  obtain i m1 h1 where get: "TimerManager_getTimer 100 ?m (\<lambda>a. None) = (i, m1, h1)" by (rule prod_cases3)
  have none: "(\<lambda>a. None :: (unit timer \<times> nat) option) 100 = None" by simp
  have free: "umap_find (t_map ?m) (uniqueID_atomic ?m) = None"
    by (simp add: TimerManager_members_def)
  note cell = get_timer_cell(3) [OF get free tm_ok_new]
  obtain t where "Timer_startRounds good_env 250 3 (UserHandler ()) Timer_new = (True, t)"
    using start_new_timer by blast
  then have start: "heap_call (Timer_startRounds good_env 250 3 (UserHandler ())) 100 h1 = Some (True, h1(100 \<mapsto> (t, 2)))"
    by (simp add: heap_call_def cell)
  have keeps: "user_keeps ?uc () Suc" by (simp add: user_keeps_def)
  have r: "(0 :: u64) < 3" "(3 :: u64) \<noteq> - 1" by simp_all
  have more: "(length (replicate 5 good_env) < unat (3 :: u64)) = False" by simp
  obtain h3 where run: "heap_timeouts ?uc (replicate 5 good_env) 100 (shared_drop 100 (h1(100 \<mapsto> (t, 2)))) 0 =
      Inr (h3, (Suc ^^ min (length (replicate 5 good_env)) (unat (3 :: u64))) 0)"
    and audit: "case TimerManager_auditTimer m1 h3 of (ok, m4, h4) \<Rightarrow>
      umap_find (t_map m4) i = None \<and> h4 100 = None"
    using managed_timer_life [OF tm_reach.init none free get start keeps r, of "replicate 5 good_env" 0,
      unfolded more if_False]
    by (elim exE conjE) (rule that)
  have "min (length (replicate 5 good_env)) (unat (3 :: u64)) = 3" by simp
  moreover have "(Suc ^^ 3) 0 = 3" by (simp add: eval_nat_numeral)
  ultimately have "(Suc ^^ min (length (replicate 5 good_env)) (unat (3 :: u64))) 0 = 3" by metis
  with run have "heap_timeouts ?uc (replicate 5 good_env) 100 (shared_drop 100 (h1(100 \<mapsto> (t, 2)))) 0 =
      Inr (h3, 3)" by simp
  moreover obtain ok m5 h5 where "TimerManager_auditTimer m1 h3 = (ok, m5, h5)" by (rule prod_cases3)
  moreover from this have "h5 100 = None" using audit by simp
  ultimately show ?thesis using get start by auto
qed

end
