(* ===== verification/TimerExamples.thy ===== *)
theory TimerExamples
  imports ManagedTimers
begin

text \<open>
  The example of a timer manager, run on the model: what the program \<open>timerManagerExample()\<close> does
  with the timers it gets from a manager (example/timerManagerExample.cpp).
\<close>

section \<open>A callback that counts down\<close>

text \<open>
  The lambdas of \<open>timerManagerExample()\<close>; \<open>Audit\<close> is the manager's own. The rest of the program is
  the variable \<open>counter\<close> and what was printed.
\<close>

datatype manager_example = Audit | Counting | Print string

definition manager_example_code :: "(manager_example, int \<times> string list) user_code" where
  "manager_example_code =
     \<lparr>call_user = (\<lambda>u t w. case u of Print s \<Rightarrow> (t, fst w, snd w @ [s]) | _ \<Rightarrow> (t, w)),
      call_cb = (\<lambda>c p n t w. (fst w, t, fst w - 1, snd w))\<rparr>"

text \<open>
  The first and the third block: a new manager, a timer at \<open>a\<close> with the callback, whose pointer
  goes out of scope; timeouts \<open>es\<close> of the timer until it is killed, and \<open>fs\<close> afterwards. \<open>p\<close> is the
  address of the variable \<open>timerIDCb001\<close>. The blocks differ in the interval and in the loop.
\<close>

definition timerManagerExample_counting ::
    "event_env \<Rightarrow> u32 \<Rightarrow> ptr \<Rightarrow> addr \<Rightarrow> event_env list \<Rightarrow> event_env list
      \<Rightarrow> (timer_error + manager_example timer_manager \<times> manager_example timer sheap \<times> int \<times> string list) option"
  where
  "timerManagerExample_counting e interval p a es fs =
     (let (i, m, h) = TimerManager_getTimer a (TimerManager_members e Audit) (\<lambda>a. None)
      in case heap_call (Timer_startCB e interval (Some Counting) p (sint i)) a h of
           None \<Rightarrow> None
         | Some (r, h1) \<Rightarrow>
             (case heap_timeouts manager_example_code es a (shared_drop a h1) (10, []) of
                Inl err \<Rightarrow> Some (Inl err)
              | Inr (h2, w) \<Rightarrow>
                  (let (ok, m1, h3) = TimerManager_killTimer i m h2
                   in Some (map_sum id (Pair m1) (heap_timeouts manager_example_code fs a h3 w)))))"

text \<open>The third block, with the loop of the manager \<open>instance()\<close> for its own manager.\<close>

definition timerManagerExample_shared_loop ::
    "event_env \<Rightarrow> ptr \<Rightarrow> addr \<Rightarrow> event_env list \<Rightarrow> event_env list
      \<Rightarrow> (timer_error + manager_example timer_manager \<times> manager_example timer sheap \<times> int \<times> string list) option"
  where
  "timerManagerExample_shared_loop e p a es fs = timerManagerExample_counting e 100 p a es fs"

definition count_down :: "int \<times> string list \<Rightarrow> int \<times> string list" where
  "count_down w = (fst w - 1, snd w)"

lemma manager_example_cb: "cb_keeps manager_example_code c p n fst count_down"
  by (simp add: cb_keeps_def manager_example_code_def count_down_def)

lemma count_down_pow: "(count_down ^^ n) w = (fst w - int n, snd w)"
  by (induction n) (simp_all add: count_down_def)

lemma start_cb_ok:
  "event_new_ok e \<Longrightarrow> event_add_ok e \<Longrightarrow>
    Timer_startCB e i c p n Timer_new = (True, snd (Timer_startCB e i c p n Timer_new))"
  by (simp add: timer_start_defs Timer_startRounds_def Timer_new_def)

text \<open>The callback of the example, which returns a counter that begins at 10 and counts down, is
  called twelve times when there are timeouts enough, for 10 down to -1, and once per timeout
  before; killing the timer frees it, and no call follows.\<close>
theorem timer_manager_example_counts:
  assumes "event_new_ok e" and "event_add_ok e"
  shows "\<exists>m h. timerManagerExample_counting e interval p a es fs =
      Some (Inr (m, h, 10 - int (min (length es) 12), [])) \<and> t_map m = [] \<and> h a = None"
proof -
  obtain t0 where start: "Timer_startCB e interval (Some Counting) p 0 Timer_new = (True, t0)"
    using start_cb_ok [OF assms] by blast
  let ?k = "min (length es) 12"
  have "\<exists>t. Timer_run manager_example_code es t0 (10, []) = Inr (t, 10 - int ?k, [])"
  proof (cases "length es \<le> 11")
    case True
    then have "\<forall>j < length es. fst ((count_down ^^ j) (10, [])) \<noteq> - 1" by (simp add: count_down_pow)
    from cb_run_before(1) [OF start manager_example_cb this] True show ?thesis
      by (simp add: count_down_pow del: Timer_run.simps)
  next
    case False
    have "\<forall>j < 11. fst ((count_down ^^ j) (10, [])) \<noteq> - 1" "fst ((count_down ^^ 11) (10, [])) = - 1"
      by (simp_all add: count_down_pow)
    from cb_run_until [OF start manager_example_cb this, of es] False show ?thesis
      by (simp add: count_down_pow del: Timer_run.simps funpow.simps)
  qed
  then obtain t where run: "Timer_run manager_example_code es t0 (10, []) = Inr (t, 10 - int ?k, [])" by blast
  show ?thesis
    by (simp add: timerManagerExample_counting_def TimerManager_getTimer_def TimerManager_getUniqueID_def
        TimerManager_members_def heap_call_def heap_timeouts_def shared_new_def shared_copy_def
        shared_drop_def start run TimerManager_killTimer_def umap_emplace_def umap_find_def
        umap_erase_def Let_def del: Timer_run.simps)
qed

theorem timer_manager_example_counts_witness:
  "\<exists>m h. timerManagerExample_counting good_env 500 4096 100 (replicate 20 good_env) [good_env] =
      Some (Inr (m, h, - 2, [])) \<and> h 100 = None"
proof -
  have "event_new_ok good_env" "event_add_ok good_env" by (simp_all add: good_env_def)
  from timer_manager_example_counts [OF this, of 500 4096 100 "replicate 20 good_env" "[good_env]"]
  show ?thesis by auto
qed

section \<open>Timers that are killed\<close>

text \<open>Timeouts of several timers, in the order in which they happen.\<close>

fun heap_run ::
    "('u, 'w) user_code \<Rightarrow> (addr \<times> event_env) list \<Rightarrow> 'u timer sheap \<Rightarrow> 'w
      \<Rightarrow> timer_error + 'u timer sheap \<times> 'w" where
  "heap_run uc [] h w = Inr (h, w)"
| "heap_run uc ((a, e) # evs) h w =
     (case heap_timeouts uc [e] a h w of Inl err \<Rightarrow> Inl err | Inr (h1, w1) \<Rightarrow> heap_run uc evs h1 w1)"

text \<open>
  The first part of the second block, up to its third kill, with the three timers at \<open>a1\<close>, \<open>a2\<close> and
  \<open>a3\<close>; the program keeps its pointer to the first. The timeouts of the six stretches between the
  calls are \<open>eva\<close> and \<open>evb\<close> (between the starts) and \<open>ev1\<close> to \<open>ev4\<close>; the result has what had been
  printed after each.
\<close>

definition timerManagerExample_timer ::
    "(u32 \<Rightarrow> manager_example timer \<Rightarrow> bool \<times> manager_example timer) \<Rightarrow> addr
      \<Rightarrow> manager_example timer_manager \<times> manager_example timer sheap
      \<Rightarrow> u32 \<times> manager_example timer_manager \<times> manager_example timer sheap" where
  "timerManagerExample_timer start a s =
     (let (i, m, h) = TimerManager_getTimer a (fst s) (snd s)
      in (i, m, case heap_call (start i) a h of None \<Rightarrow> h | Some (r, h1) \<Rightarrow> h1))"

text \<open>What a callback prints that has captured the ID of its timer.\<close>

definition id_line :: "string \<Rightarrow> u32 \<Rightarrow> string" where
  "id_line name i = name @ '', timer ID is : '' @ show_nat (unat i)"

definition timerManagerExample_killing ::
    "event_env \<Rightarrow> addr \<Rightarrow> addr \<Rightarrow> addr \<Rightarrow> (addr \<times> event_env) list \<Rightarrow> (addr \<times> event_env) list
      \<Rightarrow> (addr \<times> event_env) list \<Rightarrow> (addr \<times> event_env) list \<Rightarrow> (addr \<times> event_env) list \<Rightarrow> (addr \<times> event_env) list
      \<Rightarrow> timer_error + manager_example timer sheap \<times> (int \<times> string list) list" where
  "timerManagerExample_killing e a1 a2 a3 eva evb ev1 ev2 ev3 ev4 =
     (let (i1, m1, h1) = timerManagerExample_timer (\<lambda>i. Timer_startOnce e 10 (UserHandler (Print ''timer001''))) a1
            (TimerManager_members e Audit, \<lambda>a. None)
      in case heap_run manager_example_code eva h1 (10, []) of
           Inl err \<Rightarrow> Inl err
         | Inr (h2, wa) \<Rightarrow>
      (let (i2, m2, h3) = timerManagerExample_timer
             (\<lambda>i. Timer_startForever e 1000 (UserHandler (Print (id_line ''timer002'' i)))) a2 (m1, h2)
       in case heap_run manager_example_code evb (shared_drop a2 h3) wa of
            Inl err \<Rightarrow> Inl err
          | Inr (h4, wb) \<Rightarrow>
      (let (i3, m3, h5) = timerManagerExample_timer
             (\<lambda>i. Timer_startForever e 1000 (UserHandler (Print (id_line ''timer003'' i)))) a3 (m2, h4)
       in case heap_run manager_example_code ev1 (shared_drop a3 h5) wb of
            Inl err \<Rightarrow> Inl err
          | Inr (h6, w1) \<Rightarrow>
      (let (ok, m4, h7) = TimerManager_killTimer i2 m3 h6
       in case heap_run manager_example_code ev2 h7 w1 of
            Inl err \<Rightarrow> Inl err
          | Inr (h8, w2) \<Rightarrow>
      (let h9 = (case heap_call (\<lambda>t. (True, Timer_stop t)) a1 h8 of None \<Rightarrow> h8 | Some (r, h) \<Rightarrow> h)
       in case heap_run manager_example_code ev3 h9 w2 of
            Inl err \<Rightarrow> Inl err
          | Inr (h10, w3) \<Rightarrow>
      (let (ok, m5, h11) = TimerManager_killTimer i3 m4 h10
       in case heap_run manager_example_code ev4 h11 w3 of
            Inl err \<Rightarrow> Inl err
          | Inr (h12, w4) \<Rightarrow> Inr (h12, [wa, wb, w1, w2, w3, w4])))))))"

text \<open>
  The second part, with a manager of its own and the timers at \<open>a4\<close> and \<open>a5\<close>, which are in scope
  until the end: the timeouts before the start of the second one, until the kill of the first, and
  from there to the closing brace.
\<close>

definition timerManagerExample_held ::
    "event_env \<Rightarrow> addr \<Rightarrow> addr \<Rightarrow> (addr \<times> event_env) list \<Rightarrow> (addr \<times> event_env) list \<Rightarrow> (addr \<times> event_env) list
      \<Rightarrow> manager_example timer sheap \<Rightarrow> int \<times> string list
      \<Rightarrow> timer_error + manager_example timer sheap \<times> (int \<times> string list) list" where
  "timerManagerExample_held e a4 a5 ev5 ev6 ev7 h w =
     (let (i4, m1, h1) = timerManagerExample_timer (\<lambda>i. Timer_startForever e 1000 (UserHandler (Print ''timer004''))) a4
            (TimerManager_members e Audit, h)
      in case heap_run manager_example_code ev5 h1 w of
           Inl err \<Rightarrow> Inl err
         | Inr (h2, w5) \<Rightarrow>
      (let (i5, m2, h3) = timerManagerExample_timer (\<lambda>i. Timer_startForever e 500 (UserHandler (Print ''timer005''))) a5
             (m1, h2)
       in case heap_run manager_example_code ev6 h3 w5 of
            Inl err \<Rightarrow> Inl err
          | Inr (h4, w6) \<Rightarrow>
      (let (ok, m3, h5) = TimerManager_killTimer i4 m2 h4
       in case heap_run manager_example_code ev7 h5 w6 of
            Inl err \<Rightarrow> Inl err
          | Inr (h6, w7) \<Rightarrow> Inr (h6, [w5, w6, w7]))))"

text \<open>The second block, up to its closing brace.\<close>

definition timerManagerExample_block2 ::
    "event_env \<Rightarrow> addr \<Rightarrow> addr \<Rightarrow> addr \<Rightarrow> addr \<Rightarrow> addr \<Rightarrow> (addr \<times> event_env) list \<Rightarrow> (addr \<times> event_env) list
      \<Rightarrow> (addr \<times> event_env) list \<Rightarrow> (addr \<times> event_env) list \<Rightarrow> (addr \<times> event_env) list \<Rightarrow> (addr \<times> event_env) list
      \<Rightarrow> (addr \<times> event_env) list \<Rightarrow> (addr \<times> event_env) list \<Rightarrow> (addr \<times> event_env) list
      \<Rightarrow> timer_error + manager_example timer sheap \<times> (int \<times> string list) list" where
  "timerManagerExample_block2 e a1 a2 a3 a4 a5 eva evb ev1 ev2 ev3 ev4 ev5 ev6 ev7 =
     (case timerManagerExample_killing e a1 a2 a3 eva evb ev1 ev2 ev3 ev4 of
        Inl err \<Rightarrow> Inl err
      | Inr (h, ws) \<Rightarrow>
          map_sum id (\<lambda>(h1, vs). (h1, ws @ vs)) (timerManagerExample_held e a4 a5 ev5 ev6 ev7 h (last ws)))"

text \<open>A heap of timers that print: the living timer at \<open>a\<close> prints \<open>line a\<close>.\<close>

definition printing :: "(addr \<Rightarrow> string) \<Rightarrow> manager_example timer sheap \<Rightarrow> bool" where
  "printing line h \<longleftrightarrow> (\<forall>a t n. h a = Some (t, n) \<longrightarrow> t_event t \<noteq> None \<longrightarrow>
     armed t \<and> t_handler t = UserHandler (Print (line a)))"

definition living :: "'u timer sheap \<Rightarrow> addr set" where
  "living h = {a. \<exists>t n. h a = Some (t, n) \<and> t_event t \<noteq> None}"

text \<open>Timeouts print lines of living timers only, leave every timer its pointers and revive none.\<close>

definition later :: "'u timer sheap \<Rightarrow> 'u timer sheap \<Rightarrow> bool" where
  "later h h1 \<longleftrightarrow> living h1 \<subseteq> living h \<and> (\<forall>a. map_option snd (h1 a) = map_option snd (h a))"

lemma printing_timeout:
  assumes "printing line h"
  shows "\<exists>h1 new. heap_timeouts manager_example_code [e] a h (k, out) = Inr (h1, k, out @ new)
    \<and> printing line h1 \<and> later h h1 \<and> set new \<subseteq> line ` living h"
proof (cases "a \<in> living h")
  case True
  then obtain t n where t: "h a = Some (t, n)" "t_event t \<noteq> None" by (auto simp: living_def)
  then have armed: "armed t" and handler: "t_handler t = UserHandler (Print (line a))"
    using assms by (auto simp: printing_def)
  let ?h = "h(a \<mapsto> (timer_tick t, n))"
  have "Timer_run manager_example_code [e] t (k, out) = Inr (timer_tick t, k, out @ [line a])"
    using run_armed [OF armed, of manager_example_code e "[]"] by (simp add: handler manager_example_code_def)
  then have "heap_timeouts manager_example_code [e] a h (k, out) = Inr (?h, k, out @ [line a])"
    by (simp add: heap_timeouts_def t(1) del: Timer_run.simps)
  moreover have "t_event (timer_tick t) \<noteq> None \<Longrightarrow> armed (timer_tick t)"
    using tick_more(2) [OF armed] tick_last [OF armed] by (cases "rounds_left t = 1") (auto simp: run_out_def)
  then have "printing line ?h"
    using assms handler by (auto simp: printing_def timer_tick_def split: if_splits)
  moreover have "later h ?h" using t by (auto simp: later_def living_def split: if_splits)
  ultimately show ?thesis using True by (intro exI [of _ ?h] exI [of _ "[line a]"]) simp
next
  case False
  then have "heap_timeouts manager_example_code [e] a h (k, out) = Inr (h, k, out)"
    by (auto simp: heap_timeouts_def living_def Timer_pending_def split: option.split prod.split)
  then show ?thesis using assms by (auto simp: later_def)
qed

lemma later_trans: "later h h1 \<Longrightarrow> later h1 h2 \<Longrightarrow> later h h2"
  by (auto simp: later_def)

lemma printing_run:
  "printing line h \<Longrightarrow> \<exists>h1 new. heap_run manager_example_code evs h (k, out) = Inr (h1, k, out @ new)
    \<and> printing line h1 \<and> later h h1 \<and> set new \<subseteq> line ` living h"
proof (induction evs arbitrary: h out)
  case Nil
  then show ?case by (simp add: later_def)
next
  case (Cons ev evs)
  obtain a e where ev: "ev = (a, e)" by (cases ev)
  obtain h1 new where one: "heap_timeouts manager_example_code [e] a h (k, out) = Inr (h1, k, out @ new)"
    "printing line h1" "later h h1" "set new \<subseteq> line ` living h"
    using printing_timeout [OF Cons.prems] by blast
  obtain h2 new2 where "heap_run manager_example_code evs h1 (k, out @ new) = Inr (h2, k, (out @ new) @ new2)"
    "printing line h2" "later h1 h2" "set new2 \<subseteq> line ` living h1"
    using Cons.IH [OF one(2), of "out @ new"] by blast
  moreover have "line ` living h1 \<subseteq> line ` living h" using one(3) by (auto simp: later_def)
  ultimately show ?case using one
    by (intro exI [of _ h2] exI [of _ "new @ new2"]) (auto simp: ev intro: later_trans)
qed

text \<open>The pointers that are left to a timer, and what a kill and a stop do to a heap of timers.\<close>

definition uses :: "'u timer sheap \<Rightarrow> addr \<Rightarrow> nat" where
  "uses h a = (case h a of None \<Rightarrow> 0 | Some (t, n) \<Rightarrow> n)"

lemma later_uses: "later h h1 \<Longrightarrow> uses h1 a = uses h a"
  by (auto simp: later_def uses_def split: option.split) (metis option.map(1,2) option.distinct(1) snd_conv option.inject)+

lemma later_none: "later h h1 \<Longrightarrow> h1 a = None \<longleftrightarrow> h a = None"
  unfolding later_def by (metis option.map_disc_iff)

lemma dropped:
  assumes "printing line h" and "uses h a = 1"
  shows "printing line (shared_drop a h)" and "living (shared_drop a h) \<subseteq> living h - {a}"
    and "shared_drop a h a = None" and "b \<noteq> a \<Longrightarrow> uses (shared_drop a h) b = uses h b"
  using assms
  by (auto simp: uses_def shared_drop_def printing_def living_def split: option.splits if_splits)

lemma stopped:
  assumes "printing line h" and "h a = Some (t, n)"
  shows "printing line (h(a \<mapsto> (Timer_stop t, n)))" and "living (h(a \<mapsto> (Timer_stop t, n))) \<subseteq> living h - {a}"
    and "uses (h(a \<mapsto> (Timer_stop t, n))) b = uses h b"
  using assms
  by (auto simp: uses_def printing_def living_def Timer_stop_def Timer_reset_def split: option.splits if_splits)

text \<open>A timer has been got from a manager and started.\<close>

lemma timer_got:
  assumes "timerManagerExample_timer start a (m, h) = (i, m1, h1)"
    and "start (uniqueID_atomic m) Timer_new = (True, t)"
    and "h a = None" and "umap_find (t_map m) (uniqueID_atomic m) = None"
  shows "i = uniqueID_atomic m" and "uniqueID_atomic m1 = i + 1" and "t_map m1 = umap_emplace i a (t_map m)"
    and "h1 = h(a \<mapsto> (t, 2))"
  using assms
  by (auto simp: timerManagerExample_timer_def TimerManager_getTimer_def TimerManager_getUniqueID_def
      heap_call_def shared_new_def shared_copy_def Let_def)

lemma got_printing:
  assumes got: "timerManagerExample_timer (\<lambda>i. Timer_startRounds e v r (UserHandler (Print (l i)))) a (m, h) = (i, m1, h1)"
    and ok: "event_new_ok e" "event_add_ok e" and new: "h a = None" "umap_find (t_map m) (uniqueID_atomic m) = None"
    and h: "printing line h" "line a = l (uniqueID_atomic m)"
  shows "printing line h1" and "living h1 = insert a (living h)" and "uses h1 a = 2"
    and "b \<noteq> a \<Longrightarrow> h1 b = h b" and "b \<noteq> a \<Longrightarrow> uses h1 b = uses h b"
    and "i = uniqueID_atomic m" "uniqueID_atomic m1 = i + 1" "t_map m1 = umap_emplace i a (t_map m)"
    and "\<exists>t. h1 a = Some (t, 2) \<and> armed t \<and> rounds_left t = max 1 (unat r)"
proof -
  obtain t where t: "Timer_startRounds e v r (UserHandler (Print (l (uniqueID_atomic m)))) Timer_new = (True, t)"
    using ok by (simp add: Timer_startRounds_def Timer_new_def)
  note g = timer_got [OF got t new] and st = started_armed [OF t]
  show "i = uniqueID_atomic m" "uniqueID_atomic m1 = i + 1" "t_map m1 = umap_emplace i a (t_map m)"
    using g by simp_all
  show "printing line h1" using h st by (auto simp: g(4) printing_def split: if_splits)
  show "living h1 = insert a (living h)" using new(1) st(1) by (auto simp: g(4) living_def armed_def)
  show "uses h1 a = 2" "b \<noteq> a \<Longrightarrow> h1 b = h b" "b \<noteq> a \<Longrightarrow> uses h1 b = uses h b" by (simp_all add: g(4) uses_def)
  show "\<exists>t. h1 a = Some (t, 2) \<and> armed t \<and> rounds_left t = max 1 (unat r)" using st by (simp add: g(4))
qed

text \<open>Timers with rounds to spare print a line at each timeout, and live on.\<close>

definition plenty :: "nat \<Rightarrow> manager_example timer sheap \<Rightarrow> bool" where
  "plenty k h \<longleftrightarrow> (\<forall>a t n. h a = Some (t, n) \<longrightarrow> t_event t \<noteq> None \<longrightarrow> k < rounds_left t)"

lemma plenty_less: "plenty (Suc k) h \<Longrightarrow> plenty k h"
  unfolding plenty_def by (blast dest: Suc_lessD)

lemma plenty_run:
  "printing line h \<Longrightarrow> plenty (length evs + k) h \<Longrightarrow>
    \<exists>h1. heap_run manager_example_code evs h (c, out) =
        Inr (h1, c, out @ map (line \<circ> fst) (filter (\<lambda>ev. fst ev \<in> living h) evs))
      \<and> printing line h1 \<and> plenty k h1 \<and> living h1 = living h \<and> later h h1"
proof (induction evs arbitrary: h out)
  case Nil
  then show ?case by (simp add: later_def)
next
  case (Cons ev evs)
  obtain a e where ev: "ev = (a, e)" by (cases ev)
  show ?case
  proof (cases "a \<in> living h")
    case True
    then obtain t n where t: "h a = Some (t, n)" "t_event t \<noteq> None" by (auto simp: living_def)
    then have armed: "armed t" and handler: "t_handler t = UserHandler (Print (line a))"
      using Cons.prems(1) by (auto simp: printing_def)
    have left: "Suc (length evs + k) < rounds_left t"
      using Cons.prems(2) [unfolded plenty_def, rule_format, OF t] by simp
    let ?h = "h(a \<mapsto> (timer_tick t, n))"
    have "Timer_run manager_example_code [e] t (c, out) = Inr (timer_tick t, c, out @ [line a])"
      using run_armed [OF armed, of manager_example_code e "[]"] by (simp add: handler manager_example_code_def)
    then have one: "heap_timeouts manager_example_code [e] a h (c, out) = Inr (?h, c, out @ [line a])"
      by (simp add: heap_timeouts_def t(1) del: Timer_run.simps)
    have "rounds_left t \<noteq> 1" using left by simp
    note more = tick_more [OF armed this]
    have event: "t_event (timer_tick t) \<noteq> None" using more(2) by (simp add: armed_def)
    have handler1: "t_handler (timer_tick t) = UserHandler (Print (line a))"
      using handler by (simp add: more)
    have "printing line ?h" using Cons.prems(1) more handler1 by (auto simp: printing_def split: if_splits)
    moreover have "plenty (length evs + k) ?h"
      unfolding plenty_def
    proof (intro allI impI)
      fix b u i assume u: "?h b = Some (u, i)" "t_event u \<noteq> None"
      show "length evs + k < rounds_left u"
      proof (cases "b = a")
        case False
        then show ?thesis using Cons.prems(2) [unfolded plenty_def, rule_format, of b u i] u by simp
      qed (use u left more(3) in simp)
    qed
    moreover have same: "living ?h = living h" using t event by (auto simp: living_def split: if_splits)
    moreover have "later h ?h" using same t(1) by (auto simp: later_def)
    ultimately obtain h0 where h0: "printing line h0" "plenty (length evs + k) h0" "living h0 = living h" "later h h0"
      and run: "heap_timeouts manager_example_code [e] a h (c, out) = Inr (h0, c, out @ [line a])"
      using one by blast
    from Cons.IH [OF h0(1,2), of "out @ [line a]"] run h0(3,4) True show ?thesis
      by (auto simp: ev intro: later_trans)
  next
    case False
    then have "heap_timeouts manager_example_code [e] a h (c, out) = Inr (h, c, out)"
      by (auto simp: heap_timeouts_def living_def Timer_pending_def split: option.split prod.split)
    moreover have "plenty (length evs + k) h" using Cons.prems(2) plenty_less by simp
    ultimately show ?thesis using Cons.IH [of h out] Cons.prems(1) False by (simp add: ev)
  qed
qed

text \<open>A pointer that goes out of scope while the map has another one.\<close>

lemma released:
  assumes "printing line h" and "uses h a = 2"
  shows "printing line (shared_drop a h)" and "living (shared_drop a h) = living h"
    and "uses (shared_drop a h) b = (if b = a then 1 else uses h b)" and "shared_drop a h b = None \<longleftrightarrow> h b = None"
  using assms
  by (auto simp: uses_def shared_drop_def printing_def living_def split: option.splits if_splits)

text \<open>The parts of the block.\<close>

lemma killing_part:
  assumes ok: "event_new_ok e" "event_add_ok e" and new: "a1 \<noteq> a2" "a1 \<noteq> a3" "a2 \<noteq> a3"
  shows "\<exists>h oa ob o1 o2 o3. timerManagerExample_killing e a1 a2 a3 eva evb ev1 ev2 ev3 ev4 =
      Inr (h, [(10, oa), (10, oa @ ob), (10, oa @ ob @ o1), (10, oa @ ob @ o1 @ o2), (10, oa @ ob @ o1 @ o2 @ o3),
        (10, oa @ ob @ o1 @ o2 @ o3)])
    \<and> set oa \<subseteq> {''timer001''} \<and> set ob \<subseteq> {''timer001'', ''timer002, timer ID is : 1''}
    \<and> set o1 \<subseteq> {''timer001'', ''timer002, timer ID is : 1'', ''timer003, timer ID is : 2''}
    \<and> set o2 \<subseteq> {''timer001'', ''timer003, timer ID is : 2''} \<and> set o3 \<subseteq> {''timer003, timer ID is : 2''}
    \<and> living h = {} \<and> h a1 \<noteq> None \<and> (\<forall>a. a \<noteq> a1 \<longrightarrow> h a = None)"
proof -
  let ?line = "\<lambda>a. if a = a1 then ''timer001'' else if a = a2 then ''timer002, timer ID is : 1'' else ''timer003, timer ID is : 2''"
  have lines: "id_line ''timer002'' 1 = ''timer002, timer ID is : 1''"
    "id_line ''timer003'' 2 = ''timer003, timer ID is : 2''" by code_simp+
  have empty: "printing ?line (\<lambda>a. None)" "living (\<lambda>a. None :: (manager_example timer \<times> nat) option) = {}"
    by (simp_all add: printing_def living_def)
  let ?m = "TimerManager_members e Audit"
  obtain i1 m1 h1 where 1: "timerManagerExample_timer (\<lambda>i. Timer_startOnce e 10 (UserHandler (Print ''timer001''))) a1
      (?m, \<lambda>a. None) = (i1, m1, h1)" by (rule prod_cases3)
  have m0: "umap_find (t_map ?m) (uniqueID_atomic ?m) = None" "uniqueID_atomic ?m = 0" "t_map ?m = []"
    by (simp_all add: TimerManager_members_def umap_find_def)
  note g1 = got_printing [OF 1 [unfolded Timer_startOnce_def] ok refl m0(1) empty(1), simplified]
  obtain h2 oa where ra: "heap_run manager_example_code eva h1 (10, []) = Inr (h2, 10, oa)"
    and p2: "printing ?line h2" "later h1 h2" "set oa \<subseteq> ?line ` living h1"
    using printing_run [OF g1(1), of eva 10 "[]"] by auto
  obtain i2 m2 h3 where 2: "timerManagerExample_timer (\<lambda>i.
      Timer_startForever e 1000 (UserHandler (Print (id_line ''timer002'' i)))) a2 (m1, h2) = (i2, m2, h3)" by (rule prod_cases3)
  have i1: "i1 = 0" "uniqueID_atomic m1 = 1" "t_map m1 = umap_emplace 0 a1 []"
    using g1(6-8) m0 by simp_all
  have n2: "h2 a2 = None" "umap_find (t_map m1) (uniqueID_atomic m1) = None"
    "?line a2 = id_line ''timer002'' (uniqueID_atomic m1)"
    using later_none [OF p2(2), of a2] g1(4) [of a2] new i1 lines by (simp_all add: umap_find_emplace umap_find_def)
  note g2 = got_printing [where l = "id_line ''timer002''", OF 2 [unfolded Timer_startForever_def] ok n2(1,2) p2(1) n2(3)]
  note r3 = released [OF g2(1,3)]
  obtain h4 ob where rb: "heap_run manager_example_code evb (shared_drop a2 h3) (10, oa) = Inr (h4, 10, oa @ ob)"
    and p4: "printing ?line h4" "later (shared_drop a2 h3) h4" "set ob \<subseteq> ?line ` living (shared_drop a2 h3)"
    using printing_run [OF r3(1), of evb 10 oa] by auto
  obtain i3 m3 h5 where 3: "timerManagerExample_timer (\<lambda>i.
      Timer_startForever e 1000 (UserHandler (Print (id_line ''timer003'' i)))) a3 (m2, h4) = (i3, m3, h5)" by (rule prod_cases3)
  have i2: "i2 = 1" "uniqueID_atomic m2 = 2" "t_map m2 = umap_emplace 1 a2 (umap_emplace 0 a1 [])"
    using g2(6-8) i1 by simp_all
  have n3: "h4 a3 = None" "umap_find (t_map m2) (uniqueID_atomic m2) = None"
    "?line a3 = id_line ''timer003'' (uniqueID_atomic m2)"
    using later_none [OF p4(2), of a3] r3(4) [of a3] g2(4) [of a3] later_none [OF p2(2), of a3] g1(4) [of a3] new i2 lines
    by (simp_all add: umap_find_emplace umap_find_def)
  note g3 = got_printing [where l = "id_line ''timer003''", OF 3 [unfolded Timer_startForever_def] ok n3(1,2) p4(1) n3(3)]
  note r5 = released [OF g3(1,3)]
  obtain h6 o1 where r1: "heap_run manager_example_code ev1 (shared_drop a3 h5) (10, oa @ ob) = Inr (h6, 10, (oa @ ob) @ o1)"
    and p6: "printing ?line h6" "later (shared_drop a3 h5) h6" "set o1 \<subseteq> ?line ` living (shared_drop a3 h5)"
    using printing_run [OF r5(1), of ev1 10 "oa @ ob"] by auto
  have i3: "i3 = 2" "t_map m3 = umap_emplace 2 a3 (umap_emplace 1 a2 (umap_emplace 0 a1 []))"
    using g3(6-8) i2 by simp_all
  have u6: "uses h6 a1 = 2" "uses h6 a2 = 1" "uses h6 a3 = 1"
    using later_uses [OF p6(2)] r5(3) g3(5) later_uses [OF p4(2)] r3(3) g2(5) later_uses [OF p2(2)] g1(3) new
    by simp_all
  have find: "umap_find (t_map m3) i2 = Some a2" "umap_find (umap_erase i2 (t_map m3)) i3 = Some a3"
    by (simp_all add: i2 i3 umap_find_emplace umap_find_erase)
  note d7 = dropped [OF p6(1) u6(2)]
  obtain h8 o2 where r2: "heap_run manager_example_code ev2 (shared_drop a2 h6) (10, (oa @ ob) @ o1) =
      Inr (h8, 10, ((oa @ ob) @ o1) @ o2)"
    and p8: "printing ?line h8" "later (shared_drop a2 h6) h8" "set o2 \<subseteq> ?line ` living (shared_drop a2 h6)"
    using printing_run [OF d7(1), of ev2 10 "(oa @ ob) @ o1"] by auto
  have "uses h8 a1 = 2" using later_uses [OF p8(2)] d7(4) u6(1) new by simp
  then obtain t where t: "h8 a1 = Some (t, 2)" by (auto simp: uses_def split: option.splits)
  let ?h9 = "h8(a1 \<mapsto> (Timer_stop t, 2))"
  note d9 = stopped [OF p8(1) t]
  obtain h10 o3 where r3': "heap_run manager_example_code ev3 ?h9 (10, ((oa @ ob) @ o1) @ o2) =
      Inr (h10, 10, (((oa @ ob) @ o1) @ o2) @ o3)"
    and p10: "printing ?line h10" "later ?h9 h10" "set o3 \<subseteq> ?line ` living ?h9"
    using printing_run [OF d9(1), of ev3 10 "((oa @ ob) @ o1) @ o2"] by auto
  have "uses h10 a3 = 1" using later_uses [OF p10(2)] d9(3) later_uses [OF p8(2)] d7(4) u6(3) new by simp
  note d11 = dropped [OF p10(1) this]
  obtain h12 o4 where r4: "heap_run manager_example_code ev4 (shared_drop a3 h10) (10, (((oa @ ob) @ o1) @ o2) @ o3) =
      Inr (h12, 10, ((((oa @ ob) @ o1) @ o2) @ o3) @ o4)"
    and p12: "later (shared_drop a3 h10) h12" "set o4 \<subseteq> ?line ` living (shared_drop a3 h10)"
    using printing_run [OF d11(1), of ev4 10 "(((oa @ ob) @ o1) @ o2) @ o3"] by auto
  have l1: "living h1 = {a1}" using g1(2) empty(2) by simp
  have l3: "living (shared_drop a2 h3) \<subseteq> {a1, a2}" using r3(2) g2(2) p2(2) l1 unfolding later_def by blast
  have l5: "living (shared_drop a3 h5) \<subseteq> {a1, a2, a3}" using r5(2) g3(2) p4(2) l3 unfolding later_def by blast
  have l7: "living (shared_drop a2 h6) \<subseteq> {a1, a3}" using d7(2) p6(2) l5 unfolding later_def by blast
  have l9: "living ?h9 \<subseteq> {a3}" using d9(2) p8(2) l7 unfolding later_def by blast
  have l11: "living (shared_drop a3 h10) = {}" using d11(2) p10(2) l9 unfolding later_def by blast
  then have quiet: "o4 = []" "living h12 = {}" using p12 unfolding later_def by auto
  have printed: "set oa \<subseteq> {''timer001''}" "set ob \<subseteq> {''timer001'', ''timer002, timer ID is : 1''}"
    "set o1 \<subseteq> {''timer001'', ''timer002, timer ID is : 1'', ''timer003, timer ID is : 2''}"
    "set o2 \<subseteq> {''timer001'', ''timer003, timer ID is : 2''}" "set o3 \<subseteq> {''timer003, timer ID is : 2''}"
    using p2(3) order_trans [OF p4(3) image_mono [OF l3]] order_trans [OF p6(3) image_mono [OF l5]]
      order_trans [OF p8(3) image_mono [OF l7]] order_trans [OF p10(3) image_mono [OF l9]] new
    by (simp_all add: l1 insert_commute)
  have none: "h12 b = None" if "b \<noteq> a1" for b
    using that later_none [OF p12(1), of b] d11(3) drop_other [of b a3 h10] later_none [OF p10(2), of b]
      later_none [OF p8(2), of b] d7(3) drop_other [of b a2 h6] later_none [OF p6(2), of b] r5(4) [of b] g3(4) [of b]
      later_none [OF p4(2), of b] r3(4) [of b] g2(4) [of b] later_none [OF p2(2), of b] g1(4) [of b]
    by (cases "b = a3"; cases "b = a2") simp_all
  have some: "h12 a1 \<noteq> None"
    using later_none [OF p12(1), of a1] drop_other [of a1 a3 h10] later_none [OF p10(2), of a1] new by simp
  have "timerManagerExample_killing e a1 a2 a3 eva evb ev1 ev2 ev3 ev4 =
      Inr (h12, [(10, oa), (10, oa @ ob), (10, oa @ ob @ o1), (10, oa @ ob @ o1 @ o2), (10, oa @ ob @ o1 @ o2 @ o3),
        (10, oa @ ob @ o1 @ o2 @ o3)])"
    using ra rb r1 r2 r3' r4 quiet(1)
    by (simp add: timerManagerExample_killing_def 1 2 3 TimerManager_killTimer_def find heap_call_def t Let_def)
  with printed quiet(2) none some show ?thesis by blast
qed

text \<open>The lines of the timeouts \<open>evs\<close> of the timers \<open>as\<close>.\<close>

definition held_lines :: "addr \<Rightarrow> addr set \<Rightarrow> (addr \<times> event_env) list \<Rightarrow> string list" where
  "held_lines a4 as evs =
     map (\<lambda>ev. if fst ev = a4 then ''timer004'' else ''timer005'') (filter (\<lambda>ev. fst ev \<in> as) evs)"

lemma held_part:
  assumes ok: "event_new_ok e" "event_add_ok e" and new: "a4 \<noteq> a5" "h a4 = None" "h a5 = None" "living h = {}"
    and few: "length ev5 + length ev6 + length ev7 < 2 ^ 32 - 1"
  shows "\<exists>h1. timerManagerExample_held e a4 a5 ev5 ev6 ev7 h (c, out) =
      Inr (h1, [(c, out @ held_lines a4 {a4} ev5), (c, out @ held_lines a4 {a4} ev5 @ held_lines a4 {a4, a5} ev6),
        (c, out @ held_lines a4 {a4} ev5 @ held_lines a4 {a4, a5} ev6 @ held_lines a4 {a4, a5} ev7)])
    \<and> living h1 = {a4, a5} \<and> (\<forall>a. a \<notin> {a4, a5} \<longrightarrow> h1 a = None \<longleftrightarrow> h a = None)"
proof -
  let ?line = "\<lambda>a. if a = a4 then ''timer004'' else ''timer005''" and ?m = "TimerManager_members e Audit"
  have forever: "max 1 (unat forever_rounds) = 2 ^ 32 - 1" by (simp add: unat_forever_rounds)
  have m0: "umap_find (t_map ?m) (uniqueID_atomic ?m) = None" "uniqueID_atomic ?m = 0" "t_map ?m = []"
    by (simp_all add: TimerManager_members_def umap_find_def)
  have "t_event t = None" if "h a = Some (t, n)" for a t n using that new(4) unfolding living_def by blast
  then have quiet: "printing ?line h" unfolding printing_def by metis
  obtain i4 m1 h1 where 4: "timerManagerExample_timer (\<lambda>i. Timer_startForever e 1000 (UserHandler (Print ''timer004''))) a4
      (?m, h) = (i4, m1, h1)" by (rule prod_cases3)
  note g1 = got_printing [OF 4 [unfolded Timer_startForever_def] ok new(2) m0(1) quiet, simplified]
  have i4: "i4 = 0" "uniqueID_atomic m1 = 1" "t_map m1 = umap_emplace 0 a4 []" using g1(6-8) m0 by simp_all
  obtain t4 where t4: "h1 a4 = Some (t4, 2)" "rounds_left t4 = 2 ^ 32 - 1" using g1(9) forever by auto
  have l1: "living h1 = {a4}" using g1(2) new(4) by simp
  have p1: "plenty (length ev5 + (length ev6 + length ev7)) h1"
    unfolding plenty_def
  proof (intro allI impI)
    fix b t i assume t: "h1 b = Some (t, i)" "t_event t \<noteq> None"
    then have "b \<in> living h1" unfolding living_def by blast
    then have "b = a4" using l1 by simp
    with t t4 few show "length ev5 + (length ev6 + length ev7) < rounds_left t" by simp
  qed
  obtain h2 where r5: "heap_run manager_example_code ev5 h1 (c, out) = Inr (h2, c, out @ held_lines a4 {a4} ev5)"
    and p2: "printing ?line h2" "plenty (length ev6 + length ev7) h2" "living h2 = {a4}" "later h1 h2"
    using plenty_run [OF g1(1) p1, of c out] by (auto simp: l1 held_lines_def comp_def)
  obtain i5 m2 h3 where 5: "timerManagerExample_timer (\<lambda>i. Timer_startForever e 500 (UserHandler (Print ''timer005''))) a5
      (m1, h2) = (i5, m2, h3)" by (rule prod_cases3)
  have n5: "h2 a5 = None" "umap_find (t_map m1) (uniqueID_atomic m1) = None" "?line a5 = ''timer005''"
    using later_none [OF p2(4), of a5] g1(4) [of a5] new i4 by (simp_all add: umap_find_emplace umap_find_def)
  note g3 = got_printing [OF 5 [unfolded Timer_startForever_def] ok n5(1,2) p2(1) n5(3)]
  obtain t5 where t5: "h3 a5 = Some (t5, 2)" "rounds_left t5 = 2 ^ 32 - 1" using g3(9) forever by auto
  have find: "umap_find (t_map m2) i4 = Some a4"
    using g3(8) g3(6) i4 by (simp add: umap_find_emplace umap_find_def)
  have l3: "living h3 = {a4, a5}" using g3(2) p2(3) by auto
  have p3: "plenty (length ev6 + length ev7) h3"
    unfolding plenty_def
  proof (intro allI impI)
    fix b t i assume t: "h3 b = Some (t, i)" "t_event t \<noteq> None"
    show "length ev6 + length ev7 < rounds_left t"
    proof (cases "b = a5")
      case False
      then show ?thesis using p2(2) [unfolded plenty_def, rule_format, of b t i] t g3(4) by simp
    qed (use t t5 few in simp)
  qed
  obtain h4 where r6: "heap_run manager_example_code ev6 h3 (c, out @ held_lines a4 {a4} ev5) =
      Inr (h4, c, (out @ held_lines a4 {a4} ev5) @ held_lines a4 {a4, a5} ev6)"
    and p4: "printing ?line h4" "plenty (length ev7 + 0) h4" "living h4 = {a4, a5}" "later h3 h4"
    using plenty_run [OF g3(1) p3, of c "out @ held_lines a4 {a4} ev5"] l3 by (auto simp: held_lines_def comp_def)
  have "uses h3 a4 = 2" using g3(5) [OF new(1)] later_uses [OF p2(4)] g1(3) by simp
  then have u4: "uses h4 a4 = 2" using later_uses [OF p4(4)] by simp
  note k = released [OF p4(1) u4]
  have p5: "plenty (length ev7 + 0) (shared_drop a4 h4)"
    using p4(2) by (auto simp: plenty_def shared_drop_def split: option.splits if_splits)
  obtain h6 where r7: "heap_run manager_example_code ev7 (shared_drop a4 h4)
        (c, (out @ held_lines a4 {a4} ev5) @ held_lines a4 {a4, a5} ev6) =
      Inr (h6, c, ((out @ held_lines a4 {a4} ev5) @ held_lines a4 {a4, a5} ev6) @ held_lines a4 {a4, a5} ev7)"
    and p6: "living h6 = {a4, a5}" "later (shared_drop a4 h4) h6"
    using plenty_run [OF k(1) p5, of c "(out @ held_lines a4 {a4} ev5) @ held_lines a4 {a4, a5} ev6"] k(2) p4(3)
    by (auto simp: held_lines_def comp_def)
  have "h6 b = None \<longleftrightarrow> h b = None" if "b \<notin> {a4, a5}" for b
    using that later_none [OF p6(2), of b] k(4) [of b] later_none [OF p4(4), of b] g3(4) [of b]
      later_none [OF p2(4), of b] g1(4) [of b] by simp
  then show ?thesis
    using r5 r6 r7 p6(1)
    by (simp add: timerManagerExample_held_def 4 5 TimerManager_killTimer_def find Let_def)
qed

text \<open>C30: The second block of the example. The second timer prints nothing after it was killed, the
  first one nothing after it was stopped, and from the kill of the third one there is silence until
  the next timer starts: the program had dropped its pointers to the two, and they are freed. The
  first one stays, stopped, because the program has a pointer to it. But the kill of the fourth
  timer, whose pointer is in scope, stops nothing: up to the end of the block it prints its line at
  every timeout, like the fifth. (For fewer than \<open>2 ^ 32 - 1\<close> timeouts in the last three stretches.)\<close>
theorem timer_manager_example_kills:
  assumes "event_new_ok e" and "event_add_ok e" and "distinct [a1, a2, a3, a4, a5]"
    and "length ev5 + length ev6 + length ev7 < 2 ^ 32 - 1"
  shows "\<exists>h oa ob o1 o2 o3. timerManagerExample_block2 e a1 a2 a3 a4 a5 eva evb ev1 ev2 ev3 ev4 ev5 ev6 ev7 =
      (let killed = oa @ ob @ o1 @ o2 @ o3; o5 = held_lines a4 {a4} ev5; o6 = held_lines a4 {a4, a5} ev6;
           o7 = held_lines a4 {a4, a5} ev7
       in Inr (h, [(10, oa), (10, oa @ ob), (10, oa @ ob @ o1), (10, oa @ ob @ o1 @ o2), (10, killed), (10, killed),
         (10, killed @ o5), (10, killed @ o5 @ o6), (10, killed @ o5 @ o6 @ o7)]))
    \<and> set oa \<subseteq> {''timer001''} \<and> set ob \<subseteq> {''timer001'', ''timer002, timer ID is : 1''}
    \<and> set o1 \<subseteq> {''timer001'', ''timer002, timer ID is : 1'', ''timer003, timer ID is : 2''}
    \<and> set o2 \<subseteq> {''timer001'', ''timer003, timer ID is : 2''} \<and> set o3 \<subseteq> {''timer003, timer ID is : 2''}
    \<and> h a2 = None \<and> h a3 = None \<and> h a1 \<noteq> None \<and> living h = {a4, a5}"
proof -
  have new: "a1 \<noteq> a2" "a1 \<noteq> a3" "a2 \<noteq> a3" "a4 \<noteq> a5" "a4 \<noteq> a1" "a5 \<noteq> a1" using assms(3) by auto
  obtain h oa ob o1 o2 o3 where first: "timerManagerExample_killing e a1 a2 a3 eva evb ev1 ev2 ev3 ev4 =
      Inr (h, [(10, oa), (10, oa @ ob), (10, oa @ ob @ o1), (10, oa @ ob @ o1 @ o2), (10, oa @ ob @ o1 @ o2 @ o3),
        (10, oa @ ob @ o1 @ o2 @ o3)])"
    and lines: "set oa \<subseteq> {''timer001''}" "set ob \<subseteq> {''timer001'', ''timer002, timer ID is : 1''}"
      "set o1 \<subseteq> {''timer001'', ''timer002, timer ID is : 1'', ''timer003, timer ID is : 2''}"
      "set o2 \<subseteq> {''timer001'', ''timer003, timer ID is : 2''}" "set o3 \<subseteq> {''timer003, timer ID is : 2''}"
    and h: "living h = {}" "h a1 \<noteq> None" "\<And>a. a \<noteq> a1 \<Longrightarrow> h a = None"
    using killing_part [OF assms(1,2) new(1-3), of eva evb ev1 ev2 ev3 ev4] by blast
  obtain h1 where second: "timerManagerExample_held e a4 a5 ev5 ev6 ev7 h (10, oa @ ob @ o1 @ o2 @ o3) =
      Inr (h1, [(10, (oa @ ob @ o1 @ o2 @ o3) @ held_lines a4 {a4} ev5),
        (10, (oa @ ob @ o1 @ o2 @ o3) @ held_lines a4 {a4} ev5 @ held_lines a4 {a4, a5} ev6),
        (10, (oa @ ob @ o1 @ o2 @ o3) @ held_lines a4 {a4} ev5 @ held_lines a4 {a4, a5} ev6 @ held_lines a4 {a4, a5} ev7)])"
    and h1: "living h1 = {a4, a5}" "\<And>a. a \<notin> {a4, a5} \<Longrightarrow> h1 a = None \<longleftrightarrow> h a = None"
    using held_part [OF assms(1,2) new(4) h(3) [OF new(5)] h(3) [OF new(6)] h(1) assms(4), of 10 "oa @ ob @ o1 @ o2 @ o3"]
    by blast
  have "h1 a2 = None" "h1 a3 = None" "h1 a1 \<noteq> None" using h1(2) h(2,3) assms(3) by auto
  with lines h1(1) show ?thesis
    by (intro exI [of _ h1] exI [of _ oa] exI [of _ ob] exI [of _ o1] exI [of _ o2] exI [of _ o3])
      (simp add: timerManagerExample_block2_def first second Let_def)
qed

theorem timer_manager_example_kills_witness:
  "\<exists>h ws o5. timerManagerExample_block2 good_env 10 20 30 40 50 [(10, good_env)] [] [(10, good_env), (20, good_env)]
      [(30, good_env)] [(20, good_env)] [(30, good_env)] [(40, good_env)] [(50, good_env)] [(40, good_env), (50, good_env)] =
      Inr (h, ws @ [(10, o5 @ [''timer004'']), (10, o5 @ [''timer004'', ''timer005'']),
        (10, o5 @ [''timer004'', ''timer005'', ''timer004'', ''timer005''])])
    \<and> length ws = 6 \<and> h 20 = None \<and> living h = {40, 50}"
proof -
  have ok: "event_new_ok good_env" "event_add_ok good_env" "distinct [10, 20, 30, 40, 50 :: addr]"
    by (simp_all add: good_env_def)
  have few: "length [(40 :: addr, good_env)] + length [(50 :: addr, good_env)]
      + length [(40 :: addr, good_env), (50, good_env)] < 2 ^ 32 - 1" by simp
  obtain h oa ob o1 o2 o3 where block: "timerManagerExample_block2 good_env 10 20 30 40 50 [(10, good_env)] []
      [(10, good_env), (20, good_env)] [(30, good_env)] [(20, good_env)] [(30, good_env)] [(40, good_env)] [(50, good_env)]
      [(40, good_env), (50, good_env)] =
      (let killed = oa @ ob @ o1 @ o2 @ o3; o5 = held_lines 40 {40} [(40, good_env)];
           o6 = held_lines 40 {40, 50} [(50, good_env)]; o7 = held_lines 40 {40, 50} [(40, good_env), (50, good_env)]
       in Inr (h, [(10, oa), (10, oa @ ob), (10, oa @ ob @ o1), (10, oa @ ob @ o1 @ o2), (10, killed), (10, killed),
         (10, killed @ o5), (10, killed @ o5 @ o6), (10, killed @ o5 @ o6 @ o7)]))"
    and h: "h 20 = None" "living h = {40, 50}"
    using timer_manager_example_kills [OF ok few, of "[(10, good_env)]" "[]" "[(10, good_env), (20, good_env)]"
        "[(30, good_env)]" "[(20, good_env)]" "[(30, good_env)]"] by blast
  let ?all = "oa @ ob @ o1 @ o2 @ o3"
  show ?thesis
    by (rule exI [of _ h], rule exI [of _ "[(10, oa), (10, oa @ ob), (10, oa @ ob @ o1), (10, oa @ ob @ o1 @ o2),
        (10, ?all), (10, ?all)]"], rule exI [of _ ?all]) (simp add: block h held_lines_def Let_def)
qed

end
