(* ===== verification/Tpkt.thy ===== *)
theory Tpkt
  imports TcpSocket
begin

text \<open>
  The TPKT framing of include/translib/tcpServerTPKT.h and include/translib/tcpClientTPKT.h: a
  four-byte header (version byte, three-byte length that counts the header) before each
  message. The send and receive routines are written over the operations of the session they
  call, as in the source, and instantiated with those of \<open>TcpSocket\<close>.
\<close>

unbundle bit_operations_syntax

section \<open>The header\<close>

definition TPKT1_LENGTH :: u32 where
  "TPKT1_LENGTH = 4"

definition TPKT_VERSION1_LOW_BYTE :: byte where
  "TPKT_VERSION1_LOW_BYTE = 1"

text \<open>The four assignments of \<open>sendWithTPKT\<close>: 32-bit arithmetic, narrowed to \<open>char\<close>.\<close>

definition tpkt_header :: "u32 \<Rightarrow> byte list" where
  "tpkt_header len =
     [TPKT_VERSION1_LOW_BYTE,
      ucast (drop_bit 16 ((len + TPKT1_LENGTH) AND 0xFFFFFF)),
      ucast (drop_bit 8 ((len + TPKT1_LENGTH) AND 0xFFFF)),
      ucast ((len + TPKT1_LENGTH) AND 0xFF)]"

text \<open>The three length bytes of a header read at \<open>buf\<close>.\<close>

definition packet_length :: "byte list \<Rightarrow> u32" where
  "packet_length buf =
     push_bit 16 (ucast (buf ! 1) AND 0xff) OR
     push_bit 8 (ucast (buf ! 2) AND 0xff) OR
     (ucast (buf ! 3) AND 0xff)"

section \<open>Receiving\<close>

text \<open>
  What \<open>onRead\<close> is given: a pointer behind the header in the freshly allocated packet buffer,
  through which the bytes \<open>d_msg\<close> that were read into it can be read, and a length. The two
  agree when the packet is well formed.
\<close>

record delivery =
  d_msg :: "byte list"
  d_len :: u32

definition packet_delivery :: "byte list \<Rightarrow> u32 \<Rightarrow> delivery" where
  "packet_delivery data n =
     \<lparr>d_msg = drop (unat TPKT1_LENGTH) data, d_len = n - TPKT1_LENGTH\<rparr>"

text \<open>
  The loop of \<open>TcpServerTPKT::onSessionRead\<close> over the session's operations, with the
  deliveries it makes; \<open>None\<close> is a loop that does not end. The header is read through the
  pointer of \<open>viewInputBuffer\<close>, also after the one byte that is removed when the version byte
  is wrong: the bytes behind it are still those of the first view.
\<close>

partial_function (option) server_read_loop ::
    "('s \<Rightarrow> u32) \<Rightarrow> ('s \<Rightarrow> u32 \<Rightarrow> byte list option \<times> 's) \<Rightarrow> ('s \<Rightarrow> u32 \<Rightarrow> bool \<times> byte list \<times> 's)
      \<Rightarrow> 's \<Rightarrow> delivery list \<Rightarrow> ('s \<times> delivery list) option" where
  "server_read_loop len view read s out =
     (let length = len s in
      if length < 1 then Some (s, out)
      else
        let (bufp, s1) = view s TPKT1_LENGTH in
        case bufp of
          None \<Rightarrow> Some (s1, out)
        | Some buf \<Rightarrow>
            let s2 = (if buf ! 0 \<noteq> TPKT_VERSION1_LOW_BYTE then snd (snd (read s1 1)) else s1);
                n = packet_length buf
            in if n > length then Some (s2, out)
               else
                 let (ok, data, s3) = read s2 n in
                 server_read_loop len view read s3
                   (if ok then out @ [packet_delivery data n] else out))"

text \<open>
  The loop of \<open>TcpClientTPKT::onRead\<close>. It does not test the pointer of \<open>viewInputBuffer\<close>, and
  its packet buffer holds \<open>sizeof(packet_length)\<close>, that is four, bytes: reading through a null
  pointer and writing behind the buffer are its two errors.
\<close>

datatype read_error = NullHeader | HeapOverflow

partial_function (option) client_read_loop ::
    "('s \<Rightarrow> u32) \<Rightarrow> ('s \<Rightarrow> u32 \<Rightarrow> byte list option \<times> 's) \<Rightarrow> ('s \<Rightarrow> u32 \<Rightarrow> bool \<times> byte list \<times> 's)
      \<Rightarrow> 's \<Rightarrow> delivery list \<Rightarrow> (read_error + 's \<times> delivery list) option" where
  "client_read_loop len view read s out =
     (let length = len s in
      if length < 1 then Some (Inr (s, out))
      else
        let (bufp, s1) = view s TPKT1_LENGTH in
        case bufp of
          None \<Rightarrow> Some (Inl NullHeader)
        | Some buf \<Rightarrow>
            let s2 = (if buf ! 0 \<noteq> TPKT_VERSION1_LOW_BYTE then snd (snd (read s1 1)) else s1);
                n = packet_length buf
            in if n > length then Some (Inr (s2, out))
               else
                 let (ok, data, s3) = read s2 n in
                 if List.length data > 4 then Some (Inl HeapOverflow)
                 else client_read_loop len view read s3 (out @ [packet_delivery data n]))"

section \<open>Sending\<close>

text \<open>\<open>sendWithTPKT\<close> over the session's \<open>send\<close>; server and client have the same code.\<close>

definition send_with_tpkt ::
    "(byte list \<Rightarrow> u32 \<Rightarrow> 's \<Rightarrow> bool \<times> 's) \<Rightarrow> byte list \<Rightarrow> u32 \<Rightarrow> 's \<Rightarrow> bool \<times> 's" where
  "send_with_tpkt send data len s =
     (let (ret, s1) = send (tpkt_header len) TPKT1_LENGTH s
      in if \<not> ret then (False, s1) else send data len s1)"

section \<open>The methods of the two classes\<close>

definition TcpServerTPKT_onSessionRead ::
    "'b evbuffer_api \<Rightarrow> ('b, 'z) tcpsocket_scheme
      \<Rightarrow> (('b, 'z) tcpsocket_scheme \<times> delivery list) option" where
  "TcpServerTPKT_onSessionRead api session =
     server_read_loop (TcpSocket_getInputBufferLength api) (TcpSocket_viewInputBuffer api)
       (TcpSocket_readInputBuffer api) session []"

definition TcpServerTPKT_sendWithTPKT ::
    "'b evbuffer_api \<Rightarrow> byte list \<Rightarrow> u32 \<Rightarrow> ('b, 'z) tcpsocket_scheme
      \<Rightarrow> bool \<times> ('b, 'z) tcpsocket_scheme" where
  "TcpServerTPKT_sendWithTPKT api = send_with_tpkt (TcpSocket_send api)"

definition TcpClientTPKT_onRead ::
    "'b evbuffer_api \<Rightarrow> ('b, 'z) tcpsocket_scheme
      \<Rightarrow> (read_error + ('b, 'z) tcpsocket_scheme \<times> delivery list) option" where
  "TcpClientTPKT_onRead api client =
     client_read_loop (TcpSocket_getInputBufferLength api) (TcpSocket_viewInputBuffer api)
       (TcpSocket_readInputBuffer api) client []"

definition TcpClientTPKT_sendWithTPKT ::
    "'b evbuffer_api \<Rightarrow> byte list \<Rightarrow> u32 \<Rightarrow> ('b, 'z) tcpsocket_scheme
      \<Rightarrow> bool \<times> ('b, 'z) tcpsocket_scheme" where
  "TcpClientTPKT_sendWithTPKT api = send_with_tpkt (TcpSocket_send api)"

section \<open>Header lemmas\<close>

lemma length_header [simp]: "length (tpkt_header n) = 4"
  by (simp add: tpkt_header_def)

lemma header_not_Nil [simp]: "tpkt_header n \<noteq> []"
  by (simp add: tpkt_header_def)

lemma header_version [simp]: "tpkt_header n ! 0 = TPKT_VERSION1_LOW_BYTE"
  by (simp add: tpkt_header_def)

lemma u32_masks: "(0xff :: u32) = mask 8" "(0xffff :: u32) = mask 16" "(0xffffff :: u32) = mask 24"
  by (simp_all add: mask_eq_exp_minus_1)

lemma packet_length_header: "packet_length (tpkt_header n @ xs) = (n + TPKT1_LENGTH) AND 0xFFFFFF"
proof -
  define x where "x = n + TPKT1_LENGTH"
  have "push_bit 16 (ucast (ucast (drop_bit 16 (x AND mask 24)) :: byte) AND mask 8) OR
      push_bit 8 (ucast (ucast (drop_bit 8 (x AND mask 16)) :: byte) AND mask 8) OR
      (ucast (ucast (x AND mask 8) :: byte) AND mask 8) = x AND mask 24" (is "?l = _")
  proof (rule bit_word_eqI)
    fix i :: nat
    consider "i < 8" | "8 \<le> i" "i < 16" | "16 \<le> i" by linarith
    then show "bit ?l i = bit (x AND mask 24) i" by cases (auto simp: bit_simps)
  qed
  then show ?thesis
    by (simp only: packet_length_def tpkt_header_def u32_masks x_def append_Cons nth_Cons_0
        nth_Cons_Suc One_nat_def numeral_2_eq_2 numeral_3_eq_3)
qed

text \<open>A message fits when its length and the header's together fit the three length bytes.\<close>

definition fits :: "byte list \<Rightarrow> bool" where
  "fits m \<longleftrightarrow> length m + 4 < 2 ^ 24"

lemma fits_Nil: "fits []"
  by (simp add: fits_def)

definition frame :: "byte list \<Rightarrow> byte list" where
  "frame m = tpkt_header (of_nat (length m)) @ m"

definition frames :: "byte list list \<Rightarrow> byte list" where
  "frames ms = concat (map frame ms)"

lemma frames_simps [simp]:
  "frames [] = []" "frames (m # ms) = frame m @ frames ms" "frames (ms @ ns) = frames ms @ frames ns"
  by (simp_all add: frames_def)

lemma length_frame [simp]: "length (frame m) = length m + 4"
  by (simp add: frame_def)

lemma frame_not_Nil [simp]: "frame m \<noteq> []"
  by (simp add: frame_def tpkt_header_def)

lemma unat_TPKT1_LENGTH [simp]: "unat TPKT1_LENGTH = 4"
  by (simp add: TPKT1_LENGTH_def)

lemma frame_packet_length:
  assumes "fits m"
  shows "unat (packet_length (frame m @ xs)) = length m + 4"
proof -
  have len: "length m < 2 ^ 32" using assms by (simp add: fits_def)
  have "unat (packet_length (frame m @ xs)) =
      take_bit 24 (unat (of_nat (length m) + TPKT1_LENGTH :: u32))"
    by (simp only: frame_def append_assoc packet_length_header u32_masks take_bit_eq_mask [symmetric]
        unsigned_take_bit_eq)
  also have "unat (of_nat (length m) + TPKT1_LENGTH :: u32) = length m + 4"
    using assms by (simp add: unat_word_ariths unat_of_nat fits_def TPKT1_LENGTH_def)
  also have "take_bit 24 (length m + 4) = length m + 4"
    using assms by (simp add: take_bit_eq_mod fits_def)
  finally show ?thesis .
qed

lemma packet_length_take: "packet_length (take 4 bs) = packet_length bs"
  by (simp add: packet_length_def)

lemma frame_nth_0 [simp]: "frame m ! 0 = TPKT_VERSION1_LOW_BYTE"
  by (simp add: frame_def tpkt_header_def TPKT_VERSION1_LOW_BYTE_def)

lemma frame_version: "4 \<le> length bs \<Longrightarrow> bs @ ys = frame m @ xs \<Longrightarrow> bs ! 0 = TPKT_VERSION1_LOW_BYTE"
  by (metis append_assoc frame_def header_version length_header nth_append order_less_le_trans
      zero_less_numeral)

section \<open>The receive loop over a byte stream\<close>

text \<open>The bytes of a message that is not yet complete: a proper prefix of a frame.\<close>

definition incomplete :: "byte list \<Rightarrow> bool" where
  "incomplete t \<longleftrightarrow> (\<exists>m xs. fits m \<and> frame m = t @ xs \<and> xs \<noteq> [])"

definition delivery_of :: "byte list \<Rightarrow> delivery" where
  "delivery_of m = \<lparr>d_msg = m, d_len = of_nat (length m)\<rparr>"

text \<open>
  Chunks of bytes arrive one after another; the loop runs after each, and its deliveries are
  collected.
\<close>

fun feed ::
    "('s \<Rightarrow> u32) \<Rightarrow> ('s \<Rightarrow> u32 \<Rightarrow> byte list option \<times> 's) \<Rightarrow> ('s \<Rightarrow> u32 \<Rightarrow> bool \<times> byte list \<times> 's)
      \<Rightarrow> (byte list \<Rightarrow> 's \<Rightarrow> 's) \<Rightarrow> byte list list \<Rightarrow> 's \<Rightarrow> ('s \<times> delivery list) option" where
  "feed len view read arrive [] s = Some (s, [])"
| "feed len view read arrive (c # cs) s =
     (case server_read_loop len view read (arrive c s) [] of
        None \<Rightarrow> None
      | Some (s1, d1) \<Rightarrow>
          (case feed len view read arrive cs s1 of
             None \<Rightarrow> None
           | Some (s2, d2) \<Rightarrow> Some (s2, d1 @ d2)))"

lemma incomplete_Nil: "incomplete []"
  unfolding incomplete_def by (rule exI [of _ "[]"], rule exI [of _ "frame []"]) (simp add: fits_def)

lemma incomplete_length:
  assumes "incomplete t"
  shows "length t < 2 ^ 24" and "4 \<le> length t \<Longrightarrow> length t < unat (packet_length t)"
    and "4 \<le> length t \<Longrightarrow> t ! 0 = TPKT_VERSION1_LOW_BYTE"
proof -
  obtain m xs where m: "fits m" "frame m = t @ xs" "xs \<noteq> []"
    using assms by (auto simp: incomplete_def)
  have len: "length t + length xs = length m + 4"
    using arg_cong [OF m(2), of length] by simp
  then show "length t < 2 ^ 24" using m(1) by (simp add: fits_def)
  assume t: "4 \<le> length t"
  have "packet_length t = packet_length (frame m @ [])"
    using t by (simp add: m(2) packet_length_def nth_append)
  then have "unat (packet_length t) = length m + 4" using frame_packet_length [OF m(1), of "[]"] by simp
  then show "length t < unat (packet_length t)" using len m(3) by (cases xs) auto
  show "t ! 0 = TPKT_VERSION1_LOW_BYTE" using frame_version [OF t, of xs m "[]"] m(2) by simp
qed

text \<open>A complete frame is not a proper prefix of a frame.\<close>

lemma frame_prefix_complete: "fits m \<Longrightarrow> \<not> incomplete (frame m @ xs)"
  using incomplete_length(2) [of "frame m @ xs"] frame_packet_length [of m xs] by auto

text \<open>Any prefix of a sequence of frames is some of the frames and an incomplete rest.\<close>

lemma split_frames:
  "p @ q = frames ms \<Longrightarrow> \<forall>m \<in> set ms. fits m \<Longrightarrow>
    \<exists>ms1 ms2 t. ms = ms1 @ ms2 \<and> p = frames ms1 @ t \<and> incomplete t \<and> t @ q = frames ms2"
proof (induction ms arbitrary: p)
  case Nil
  then show ?case by (simp add: incomplete_Nil)
next
  case (Cons m ms)
  show ?case
  proof (cases "length (frame m) \<le> length p")
    case True
    have "take (length (frame m)) (p @ q) = frame m" by (simp add: Cons.prems(1))
    with True have "take (length (frame m)) p = frame m" by simp
    then obtain p1 where p1: "p = frame m @ p1" by (metis append_take_drop_id)
    then have rest: "p1 @ q = frames ms" using Cons.prems(1) by simp
    from Cons.IH [OF rest] Cons.prems(2) obtain ms1 ms2 t where
      "ms = ms1 @ ms2" "p1 = frames ms1 @ t" "incomplete t" "t @ q = frames ms2" by auto
    then show ?thesis
      by (intro exI [of _ "m # ms1"] exI [of _ ms2] exI [of _ t]) (simp add: p1)
  next
    case False
    have "p = take (length p) (frame m @ frames ms)"
      using arg_cong [OF Cons.prems(1), of "take (length p)"] by simp
    then have "frame m = p @ drop (length p) (frame m)"
      using False by (metis append_take_drop_id linorder_le_cases take_append take_all
          diff_is_0_eq take_0 append_Nil2)
    moreover have "drop (length p) (frame m) \<noteq> []" using False by simp
    moreover have "fits m" using Cons.prems(2) by simp
    ultimately have "incomplete p" unfolding incomplete_def by blast
    then show ?thesis
      using Cons.prems(1) by (intro exI [of _ "[]"] exI [of _ "m # ms"] exI [of _ p]) simp
  qed
qed

context input_stream
begin

lemma len_zero: "ok e s \<Longrightarrow> length (pending e s) < 2 ^ 32 \<Longrightarrow> len e s = 0 \<longleftrightarrow> pending e s = []"
  by (simp add: len_pending unat_eq_0 [symmetric] unat_of_nat del: unat_eq_0)

lemma len_less: "ok e s \<Longrightarrow> length (pending e s) < 2 ^ 32 \<Longrightarrow>
    n > len e s \<longleftrightarrow> length (pending e s) < unat n"
  by (simp add: len_pending word_less_nat_alt unat_of_nat)

lemma header_viewed:
  assumes "ok e s" and "4 \<le> length (pending e s)"
  obtains s1 where "view e s TPKT1_LENGTH = (Some (take 4 (pending e s)), s1)" "ok e s1"
    "pending e s1 = pending e s"
proof -
  have "0 < TPKT1_LENGTH" by (simp add: TPKT1_LENGTH_def)
  with assms(1) show thesis by (cases rule: viewE) (use that assms(2) in auto)
qed

lemma short_viewed:
  assumes "ok e s" and "length (pending e s) < 4"
  obtains s1 where "view e s TPKT1_LENGTH = (None, s1)" "ok e s1" "pending e s1 = pending e s"
proof -
  have "0 < TPKT1_LENGTH" by (simp add: TPKT1_LENGTH_def)
  with assms(1) show thesis by (cases rule: viewE) (use that assms(2) in auto)
qed

text \<open>What both loops find when a complete frame is ahead, and when the rest of one is missing.\<close>

lemma frame_ahead:
  assumes ok: "ok e s" and fits: "fits m" and pend: "pending e s = frame m @ rest"
    and short: "length (pending e s) < 2 ^ 32"
  obtains s1 s2 where "len e s \<noteq> 0" "view e s TPKT1_LENGTH = (Some (take 4 (pending e s)), s1)"
    "take 4 (pending e s) ! 0 = TPKT_VERSION1_LOW_BYTE"
    "\<not> packet_length (take 4 (pending e s)) > len e s"
    "read e s1 (packet_length (take 4 (pending e s))) = (True, frame m, s2)"
    "ok e s2" "pending e s2 = rest"
    "packet_delivery (frame m) (packet_length (take 4 (pending e s))) = delivery_of m"
proof -
  let ?n = "packet_length (take 4 (pending e s))"
  have n: "unat ?n = length m + 4" using fits by (simp only: packet_length_take pend frame_packet_length)
  have "4 \<le> length (pending e s)" by (simp add: pend)
  then obtain s1 where s1: "view e s TPKT1_LENGTH = (Some (take 4 (pending e s)), s1)" "ok e s1"
    "pending e s1 = pending e s" by (rule header_viewed [OF ok])
  obtain s2 where s2: "read e s1 ?n = (True, frame m, s2)" "ok e s2" "pending e s2 = rest"
    using readE [OF s1(2), of ?n] s1(3) n by (auto simp: pend)
  have "?n = of_nat (length m + 4)" using n by (rule word_from_unat)
  then have "?n - TPKT1_LENGTH = of_nat (length m)" by (simp add: TPKT1_LENGTH_def)
  then have "packet_delivery (frame m) ?n = delivery_of m"
    by (simp add: packet_delivery_def delivery_of_def frame_def)
  moreover have "\<not> ?n > len e s" "len e s \<noteq> 0"
    using ok short n pend by (simp_all add: len_less len_zero)
  moreover have "take 4 (pending e s) ! 0 = TPKT_VERSION1_LOW_BYTE" by (simp add: pend nth_append)
  ultimately show thesis using s1(1) s2 by (intro that)
qed

lemma incomplete_ahead:
  assumes ok: "ok e s" and inc: "incomplete (pending e s)" and four: "4 \<le> length (pending e s)"
  obtains s1 where "len e s \<noteq> 0" "view e s TPKT1_LENGTH = (Some (take 4 (pending e s)), s1)"
    "take 4 (pending e s) ! 0 = TPKT_VERSION1_LOW_BYTE"
    "packet_length (take 4 (pending e s)) > len e s" "ok e s1" "pending e s1 = pending e s"
proof -
  note inc_len = incomplete_length [OF inc]
  obtain s1 where s1: "view e s TPKT1_LENGTH = (Some (take 4 (pending e s)), s1)" "ok e s1"
    "pending e s1 = pending e s" by (rule header_viewed [OF ok four])
  have short: "length (pending e s) < 2 ^ 32" using inc_len(1) by simp
  have "pending e s \<noteq> []" using four by auto
  then show thesis
    using that [OF _ s1(1) _ _ s1(2,3)] ok short inc_len(2,3) [OF four] four
    by (simp add: len_zero len_less packet_length_take)
qed

lemma server_stops:
  assumes ok: "ok e s" and inc: "incomplete (pending e s)"
  shows "\<exists>s1. server_read_loop (len e) (view e) (read e) s out = Some (s1, out)
    \<and> ok e s1 \<and> pending e s1 = pending e s"
proof (cases "4 \<le> length (pending e s)")
  case True
  obtain s1 where "len e s \<noteq> 0" "view e s TPKT1_LENGTH = (Some (take 4 (pending e s)), s1)"
    "take 4 (pending e s) ! 0 = TPKT_VERSION1_LOW_BYTE"
    "packet_length (take 4 (pending e s)) > len e s" "ok e s1" "pending e s1 = pending e s"
    by (rule incomplete_ahead [OF ok inc True])
  then show ?thesis by (subst server_read_loop.simps) simp
next
  case False
  then obtain s1 where "view e s TPKT1_LENGTH = (None, s1)" "ok e s1" "pending e s1 = pending e s"
    by (rule short_viewed [OF ok, unfolded not_le [symmetric]])
  then show ?thesis
    using ok by (subst server_read_loop.simps) (cases "len e s < 1", auto)
qed

lemma server_takes_frame:
  assumes "ok e s" and "fits m" and "pending e s = frame m @ rest" and "length (pending e s) < 2 ^ 32"
  shows "\<exists>s1. server_read_loop (len e) (view e) (read e) s out =
      server_read_loop (len e) (view e) (read e) s1 (out @ [delivery_of m])
    \<and> ok e s1 \<and> pending e s1 = rest"
  using assms
proof (rule frame_ahead)
qed (subst server_read_loop.simps, auto)

lemma server_reads_frames:
  "ok e s \<Longrightarrow> \<forall>m \<in> set ms. fits m \<Longrightarrow> pending e s = frames ms @ t \<Longrightarrow> incomplete t \<Longrightarrow>
    length (pending e s) < 2 ^ 32 \<Longrightarrow>
    \<exists>s1. server_read_loop (len e) (view e) (read e) s out = Some (s1, out @ map delivery_of ms)
      \<and> ok e s1 \<and> pending e s1 = t"
proof (induction ms arbitrary: s out)
  case Nil
  then show ?case using server_stops by fastforce
next
  case (Cons m ms)
  obtain s1 where s1: "server_read_loop (len e) (view e) (read e) s out =
      server_read_loop (len e) (view e) (read e) s1 (out @ [delivery_of m])"
    "ok e s1" "pending e s1 = frames ms @ t"
    using server_takes_frame [OF Cons.prems(1), of m "frames ms @ t" out] Cons.prems by auto
  have "length (pending e s1) < 2 ^ 32" using Cons.prems(3,5) s1(3) by simp
  from Cons.IH [OF s1(2) _ s1(3) Cons.prems(4) this, of "out @ [delivery_of m]"] Cons.prems(2)
  show ?case by (auto simp: s1(1))
qed

text \<open>However the frames are cut into chunks, every message is delivered, in order.\<close>

lemma feed_frames:
  "ok e s \<Longrightarrow> pending e s @ concat cs = frames ms \<Longrightarrow> incomplete (pending e s) \<Longrightarrow>
    \<forall>m \<in> set ms. fits m \<Longrightarrow> length (frames ms) < 2 ^ 32 \<Longrightarrow>
    \<exists>s1. feed (len e) (view e) (read e) (arrive e) cs s = Some (s1, map delivery_of ms)
      \<and> ok e s1 \<and> pending e s1 = []"
proof (induction cs arbitrary: s ms)
  case Nil
  then have "ms = []" using frame_prefix_complete by (cases ms) auto
  with Nil show ?case by simp
next
  case (Cons c cs)
  let ?s = "arrive e c s"
  have ok: "ok e ?s" using Cons.prems(1) by (rule arrive_ok)
  have pend: "pending e ?s = pending e s @ c" using Cons.prems(1) by (rule arrive_pending)
  have "(pending e s @ c) @ concat cs = frames ms" using Cons.prems(2) by simp
  from split_frames [OF this Cons.prems(4)] obtain ms1 ms2 t where
    ms: "ms = ms1 @ ms2" "pending e s @ c = frames ms1 @ t" "incomplete t"
      "t @ concat cs = frames ms2" by auto
  have "length (pending e ?s) \<le> length (frames ms)"
    using arg_cong [OF Cons.prems(2), of length] by (simp add: pend)
  then have "length (pending e ?s) < 2 ^ 32" using Cons.prems(5) by simp
  then obtain s1 where s1: "server_read_loop (len e) (view e) (read e) ?s [] =
      Some (s1, map delivery_of ms1)" "ok e s1" "pending e s1 = t"
    using server_reads_frames [OF ok, of ms1 t "[]"] Cons.prems(4) ms pend by auto
  have "length (frames ms2) < 2 ^ 32" using Cons.prems(5) ms(1) by simp
  from Cons.IH [OF s1(2), of ms2] this s1(3) ms Cons.prems(4)
  show ?case by (auto simp: s1(1))
qed

text \<open>
  A header with the right version and length zero removes nothing: the loop delivers it over
  and over and never returns.
\<close>

lemma server_zero_length_loops:
  assumes "ok e s" and "pending e s = tpkt_header (- 4) @ rest"
    and "length (pending e s) < 2 ^ 32"
  shows "server_read_loop (len e) (view e) (read e) s out = None"
proof (rule ccontr)
  let ?stuck = "\<lambda>s. ok e s \<and> pending e s = tpkt_header (- 4) @ rest"
  have short: "length (tpkt_header (- 4) @ rest) < 2 ^ 32" using assms(2,3) by simp
  assume "server_read_loop (len e) (view e) (read e) s out \<noteq> None"
  then obtain r where ret: "server_read_loop (len e) (view e) (read e) s out = Some r" by auto
  have "len e = len e \<longrightarrow> view e = view e \<longrightarrow> read e = read e \<longrightarrow> \<not> ?stuck s"
  proof (rule server_read_loop.raw_induct [where
        P = "\<lambda>l v rd s out r. l = len e \<longrightarrow> v = view e \<longrightarrow> rd = read e \<longrightarrow> \<not> ?stuck s", OF _ ret])
    fix f l v rd s out r
    assume IH: "\<And>l v rd s out r. f l v rd s out = Some r \<Longrightarrow>
        l = len e \<longrightarrow> v = view e \<longrightarrow> rd = read e \<longrightarrow> \<not> ?stuck s"
      and eq: "(let length = l s in if length < 1 then Some (s, out)
        else let (bufp, s1) = v s TPKT1_LENGTH in
          case bufp of None \<Rightarrow> Some (s1, out)
          | Some buf \<Rightarrow>
              let s2 = if buf ! 0 \<noteq> TPKT_VERSION1_LOW_BYTE then snd (snd (rd s1 1)) else s1;
                  n = packet_length buf
              in if length < n then Some (s2, out)
                 else let (ok, data, s3) = rd s2 n
                   in f l v rd s3 (if ok then out @ [packet_delivery data n] else out)) = Some r"
    show "l = len e \<longrightarrow> v = view e \<longrightarrow> rd = read e \<longrightarrow> \<not> ?stuck s"
    proof (intro impI notI)
      assume ops: "l = len e" "v = view e" "rd = read e" and stuck: "?stuck s"
      have zero: "packet_length (tpkt_header (- 4)) = 0"
        using packet_length_header [of "- 4" "[]"] by (simp add: TPKT1_LENGTH_def)
      have ok: "ok e s" using stuck by blast
      obtain s1 where s1: "view e s TPKT1_LENGTH = (Some (tpkt_header (- 4)), s1)" "?stuck s1"
        by (rule header_viewed [OF ok]) (use stuck in auto)
      then have ok1: "ok e s1" by blast
      obtain s2 where s2: "read e s1 0 = (True, [], s2)" "ok e s2" "pending e s2 = pending e s1"
        by (rule readE [OF ok1, of 0]) simp
      then have "?stuck s2" using s1(2) by metis
      have "len e s \<noteq> 0" using stuck len_zero [OF ok] short by simp
      then have "f (len e) (view e) (read e) s2 (out @ [packet_delivery [] 0]) = Some r"
        using eq s1(1) s2(1) by (simp add: ops zero)
      with IH \<open>?stuck s2\<close> show False by blast
    qed
  qed
  with assms show False by simp
qed

text \<open>
  A length of one to three is less than the header: the message length wraps below zero, and
  none of the bytes it promises exist.
\<close>

lemma server_runt:
  assumes ok: "ok e s" and pend: "pending e s = tpkt_header (of_nat k - 4)" and k: "0 < k" "k < 4"
  shows "\<exists>s1. server_read_loop (len e) (view e) (read e) s out =
      Some (s1, out @ [\<lparr>d_msg = [], d_len = of_nat k - 4\<rparr>])
    \<and> ok e s1 \<and> pending e s1 = drop k (pending e s)"
proof -
  have "packet_length (tpkt_header (of_nat k - 4)) = of_nat k AND mask 24"
    using packet_length_header [of "of_nat k - 4" "[]"] by (simp add: TPKT1_LENGTH_def u32_masks)
  also have "\<dots> = of_nat k"
  proof -
    have "k = 1 \<or> k = 2 \<or> k = 3" using k by arith
    then show ?thesis by (auto simp flip: u32_masks)
  qed
  finally have n: "packet_length (tpkt_header (of_nat k - 4)) = of_nat k" .
  have uk: "unat (of_nat k :: u32) = k" using k by (simp add: unat_of_nat)
  obtain s1 where s1: "view e s TPKT1_LENGTH = (Some (pending e s), s1)" "ok e s1"
    "pending e s1 = pending e s"
    by (rule header_viewed [OF ok]) (simp_all add: pend)
  obtain s2 where s2: "read e s1 (of_nat k) = (True, take k (pending e s), s2)" "ok e s2"
    "pending e s2 = drop k (pending e s)"
    using readE [OF s1(2), of "of_nat k"] by (auto simp: uk s1(3))
  have "server_read_loop (len e) (view e) (read e) s out =
      server_read_loop (len e) (view e) (read e) s2 (out @ [packet_delivery (take k (pending e s)) (of_nat k)])"
  proof -
    have "len e s \<noteq> 0" using ok by (simp add: len_zero pend)
    moreover have "\<not> len e s < of_nat k" using ok k by (simp add: len_less pend uk)
    ultimately show ?thesis
      using s1(1) s2(1) by (subst server_read_loop.simps) (simp add: pend n Let_def)
  qed
  moreover have "packet_delivery (take k (pending e s)) (of_nat k) =
      \<lparr>d_msg = [], d_len = of_nat k - 4\<rparr>"
    using k by (simp add: packet_delivery_def TPKT1_LENGTH_def pend)
  moreover obtain s3 where s3: "view e s2 TPKT1_LENGTH = (None, s3)" "ok e s3" "pending e s3 = pending e s2"
    by (rule short_viewed [OF s2(2)]) (use s2(3) k in \<open>simp add: pend\<close>)
  moreover have "len e s2 \<noteq> 0" using s2(2,3) k len_zero [of e s2] by (auto simp: pend)
  then have "server_read_loop (len e) (view e) (read e) s2 out1 = Some (s3, out1)" for out1
    using s3(1) by (subst server_read_loop.simps) simp
  ultimately show ?thesis using s2(3) by auto
qed

text \<open>
  After a stray byte the loop drops it and stops: the shifted header announces at least
  \<open>2 ^ 16\<close> bytes. The message stays in the buffer.
\<close>

lemma server_stray_byte:
  assumes ok: "ok e s" and pend: "pending e s = x # frame m" and x: "x \<noteq> TPKT_VERSION1_LOW_BYTE"
    and len: "length m + 5 < 2 ^ 16"
  shows "\<exists>s1. server_read_loop (len e) (view e) (read e) s out = Some (s1, out)
    \<and> ok e s1 \<and> pending e s1 = frame m"
proof -
  let ?buf = "take 4 (x # frame m)"
  have short: "length (pending e s) < 2 ^ 32" using len by (simp add: pend)
  have "?buf ! 1 = 1" by (simp add: TPKT_VERSION1_LOW_BYTE_def)
  then have "65536 \<le> packet_length ?buf"
    by (simp add: packet_length_def word_le_or or.assoc)
  then have "unat (65536 :: u32) \<le> unat (packet_length ?buf)" by (simp only: word_le_nat_alt)
  then have n: "packet_length ?buf > len e s"
    using ok len short by (simp add: len_less pend)
  obtain s1 where s1: "view e s TPKT1_LENGTH = (Some ?buf, s1)" "ok e s1"
    "pending e s1 = x # frame m"
    by (rule header_viewed [OF ok]) (simp_all add: pend)
  obtain s2 where s2: "read e s1 1 = (True, [x], s2)" "ok e s2" "pending e s2 = frame m"
    by (rule readE [OF s1(2), of 1]) (use s1(3) in auto)
  have "len e s \<noteq> 0" using ok short by (simp add: len_zero pend)
  then have "server_read_loop (len e) (view e) (read e) s out = Some (s2, out)"
    using s1(1) s2(1) n x by (subst server_read_loop.simps) (simp add: Let_def)
  with s2 show ?thesis by blast
qed

text \<open>The client's loop: a header that has not arrived in full is read through a null pointer.\<close>

lemma client_short_header:
  assumes ok: "ok e s" and short: "0 < length (pending e s)" "length (pending e s) < 4"
  shows "client_read_loop (len e) (view e) (read e) s out = Some (Inl NullHeader)"
proof -
  obtain s1 where "view e s TPKT1_LENGTH = (None, s1)" by (rule short_viewed [OF ok short(2)])
  moreover have "len e s \<noteq> 0" using ok short len_zero [of e s] by auto
  ultimately show ?thesis by (subst client_read_loop.simps) simp
qed

text \<open>Every complete message that is not empty overflows the client's packet buffer.\<close>

lemma client_overflows:
  assumes "ok e s" and "fits m" and "pending e s = frame m @ rest" and "length (pending e s) < 2 ^ 32"
    and m: "m \<noteq> []"
  shows "client_read_loop (len e) (view e) (read e) s out = Some (Inl HeapOverflow)"
  using assms(1-4)
proof (rule frame_ahead)
qed (use m in \<open>subst client_read_loop.simps, auto\<close>)

text \<open>An empty message is the only one it takes.\<close>

lemma client_takes_empty:
  assumes "ok e s" and "pending e s = frame [] @ rest" and "length (pending e s) < 2 ^ 32"
  shows "\<exists>s1. client_read_loop (len e) (view e) (read e) s out =
      client_read_loop (len e) (view e) (read e) s1 (out @ [delivery_of []])
    \<and> ok e s1 \<and> pending e s1 = rest"
  using assms(1) fits_Nil assms(2,3)
proof (rule frame_ahead)
qed (subst client_read_loop.simps, auto)

lemma client_stops:
  assumes ok: "ok e s" and inc: "incomplete (pending e s)" and "pending e s = [] \<or> 4 \<le> length (pending e s)"
  shows "\<exists>s1. client_read_loop (len e) (view e) (read e) s out = Some (Inr (s1, out))
    \<and> ok e s1 \<and> pending e s1 = pending e s"
proof (cases "pending e s = []")
  case True
  then show ?thesis using ok by (subst client_read_loop.simps) (simp add: len_zero)
next
  case False
  then have "4 \<le> length (pending e s)" using assms(3) by simp
  with ok inc show ?thesis
  proof (rule incomplete_ahead)
  qed (subst client_read_loop.simps, auto)
qed

end

context output_stream
begin

text \<open>
  A successful \<open>sendWithTPKT\<close> writes the message's frame; a failed one writes nothing, or the
  header alone.
\<close>

lemma send_with_tpkt_written:
  assumes ready: "ready e s" and len: "length m < 2 ^ 32"
    and sent: "send_with_tpkt (send e) m (of_nat (length m)) s = (r, s1)"
  shows "ready e s1
    \<and> (if r then written e s1 = written e s @ frame m
       else written e s1 = written e s \<or> written e s1 = written e s @ tpkt_header (of_nat (length m)))"
proof -
  let ?h = "tpkt_header (of_nat (length m))"
  have ulen: "unat (of_nat (length m) :: u32) = length m" using len by (simp add: unat_of_nat)
  from ready show ?thesis
  proof (cases rule: sendE [where d = ?h and n = TPKT1_LENGTH])
    case (refused s2)
    with sent show ?thesis by (auto simp: send_with_tpkt_def)
  next
    case (accepted s2)
    with sent have "send e m (of_nat (length m)) s2 = (r, s1)" by (simp add: send_with_tpkt_def)
    with accepted show ?thesis
      by (cases rule: sendE [where d = m and n = "of_nat (length m)", OF accepted(2)])
        (auto simp: frame_def ulen)
  qed
qed

end

section \<open>Whole sessions\<close>

text \<open>A session's life: chunks arrive, and libevent calls \<open>onSessionRead\<close> after each.\<close>

fun tpkt_session_run ::
    "'b evbuffer_api \<Rightarrow> byte list list \<Rightarrow> ('b, 'z) tcpsocket_scheme
      \<Rightarrow> (('b, 'z) tcpsocket_scheme \<times> delivery list) option" where
  "tpkt_session_run api [] s = Some (s, [])"
| "tpkt_session_run api (c # cs) s =
     (case TcpServerTPKT_onSessionRead api (socket_arrive api c s) of
        None \<Rightarrow> None
      | Some (s1, d1) \<Rightarrow>
          (case tpkt_session_run api cs s1 of
             None \<Rightarrow> None
           | Some (s2, d2) \<Rightarrow> Some (s2, d1 @ d2)))"

text \<open>A client sends messages until one is refused.\<close>

fun tpkt_send_all ::
    "'b evbuffer_api \<Rightarrow> byte list list \<Rightarrow> ('b, 'z) tcpsocket_scheme
      \<Rightarrow> bool \<times> ('b, 'z) tcpsocket_scheme" where
  "tpkt_send_all api [] s = (True, s)"
| "tpkt_send_all api (m # ms) s =
     (let (r, s1) = TcpClientTPKT_sendWithTPKT api m (of_nat (length m)) s
      in if r then tpkt_send_all api ms s1 else (False, s1))"

lemma tpkt_session_run_feed:
  "tpkt_session_run api cs s =
     feed (TcpSocket_getInputBufferLength api) (TcpSocket_viewInputBuffer api)
       (TcpSocket_readInputBuffer api) (socket_arrive api) cs s"
  by (induction cs arbitrary: s)
    (simp_all add: TcpServerTPKT_onSessionRead_def split: option.splits prod.splits)

lemma tpkt_send_all_written:
  "socket_ok e c \<Longrightarrow> \<forall>m \<in> set ms. fits m \<Longrightarrow> tpkt_send_all (fst e) ms c = (True, c1) \<Longrightarrow>
    socket_output e c1 = socket_output e c @ frames ms"
proof (induction ms arbitrary: c)
  case Nil
  then show ?case by simp
next
  case (Cons m ms)
  have len: "length m < 2 ^ 32" using Cons.prems(2) by (simp add: fits_def)
  obtain c2 where c2: "send_with_tpkt (TcpSocket_send (fst e)) m (of_nat (length m)) c = (True, c2)"
    "tpkt_send_all (fst e) ms c2 = (True, c1)"
    using Cons.prems(3)
    by (auto simp: TcpClientTPKT_sendWithTPKT_def split: prod.splits if_splits)
  from sock_out.send_with_tpkt_written [OF Cons.prems(1) len c2(1)]
  have "socket_ok e c2" "socket_output e c2 = socket_output e c @ frame m" by simp_all
  with Cons.IH [OF _ _ c2(2)] Cons.prems(2) show ?case by simp
qed

section \<open>Properties\<close>

text \<open>The header's length bytes carry the message length plus four, modulo \<open>2 ^ 24\<close>.\<close>

theorem tpkt_header_roundtrip:
  "unat (packet_length (tpkt_header n)) = (unat n + 4) mod 2 ^ 24"
proof -
  have "unat (packet_length (tpkt_header n)) = take_bit 24 (unat (n + TPKT1_LENGTH))"
    using packet_length_header [of n "[]"]
    by (simp add: u32_masks take_bit_eq_mask [symmetric] unsigned_take_bit_eq)
  also have "\<dots> = ((unat n + 4) mod 2 ^ 32) mod 2 ^ 24"
    by (simp add: take_bit_eq_mod unat_word_ariths)
  also have "\<dots> = (unat n + 4) mod 2 ^ 24"
    by (rule mod_mod_cancel) simp
  finally show ?thesis .
qed

text \<open>C1: Messages sent with \<open>sendWithTPKT\<close> arrive: whatever the chunks in which the bytes the
  client wrote reach the server, \<open>onSessionRead\<close> returns each time, and its deliveries are
  exactly the messages, complete, with their lengths and in order; nothing stays in the
  buffer.\<close>

theorem tpkt_end_to_end:
  assumes "evbuffer_laws api bytes" and "\<forall>m \<in> set ms. fits m" and "length (frames ms) < 2 ^ 32"
    and "tpkt_send_all api ms (fresh_socket api fd) = (True, c)"
    and "concat cs = socket_output (api, bytes) c"
  shows "\<exists>s. tpkt_session_run api cs (fresh_socket api fd1) = Some (s, map delivery_of ms)
    \<and> socket_input (api, bytes) s = []"
proof -
  note fresh = fresh_socket_ok [OF assms(1)]
  have "socket_output (api, bytes) c = frames ms"
    using tpkt_send_all_written [of "(api, bytes)", OF fresh(1) assms(2)] assms(4) fresh(3) by simp
  then have "concat cs = frames ms" using assms(5) by simp
  then show ?thesis
    using sock_in.feed_frames [OF fresh(1), of fd1 cs ms] fresh(2) assms(2,3)
    by (auto simp: tpkt_session_run_feed incomplete_Nil)
qed

theorem tpkt_end_to_end_witness:
  "\<exists>s. tpkt_session_run list_api [[1, 0], [0, 6, 7], [8, 1], [0, 0, 4]] (fresh_socket list_api 4) =
    Some (s, [\<lparr>d_msg = [7, 8], d_len = 2\<rparr>, \<lparr>d_msg = [], d_len = 0\<rparr>])"
proof -
  let ?c = "snd (tpkt_send_all list_api [[7, 8], []] (fresh_socket list_api 3))"
  have sent: "tpkt_send_all list_api [[7, 8], []] (fresh_socket list_api 3) = (True, ?c)"
    and out: "concat [[1, 0], [0, 6, 7], [8, 1], [0, 0, 4]] = socket_output (list_api, \<lambda>b. b) ?c"
    by (simp_all add: TcpClientTPKT_sendWithTPKT_def send_with_tpkt_def TcpSocket_send_def
        fresh_socket_def list_api_def tpkt_header_def TPKT1_LENGTH_def TPKT_VERSION1_LOW_BYTE_def
        socket_output_def)
  have fit: "\<forall>m \<in> set [[7, 8], []]. fits m" and len: "length (frames [[7, 8], []]) < 2 ^ 32"
    by (simp_all add: fits_def)
  show ?thesis
    using tpkt_end_to_end [OF list_api_laws fit len sent out, of 4]
    by (auto simp: delivery_of_def simp del: tpkt_session_run.simps)
qed

text \<open>C21: A refused \<open>sendWithTPKT\<close> is not always without effect: a successful one queues the
  message's frame, a failed one nothing or the header alone, after which the peer reads the
  next message's bytes as this one's.\<close>

theorem tpkt_send_outcomes:
  assumes "socket_ok (api, bytes) s" and "length m < 2 ^ 32"
    and "TcpServerTPKT_sendWithTPKT api m (of_nat (length m)) s = (r, s1)"
  shows "let out = socket_output (api, bytes) in
    if r then out s1 = out s @ frame m
    else out s1 = out s \<or> out s1 = out s @ tpkt_header (of_nat (length m))"
  using sock_out.send_with_tpkt_written [OF assms(1,2), of r s1] assms(3)
  by (simp add: TcpServerTPKT_sendWithTPKT_def Let_def)

theorem tpkt_send_outcomes_witness:
  "socket_output (list_api, \<lambda>b. b)
     (snd (TcpServerTPKT_sendWithTPKT list_api [7, 8] 2 (fresh_socket list_api 3)))
   = [1, 0, 0, 6, 7, 8]"
proof -
  let ?r = "TcpServerTPKT_sendWithTPKT list_api [7, 8] (of_nat (length [7 :: byte, 8])) (fresh_socket list_api 3)"
  have ok: "fst ?r"
    by (simp add: TcpServerTPKT_sendWithTPKT_def send_with_tpkt_def TcpSocket_send_def
        fresh_socket_def list_api_def)
  have "?r = (fst ?r, snd ?r)" by (rule prod.collapse [symmetric])
  from tpkt_send_outcomes [OF fresh_socket_ok(1) [OF list_api_laws] _ this] ok
  show ?thesis
    by (simp add: fresh_socket_ok [OF list_api_laws] frame_def tpkt_header_def TPKT1_LENGTH_def
        TPKT_VERSION1_LOW_BYTE_def)
qed

text \<open>C37: A header that announces no bytes at all stops the server: \<open>onSessionRead\<close> never
  returns.\<close>

theorem tpkt_zero_length_hangs:
  assumes "socket_ok (api, bytes) s" and "socket_input (api, bytes) s = [1, 0, 0, 0] @ rest"
    and "length rest < 2 ^ 31"
  shows "TcpServerTPKT_onSessionRead api s = None"
  using sock_in.server_zero_length_loops [OF assms(1), of rest "[]"] assms(2,3)
  by (simp add: TcpServerTPKT_onSessionRead_def tpkt_header_def TPKT1_LENGTH_def
      TPKT_VERSION1_LOW_BYTE_def)

theorem tpkt_zero_length_hangs_witness:
  "TcpServerTPKT_onSessionRead list_api (socket_arrive list_api [1, 0, 0, 0] (fresh_socket list_api 3))
   = None"
proof -
  let ?s = "socket_arrive list_api [1, 0, 0, 0] (fresh_socket list_api 3)"
  have "socket_ok (list_api, \<lambda>b. b) ?s" by (rule arrived_ok)
  moreover have "socket_input (list_api, \<lambda>b. b) ?s = [1, 0, 0, 0] @ []"
    by (simp add: arrived_input)
  ultimately show ?thesis by (rule tpkt_zero_length_hangs) simp
qed

text \<open>A header that announces fewer bytes than itself, one to three, makes the server call
  \<open>onRead\<close> with a length of more than four billion bytes, of which none exists.\<close>

theorem tpkt_runt_length_wraps:
  assumes "socket_ok (api, bytes) s" and "socket_input (api, bytes) s = [1, 0, 0, of_nat k]"
    and "0 < k" and "k < 4"
  shows "\<exists>s1. TcpServerTPKT_onSessionRead api s = Some (s1, [\<lparr>d_msg = [], d_len = of_nat k - 4\<rparr>])
    \<and> unat (of_nat k - 4 :: u32) = 2 ^ 32 - 4 + k"
proof -
  have k: "k = 1 \<or> k = 2 \<or> k = 3" using assms(3,4) by arith
  then have "tpkt_header (of_nat k - 4) = [1, 0, 0, of_nat k]"
    by (auto simp: tpkt_header_def TPKT1_LENGTH_def TPKT_VERSION1_LOW_BYTE_def)
  then have "\<exists>s1. TcpServerTPKT_onSessionRead api s = Some (s1, [\<lparr>d_msg = [], d_len = of_nat k - 4\<rparr>])"
    using sock_in.server_runt [OF assms(1), of k "[]"] assms(2-4)
    by (auto simp: TcpServerTPKT_onSessionRead_def)
  moreover have "unat (of_nat k - 4 :: u32) = 2 ^ 32 - 4 + k"
    using k by (auto simp: unsigned_minus_1_eq_mask mask_eq_exp_minus_1)
  ultimately show ?thesis by blast
qed

theorem tpkt_runt_length_wraps_witness:
  "\<exists>s1. TcpServerTPKT_onSessionRead list_api
      (socket_arrive list_api [1, 0, 0, 3] (fresh_socket list_api 3))
    = Some (s1, [\<lparr>d_msg = [], d_len = 4294967295\<rparr>])"
proof -
  let ?s = "socket_arrive list_api [1, 0, 0, 3] (fresh_socket list_api 3)"
  have ok: "socket_ok (list_api, \<lambda>b. b) ?s" by (rule arrived_ok)
  have "socket_input (list_api, \<lambda>b. b) ?s = [1, 0, 0, of_nat 3]"
    by (simp add: arrived_input)
  from tpkt_runt_length_wraps [OF ok this] show ?thesis by auto
qed

text \<open>A stray byte before a message delays it: \<open>onSessionRead\<close> drops the byte, delivers
  nothing and leaves the whole message in the buffer, to be read when more bytes arrive.\<close>

theorem tpkt_stray_byte_delays:
  assumes "socket_ok (api, bytes) s" and "socket_input (api, bytes) s = x # frame m"
    and "x \<noteq> TPKT_VERSION1_LOW_BYTE" and "length m + 5 < 2 ^ 16"
  shows "\<exists>s1. TcpServerTPKT_onSessionRead api s = Some (s1, [])
    \<and> socket_input (api, bytes) s1 = frame m"
  using sock_in.server_stray_byte [OF assms(1-4), of "[]"]
  by (auto simp: TcpServerTPKT_onSessionRead_def)

theorem tpkt_stray_byte_delays_witness:
  "\<exists>s1. TcpServerTPKT_onSessionRead list_api
      (socket_arrive list_api [9, 1, 0, 0, 5, 7] (fresh_socket list_api 3)) = Some (s1, [])
    \<and> socket_input (list_api, \<lambda>b. b) s1 = [1, 0, 0, 5, 7]"
proof -
  let ?s = "socket_arrive list_api [9, 1, 0, 0, 5, 7] (fresh_socket list_api 3)"
  have ok: "socket_ok (list_api, \<lambda>b. b) ?s" by (rule arrived_ok)
  have f: "frame [7] = [1, 0, 0, 5, 7]"
    by (simp add: frame_def tpkt_header_def TPKT1_LENGTH_def TPKT_VERSION1_LOW_BYTE_def)
  have "socket_input (list_api, \<lambda>b. b) ?s = 9 # frame [7]"
    by (simp add: arrived_input f)
  from tpkt_stray_byte_delays [OF ok this] show ?thesis
    by (simp add: f TPKT_VERSION1_LOW_BYTE_def)
qed

text \<open>The client's reading routine dereferences a null pointer whenever the first one to
  three bytes of a header arrive on their own.\<close>

theorem tpkt_client_split_header:
  assumes "socket_ok (api, bytes) s" and "0 < length (socket_input (api, bytes) s)"
    and "length (socket_input (api, bytes) s) < 4"
  shows "TcpClientTPKT_onRead api s = Some (Inl NullHeader)"
  using sock_in.client_short_header [OF assms, of "[]"] by (simp add: TcpClientTPKT_onRead_def)

theorem tpkt_client_split_header_witness:
  "TcpClientTPKT_onRead list_api (socket_arrive list_api [1, 0] (fresh_socket list_api 3))
   = Some (Inl NullHeader)"
proof -
  let ?s = "socket_arrive list_api [1, 0] (fresh_socket list_api 3)"
  have ok: "socket_ok (list_api, \<lambda>b. b) ?s" by (rule arrived_ok)
  have "socket_input (list_api, \<lambda>b. b) ?s = [1, 0]"
    by (simp add: arrived_input)
  with tpkt_client_split_header [OF ok] show ?thesis by simp
qed

text \<open>The client's reading routine writes behind its packet buffer for every message that
  is not empty.\<close>

theorem tpkt_client_message_overflows:
  assumes "socket_ok (api, bytes) s" and "socket_input (api, bytes) s = frame m @ rest"
    and "fits m" and "m \<noteq> []" and "length rest < 2 ^ 31"
  shows "TcpClientTPKT_onRead api s = Some (Inl HeapOverflow)"
  using sock_in.client_overflows [OF assms(1,3,2) _ assms(4), of "[]"] assms(2,3,5)
  by (simp add: TcpClientTPKT_onRead_def fits_def)

theorem tpkt_client_message_overflows_witness:
  "TcpClientTPKT_onRead list_api
     (socket_arrive list_api [1, 0, 0, 5, 7] (fresh_socket list_api 3)) = Some (Inl HeapOverflow)"
proof -
  let ?s = "socket_arrive list_api [1, 0, 0, 5, 7] (fresh_socket list_api 3)"
  have ok: "socket_ok (list_api, \<lambda>b. b) ?s" by (rule arrived_ok)
  have "socket_input (list_api, \<lambda>b. b) ?s = frame [7] @ []"
    by (simp add: arrived_input frame_def
        tpkt_header_def TPKT1_LENGTH_def TPKT_VERSION1_LOW_BYTE_def)
  from tpkt_client_message_overflows [OF ok this] show ?thesis by (simp add: fits_def)
qed

end
