(* ===== verification/TcpClient.thy ===== *)
theory TcpClient
  imports TcpSocket
begin

text \<open>
  The class \<open>TcpClient\<close> (include/translib/tcpClient.h, src/translib/tcpClient.cpp): a \<open>TcpSocket\<close>
  that connects, and may connect again after it was disconnected. The virtual functions of a
  subclass are a parameter; the loop it runs on plays no part in what is modelled.
\<close>

section \<open>State\<close>

record 'b tcpclient = "'b tcpsocket" +
  tc_isConnected :: bool

text \<open>
  What libevent answers to a \<open>connect\<close>: whether \<open>bufferevent_socket_new\<close>, \<open>bufferevent_enable\<close>
  and \<open>bufferevent_socket_connect\<close> succeed, and the descriptor that the last one makes.
\<close>

record connect_env =
  ce_new_ok :: bool
  ce_enable_ok :: bool
  ce_connect_ok :: bool
  ce_fd :: int

record ('b, 'w) client_code =
  cc_onRead :: "'b tcpclient \<Rightarrow> 'w \<Rightarrow> 'b tcpclient \<times> 'w"
  cc_onDisconnected :: "'b tcpclient \<Rightarrow> 'w \<Rightarrow> 'b tcpclient \<times> 'w"
  cc_onConnected :: "int \<Rightarrow> 'b tcpclient \<Rightarrow> 'w \<Rightarrow> 'b tcpclient \<times> 'w"

text \<open>\<open>TcpClient\<close>'s own virtual functions do nothing.\<close>

definition TcpClient_code :: "('b, 'w) client_code" where
  "TcpClient_code = \<lparr>cc_onRead = (\<lambda>c w. (c, w)), cc_onDisconnected = (\<lambda>c w. (c, w)),
     cc_onConnected = (\<lambda>err c w. (c, w))\<rparr>"

text \<open>The bits of \<open>events\<close> that are looked at, and the error codes, as on Linux.\<close>

record client_events =
  ev_eof :: bool
  ev_error :: bool
  ev_timed_out :: bool
  ev_connected :: bool

definition ECONNREFUSED :: int where
  "ECONNREFUSED = 111"

definition ETIMEDOUT :: int where
  "ETIMEDOUT = 110"

section \<open>Operations\<close>

definition TcpClient_new :: "'b tcpclient" where
  "TcpClient_new = \<lparr>s_bev = None, s_isClosing = False, tc_isConnected = False\<rparr>"

text \<open>The system calls made on a failure are part of the result.\<close>

definition TcpClient_connect ::
    "'b evbuffer_api \<Rightarrow> connect_env \<Rightarrow> 'b tcpclient \<Rightarrow> bool \<times> 'b tcpclient \<times> sock_effect list" where
  "TcpClient_connect api env c =
     (if s_bev c \<noteq> None then (False, c, [])
      else if \<not> ce_new_ok env then (False, c\<lparr>s_bev := None\<rparr>, [])
      else
        let bev = \<lparr>be_fd = SOCKET_FD_INVALID, be_input = evbuffer_new api,
              be_output = evbuffer_new api, be_read = False, be_write = True, be_close_on_free = True\<rparr>
        in if \<not> ce_enable_ok env then (False, c\<lparr>s_bev := None\<rparr>, bufferevent_free bev)
           else
             let bev1 = bev\<lparr>be_read := True, be_write := True\<rparr>
             in if \<not> ce_connect_ok env then (False, c\<lparr>s_bev := None\<rparr>, bufferevent_free bev1)
                else (True, c\<lparr>s_bev := Some (bev1\<lparr>be_fd := ce_fd env\<rparr>)\<rparr>, []))"

text \<open>\<open>socket_error\<close> is what \<open>EVUTIL_SOCKET_ERROR()\<close> returns.\<close>

definition TcpClient_handleEvent ::
    "('b, 'w) client_code \<Rightarrow> client_events \<Rightarrow> int \<Rightarrow> 'b tcpclient \<Rightarrow> 'w
      \<Rightarrow> sock_error + 'b tcpclient \<times> sock_effect list \<times> 'w" where
  "TcpClient_handleEvent code events socket_error c w =
     (if ev_eof events \<or> ev_error events \<or> ev_timed_out events
      then (case s_bev c of
              None \<Rightarrow> Inl NullDeref
            | Some bev \<Rightarrow>
                (let c1 = c\<lparr>s_bev := Some (bev\<lparr>be_read := False, be_write := False\<rparr>)\<rparr>;
                     closed = [CloseFd (TcpSocket_socket c1)];
                     (c2, w1) = cc_onDisconnected code (c1\<lparr>tc_isConnected := False\<rparr>) w
                 in case s_bev c2 of
                      None \<Rightarrow> Inl NullDeref
                    | Some bev2 \<Rightarrow> Inr (c2\<lparr>s_bev := None\<rparr>, closed @ bufferevent_free bev2, w1)))
      else if ev_connected events
      then (if socket_error \<noteq> ECONNREFUSED \<and> socket_error \<noteq> ETIMEDOUT
            then (let (c1, w1) = cc_onConnected code 0 (c\<lparr>tc_isConnected := True\<rparr>) w
                  in Inr (c1, [], w1))
            else (let (c1, w1) = cc_onConnected code socket_error c w in Inr (c1, [], w1)))
      else Inr (c, [], w))"

text \<open>libevent's callbacks of a client.\<close>

datatype client_callback = ClientRead | ClientWritten | ClientEvent client_events int

definition TcpClient_callback ::
    "'b evbuffer_api \<Rightarrow> ('b, 'w) client_code \<Rightarrow> client_callback \<Rightarrow> 'b tcpclient \<Rightarrow> 'w
      \<Rightarrow> sock_error + 'b tcpclient \<times> sock_effect list \<times> 'w" where
  "TcpClient_callback api code cb c w =
     (case cb of
        ClientRead \<Rightarrow> (let (c1, w1) = cc_onRead code c w in Inr (c1, [], w1))
      | ClientWritten \<Rightarrow>
          (case TcpSocket_checkClosing api c of
             Inl err \<Rightarrow> Inl err
           | Inr (c1, effects) \<Rightarrow> Inr (c1, effects, w))
      | ClientEvent events err \<Rightarrow> TcpClient_handleEvent code events err c w)"

section \<open>The life of a client\<close>

text \<open>User code that keeps the private members: the bufferevent and the connected flag.\<close>

definition client_key :: "'b tcpclient \<Rightarrow> (int \<times> bool) option \<times> bool" where
  "client_key c = (map_option (\<lambda>b. (be_fd b, be_close_on_free b)) (s_bev c), tc_isConnected c)"

definition client_code_ok :: "('b, 'w) client_code \<Rightarrow> bool" where
  "client_code_ok code \<longleftrightarrow>
     (\<forall>c w. client_key (fst (cc_onRead code c w)) = client_key c)
   \<and> (\<forall>c w. client_key (fst (cc_onDisconnected code c w)) = client_key c)
   \<and> (\<forall>err c w. client_key (fst (cc_onConnected code err c w)) = client_key c)"

lemma TcpClient_code_ok: "client_code_ok TcpClient_code"
  by (simp add: client_code_ok_def TcpClient_code_def)

text \<open>A client that is connected has a bufferevent, which closes its descriptor when freed.\<close>

definition client_ok :: "'b tcpclient \<Rightarrow> bool" where
  "client_ok c \<longleftrightarrow> (tc_isConnected c \<longrightarrow> s_bev c \<noteq> None) \<and> (\<forall>b. s_bev c = Some b \<longrightarrow> be_close_on_free b)"

text \<open>libevent calls a client back only while it has a bufferevent.\<close>

inductive client_step ::
    "'b evbuffer_api \<Rightarrow> ('b, 'w) client_code \<Rightarrow> 'b tcpclient \<times> 'w \<Rightarrow> 'b tcpclient \<times> 'w \<Rightarrow> bool"
  for api :: "'b evbuffer_api" and code :: "('b, 'w) client_code" where
  connect: "TcpClient_connect api env c = (r, c1, eff) \<Longrightarrow> client_step api code (c, w) (c1, w)"
| callback: "s_bev c \<noteq> None \<Longrightarrow> TcpClient_callback api code cb c w = Inr (c1, eff, w1) \<Longrightarrow>
    client_step api code (c, w) (c1, w1)"
| use: "client_key c1 = client_key c \<Longrightarrow> client_step api code (c, w) (c1, w)"

inductive client_reach ::
    "'b evbuffer_api \<Rightarrow> ('b, 'w) client_code \<Rightarrow> 'b tcpclient \<times> 'w \<Rightarrow> bool"
  for api :: "'b evbuffer_api" and code :: "('b, 'w) client_code" where
  new: "client_reach api code (TcpClient_new, w)"
| step: "client_reach api code s \<Longrightarrow> client_step api code s s1 \<Longrightarrow> client_reach api code s1"

lemma client_ok_key: "client_key c1 = client_key c \<Longrightarrow> client_ok c1 = client_ok c"
  by (cases "s_bev c"; cases "s_bev c1") (auto simp: client_key_def client_ok_def)

lemma checkClosing_key:
  fixes c :: "'b tcpclient"
  assumes "TcpSocket_checkClosing api c = Inr (c1, eff)"
  shows "client_key c1 = client_key c"
  using assms
  by (auto simp: client_key_def TcpSocket_checkClosing_def TcpSocket_closeImpl_def
      TcpSocket_clearInputBuffer_def Let_def split: option.splits if_splits)

lemma handleEvent_ok:
  assumes code: "client_code_ok code" and ok: "client_ok c" and bev: "s_bev c \<noteq> None"
    and run: "TcpClient_handleEvent code events err c w = Inr (c1, eff, w1)"
  shows "client_ok c1"
proof -
  note code = code [unfolded client_code_ok_def]
  obtain b where b: "s_bev c = Some b" using bev by auto
  consider (gone) "ev_eof events \<or> ev_error events \<or> ev_timed_out events"
    | (up) "\<not> (ev_eof events \<or> ev_error events \<or> ev_timed_out events)" "ev_connected events"
    | (other) "\<not> (ev_eof events \<or> ev_error events \<or> ev_timed_out events)" "\<not> ev_connected events"
    by blast
  then show ?thesis
  proof cases
    case gone
    let ?c = "c\<lparr>s_bev := Some (b\<lparr>be_read := False, be_write := False\<rparr>), tc_isConnected := False\<rparr>"
    obtain c2 w2 where hook: "cc_onDisconnected code ?c w = (c2, w2)" by fastforce
    have "client_key c2 = client_key ?c" using code hook by (metis fst_conv)
    then have "\<not> tc_isConnected c2" by (simp add: client_key_def)
    moreover have "c1 = c2\<lparr>s_bev := None\<rparr>"
      using run gone hook b
      by (auto simp: TcpClient_handleEvent_def Let_def split: option.splits)
    ultimately show ?thesis by (simp add: client_ok_def)
  next
    case up
    let ?good = "err \<noteq> ECONNREFUSED \<and> err \<noteq> ETIMEDOUT"
    let ?c = "if ?good then c\<lparr>tc_isConnected := True\<rparr> else c"
    let ?e = "if ?good then 0 else err"
    obtain c2 w2 where hook: "cc_onConnected code ?e ?c w = (c2, w2)" by fastforce
    have "client_key c2 = client_key ?c" using code hook by (metis fst_conv)
    moreover have "client_ok ?c" using ok b by (simp add: client_ok_def)
    moreover have "c1 = c2" using run up hook by (simp add: TcpClient_handleEvent_def split: if_splits)
    ultimately show ?thesis using client_ok_key by blast
  next
    case other
    then show ?thesis using run ok by (simp add: TcpClient_handleEvent_def)
  qed
qed

lemma client_step_ok:
  assumes code: "client_code_ok code" and ok: "client_ok (fst s)" and step: "client_step api code s s1"
  shows "client_ok (fst s1)"
  using step
proof cases
  case (connect env c r c1 eff w)
  then show ?thesis using ok
    by (auto simp: TcpClient_connect_def client_ok_def Let_def split: if_splits)
next
  case (callback c cb w c1 eff w1)
  show ?thesis
  proof (cases cb)
    case ClientRead
    then have "c1 = fst (cc_onRead code c w)"
      using callback(4) by (simp add: TcpClient_callback_def split: prod.splits)
    then have "client_key c1 = client_key c" using code by (simp add: client_code_ok_def)
    then show ?thesis using ok callback client_ok_key [of c1 c] by simp
  next
    case ClientWritten
    then have "client_key c1 = client_key c"
      using callback(4) checkClosing_key
      by (auto simp: TcpClient_callback_def split: sum.splits prod.splits)
    then show ?thesis using ok callback client_ok_key [of c1 c] by simp
  next
    case (ClientEvent events err)
    then show ?thesis
      using callback ok handleEvent_ok [OF code] by (simp add: TcpClient_callback_def)
  qed
next
  case (use c1 c w)
  then show ?thesis using ok client_ok_key by auto
qed

lemma client_reach_ok: "client_reach api code s \<Longrightarrow> client_code_ok code \<Longrightarrow> client_ok (fst s)"
proof (induction rule: client_reach.induct)
  case (new w)
  then show ?case by (simp add: TcpClient_new_def client_ok_def)
next
  case (step s s1)
  then show ?case using client_step_ok by blast
qed

section \<open>Properties\<close>

text \<open>C31: In every reachable state a client that reports itself connected has a bufferevent, and an
  event that ends its connection runs through: it leaves the client unconnected and without a
  bufferevent, ready to connect again, but it closes the descriptor twice: once by
  \<open>evutil_closesocket\<close>, and once more when the bufferevent, made with
  \<open>BEV_OPT_CLOSE_ON_FREE\<close>, is freed. In between, another thread may have got the number.\<close>
theorem client_disconnect_closes_twice:
  fixes c :: "'b tcpclient"
  assumes "client_reach api code (c, w)" and "client_code_ok code" and "tc_isConnected c"
    and "ev_eof events \<or> ev_error events \<or> ev_timed_out events" and "0 \<le> TcpSocket_socket c"
  shows "\<exists>c1 w1. TcpClient_callback api code (ClientEvent events err) c w
           = Inr (c1, [CloseFd (TcpSocket_socket c), CloseFd (TcpSocket_socket c)], w1)
         \<and> \<not> tc_isConnected c1 \<and> s_bev c1 = None
         \<and> (\<forall>env. ce_new_ok env \<and> ce_enable_ok env \<and> ce_connect_ok env \<longrightarrow>
              fst (TcpClient_connect api env c1))"
proof -
  have "client_ok c" using client_reach_ok [OF assms(1,2)] by simp
  then obtain b where b: "s_bev c = Some b" "be_close_on_free b"
    using assms(3) by (auto simp: client_ok_def)
  let ?c = "c\<lparr>s_bev := Some (b\<lparr>be_read := False, be_write := False\<rparr>), tc_isConnected := False\<rparr>"
  obtain c2 w2 where hook: "cc_onDisconnected code ?c w = (c2, w2)" by fastforce
  have "client_key c2 = client_key ?c" using assms(2) hook by (metis client_code_ok_def fst_conv)
  then obtain b2 where "s_bev c2 = Some b2" "be_fd b2 = be_fd b" "be_close_on_free b2"
      "\<not> tc_isConnected c2"
    using b by (cases "s_bev c2") (auto simp: client_key_def)
  then show ?thesis using assms(4,5) b hook
    by (simp add: TcpClient_callback_def TcpClient_handleEvent_def TcpSocket_socket_def
        bufferevent_free_def TcpClient_connect_def Let_def)
qed

lemma client_disconnect_closes_twice_witness:
  "\<exists>(c1 :: byte list tcpclient) w1. TcpClient_callback list_api TcpClient_code
        (ClientEvent \<lparr>ev_eof = True, ev_error = False, ev_timed_out = False, ev_connected = False\<rparr> 0)
        \<lparr>s_bev = Some \<lparr>be_fd = 7, be_input = [], be_output = [], be_read = True, be_write = True,
          be_close_on_free = True\<rparr>, s_isClosing = False, tc_isConnected = True\<rparr> ()
      = Inr (c1, [CloseFd 7, CloseFd 7], w1)"
proof -
  let ?env = "\<lparr>ce_new_ok = True, ce_enable_ok = True, ce_connect_ok = True, ce_fd = 7\<rparr>"
  let ?c = "snd (TcpClient_connect list_api ?env TcpClient_new) :: byte list tcpclient \<times> sock_effect list"
  let ?up = "\<lparr>ev_eof = False, ev_error = False, ev_timed_out = False, ev_connected = True\<rparr>"
  let ?eof = "\<lparr>ev_eof = True, ev_error = False, ev_timed_out = False, ev_connected = False\<rparr>"
  let ?c2 = "\<lparr>s_bev = Some \<lparr>be_fd = 7, be_input = [], be_output = [], be_read = True, be_write = True,
          be_close_on_free = True\<rparr>, s_isClosing = False, tc_isConnected = True\<rparr> :: byte list tcpclient"
  have 1: "client_reach list_api TcpClient_code (fst ?c, ())"
    by (rule client_reach.step [OF client_reach.new, OF client_step.connect [of _ ?env _ True _ "[]"]])
      (simp add: TcpClient_connect_def TcpClient_new_def Let_def)
  have 2: "client_reach list_api TcpClient_code (?c2, ())"
    by (rule client_reach.step [OF 1], rule client_step.callback [of _ _ _ "ClientEvent ?up 0" _ _ "[]"])
      (simp_all add: TcpClient_connect_def TcpClient_new_def TcpClient_callback_def
        TcpClient_handleEvent_def TcpClient_code_def ECONNREFUSED_def ETIMEDOUT_def list_api_def Let_def)
  show ?thesis
    using client_disconnect_closes_twice [OF 2 TcpClient_code_ok, of ?eof 0]
    by (auto simp: TcpSocket_socket_def)
qed

text \<open>A graceful \<open>close(true)\<close> that still has output to send when the peer disconnects
  leaves \<open>_isClosing\<close> set, because nothing resets it: the next \<open>connect\<close> succeeds, but every
  \<open>send\<close> on the new connection is refused, and its first write callback with an empty output
  buffer shuts the new descriptor down.\<close>
theorem client_stale_closing:
  fixes c :: "'b tcpclient"
  assumes laws: "evbuffer_laws api bytes" and code: "client_code_ok code"
    and keeps: "\<And>c w. s_isClosing (fst (cc_onDisconnected code c w)) = s_isClosing c"
    and bev: "s_bev c = Some b" and pending: "0 < evbuffer_get_length api (be_output b)"
    and gone: "ev_eof events \<or> ev_error events \<or> ev_timed_out events"
    and env: "ce_new_ok env" "ce_enable_ok env" "ce_connect_ok env"
  shows "\<exists>c1 c2 eff w2 c3.
           TcpSocket_close api True c = Inr (c1, [])
         \<and> TcpClient_callback api code (ClientEvent events err) c1 w = Inr (c2, eff, w2)
         \<and> TcpClient_connect api env c2 = (True, c3, [])
         \<and> (\<forall>d n. TcpSocket_send api d n c3 = (False, c3))
         \<and> (\<exists>c4. TcpClient_callback api code ClientWritten c3 w2 = Inr (c4, [ShutdownFd (ce_fd env)], w2)
              \<and> (\<exists>b4. s_bev c4 = Some b4 \<and> \<not> be_write b4))"
proof -
  let ?c1 = "c\<lparr>s_isClosing := True\<rparr>"
  let ?g = "?c1\<lparr>s_bev := Some (b\<lparr>be_read := False, be_write := False\<rparr>), tc_isConnected := False\<rparr>"
  obtain g w2 where hook: "cc_onDisconnected code ?g w = (g, w2)" by fastforce
  have "client_key g = client_key ?g" using code hook by (metis client_code_ok_def fst_conv)
  then obtain b2 where g: "s_bev g = Some b2"
    by (cases "s_bev g") (auto simp: client_key_def)
  have closing: "s_isClosing g" using keeps [of ?g w] hook by simp
  let ?c2 = "g\<lparr>s_bev := None\<rparr>"
  let ?b3 = "\<lparr>be_fd = ce_fd env, be_input = evbuffer_new api, be_output = evbuffer_new api,
    be_read = True, be_write = True, be_close_on_free = True\<rparr>"
  let ?c3 = "?c2\<lparr>s_bev := Some ?b3\<rparr>"
  have 1: "TcpSocket_close api True c = Inr (?c1, [])"
    using bev pending by (simp add: TcpSocket_close_def)
  have 2: "\<exists>eff. TcpClient_callback api code (ClientEvent events err) ?c1 w = Inr (?c2, eff, w2)"
    using bev gone hook g by (simp add: TcpClient_callback_def TcpClient_handleEvent_def Let_def)
  have 3: "TcpClient_connect api env ?c2 = (True, ?c3, [])"
    using env by (simp add: TcpClient_connect_def Let_def)
  have 4: "\<forall>d n. TcpSocket_send api d n ?c3 = (False, ?c3)"
    using closing by (simp add: TcpSocket_send_def)
  have empty: "evbuffer_get_length api (evbuffer_new api) = 0"
    by (simp add: evbuffer_lawsD [OF laws])
  have 5: "\<exists>c4. TcpClient_callback api code ClientWritten ?c3 w2 = Inr (c4, [ShutdownFd (ce_fd env)], w2)
              \<and> (\<exists>b4. s_bev c4 = Some b4 \<and> \<not> be_write b4)"
    using closing by (simp add: TcpClient_callback_def TcpSocket_checkClosing_def empty
        TcpSocket_closeImpl_def TcpSocket_clearInputBuffer_def TcpSocket_socket_def Let_def)
  show ?thesis using 1 2 3 4 5 by blast
qed

lemma client_stale_closing_witness:
  "\<exists>(c1 :: byte list tcpclient) c2 eff w2 c3.
      TcpSocket_close list_api True \<lparr>s_bev = Some \<lparr>be_fd = 7, be_input = [], be_output = [65],
        be_read = True, be_write = True, be_close_on_free = True\<rparr>, s_isClosing = False,
        tc_isConnected = True\<rparr> = Inr (c1, [])
    \<and> TcpClient_callback list_api TcpClient_code
        (ClientEvent \<lparr>ev_eof = True, ev_error = False, ev_timed_out = False, ev_connected = False\<rparr> 0)
        c1 () = Inr (c2, eff, w2)
    \<and> TcpClient_connect list_api
        \<lparr>ce_new_ok = True, ce_enable_ok = True, ce_connect_ok = True, ce_fd = 8\<rparr> c2 = (True, c3, [])
    \<and> TcpSocket_send list_api [66] 1 c3 = (False, c3)"
  using client_stale_closing [OF list_api_laws TcpClient_code_ok, of
      "\<lparr>s_bev = Some \<lparr>be_fd = 7, be_input = [], be_output = [65], be_read = True, be_write = True,
        be_close_on_free = True\<rparr>, s_isClosing = False, tc_isConnected = True\<rparr>"
      "\<lparr>be_fd = 7, be_input = [], be_output = [65], be_read = True, be_write = True,
        be_close_on_free = True\<rparr>"
      "\<lparr>ev_eof = True, ev_error = False, ev_timed_out = False, ev_connected = False\<rparr>"
      "\<lparr>ce_new_ok = True, ce_enable_ok = True, ce_connect_ok = True, ce_fd = 8\<rparr>" 0 "()"]
  by (simp add: TcpClient_code_def list_api_def) blast

end
