(* ===== verification/TpktClient.thy ===== *)
theory TpktClient
  imports Tpkt TcpClient
begin

text \<open>
  \<open>TcpClientTPKT::connect_with_IP\<close> (include/translib/tcpClientTPKT.h): the port comes as text, which
  \<open>std::stoi\<close> reads; and what becomes of a client that is sent messages. The rest of the class is
  in \<open>Tpkt\<close>.
\<close>

section \<open>Reading a number\<close>

text \<open>\<open>std::stoi\<close> of the C++ library: blanks, a sign, digits; what follows them is not looked at.\<close>

datatype stoi_error = InvalidArgument | OutOfRange

definition is_blank :: "char \<Rightarrow> bool" where
  "is_blank c \<longleftrightarrow> c = CHR '' '' \<or> 9 \<le> (of_char c :: nat) \<and> (of_char c :: nat) \<le> 13"

definition is_digit :: "char \<Rightarrow> bool" where
  "is_digit c \<longleftrightarrow> 48 \<le> (of_char c :: nat) \<and> (of_char c :: nat) \<le> 57"

definition digits_value :: "string \<Rightarrow> nat" where
  "digits_value = foldl (\<lambda>n c. 10 * n + (of_char c - 48)) 0"

definition stoi :: "string \<Rightarrow> stoi_error + int" where
  "stoi s =
     (let s1 = dropWhile is_blank s;
          neg = (s1 \<noteq> [] \<and> hd s1 = CHR ''-'');
          s2 = (if s1 \<noteq> [] \<and> (hd s1 = CHR ''-'' \<or> hd s1 = CHR ''+'') then tl s1 else s1);
          ds = takeWhile is_digit s2;
          v = (if neg then - int (digits_value ds) else int (digits_value ds))
      in if ds = [] then Inl InvalidArgument
         else if v < - (2 ^ 31) \<or> 2 ^ 31 \<le> v then Inl OutOfRange
         else Inr v)"

text \<open>
  \<open>env\<close> is what libevent answers to a connection to an address; the exceptions of \<open>stoi\<close> are not
  caught. \<open>uint16_t\<close> keeps the number modulo \<open>2 ^ 16\<close>.
\<close>

definition TcpClientTPKT_connect_with_IP ::
    "'b evbuffer_api \<Rightarrow> (string \<Rightarrow> u16 \<Rightarrow> connect_env) \<Rightarrow> string \<Rightarrow> string \<Rightarrow> 'b tcpclient
      \<Rightarrow> stoi_error + bool \<times> 'b tcpclient \<times> sock_effect list" where
  "TcpClientTPKT_connect_with_IP api env ip port c =
     (case stoi port of
        Inl err \<Rightarrow> Inl err
      | Inr n \<Rightarrow> Inr (TcpClient_connect api (env ip (of_int n)) c))"

section \<open>Numbers in decimal\<close>

lemma digit_char:
  assumes "d < 10"
  shows "is_digit (char_of (48 + d))" and "(of_char (char_of (48 + d) :: char) :: nat) - 48 = d"
  using assms by (simp_all add: is_digit_def)

lemma digit_plain: "is_digit c \<Longrightarrow> \<not> is_blank c \<and> c \<noteq> CHR ''-'' \<and> c \<noteq> CHR ''+''"
  by (auto simp: is_digit_def is_blank_def)

lemma show_nat_digits: "\<forall>c \<in> set (show_nat n). is_digit c"
  by (induction n rule: show_nat.induct) (subst show_nat.simps, auto simp: digit_char)

lemma show_nat_value: "digits_value (show_nat n) = n"
  by (induction n rule: show_nat.induct) (subst show_nat.simps, auto simp: digits_value_def digit_char)

lemma stoi_show_nat: "stoi (show_nat n) = (if n < 2 ^ 31 then Inr (int n) else Inl OutOfRange)"
proof -
  have "show_nat n \<noteq> []" by (subst show_nat.simps) simp
  then obtain c cs where c: "show_nat n = c # cs" by (cases "show_nat n") auto
  have digit: "is_digit c" using show_nat_digits [of n] by (simp add: c)
  have all: "takeWhile is_digit (c # cs) = c # cs"
    using show_nat_digits [of n] unfolding c by (simp add: takeWhile_eq_all_conv)
  have start: "dropWhile is_blank (c # cs) = c # cs" using digit_plain [OF digit] by simp
  have val: "digits_value (c # cs) = n" using show_nat_value [of n] by (simp add: c)
  show ?thesis
    unfolding c stoi_def start Let_def list.sel using digit_plain [OF digit] by (simp add: all val del: takeWhile.simps)
qed

section \<open>Reading\<close>

text \<open>
  Chunks arrive at a client, and libevent calls \<open>onRead\<close> after each; the first undefined access
  ends the run. The class's own \<open>onRead(msg, len)\<close> logs the message, which is collected here.
\<close>

fun tpkt_client_run ::
    "'b evbuffer_api \<Rightarrow> byte list list \<Rightarrow> ('b, 'z) tcpsocket_scheme \<Rightarrow> delivery list
      \<Rightarrow> (read_error + ('b, 'z) tcpsocket_scheme \<times> delivery list) option" where
  "tpkt_client_run api [] c out = Some (Inr (c, out))"
| "tpkt_client_run api (b # bs) c out =
     (case TcpClientTPKT_onRead api (socket_arrive api b c) of
        None \<Rightarrow> None
      | Some (Inl err) \<Rightarrow> Some (Inl err)
      | Some (Inr (c1, ds)) \<Rightarrow> tpkt_client_run api bs c1 (out @ ds))"

text \<open>The bytes of a message that the client can wait for: none, or at least a header.\<close>

definition awaitable :: "byte list \<Rightarrow> bool" where
  "awaitable t \<longleftrightarrow> t = [] \<or> 4 \<le> length t"

lemma frames_empty: "\<forall>m \<in> set ms. m = [] \<Longrightarrow> length (frames ms) = 4 * length ms"
  by (induction ms) simp_all

text \<open>Before empty messages only, nothing but an incomplete header can be missing.\<close>

lemma awaitable_before_empty:
  assumes "t @ q = frames ms" and "incomplete t" and "\<forall>m \<in> set ms. m = []" and "awaitable t"
  shows "t = []"
proof (rule ccontr)
  assume "t \<noteq> []"
  then have four: "4 \<le> length t" using assms(4) by (simp add: awaitable_def)
  with assms(1) obtain ns where "ms = [] # ns" using assms(3) by (cases ms) auto
  then have "take 4 (t @ q) = frame []" using assms(1) by simp
  then have "t = frame [] @ drop 4 t" using four by (metis append_take_drop_id take_append diff_is_0_eq
        take_0 append_Nil2)
  then show False using frame_prefix_complete [OF fits_Nil] assms(2) by metis
qed

text \<open>When only empty messages come, the client can wait after a chunk exactly if it has whole ones.\<close>

lemma chunk_of_empty:
  assumes "p @ b = frames ms1 @ t" "p @ b @ q = frames (ms1 @ ms2)" "t @ q = frames ms2"
    and "incomplete p" "awaitable p" "incomplete t" and empty: "\<forall>m \<in> set (ms1 @ ms2). m = []"
  shows "4 dvd length b \<longleftrightarrow> awaitable t"
proof -
  have "p = []" by (rule awaitable_before_empty [OF assms(2,4) empty assms(5)])
  then have b: "length b = 4 * length ms1 + length t"
    using arg_cong [OF assms(1), of length] frames_empty [of ms1] empty by simp
  have none: "t = []" if "awaitable t" using awaitable_before_empty [OF assms(3,6) _ that] empty by simp
  have "awaitable t" if "4 dvd length t"
    using that by (cases "t = []") (auto simp: awaitable_def intro: dvd_imp_le)
  moreover have "4 dvd length b \<longleftrightarrow> 4 dvd length t" unfolding b by (intro dvd_add_right_iff) simp
  ultimately show ?thesis using none by auto
qed

context input_stream
begin

lemma client_reads:
  "ok e s \<Longrightarrow> \<forall>m \<in> set ms. fits m \<Longrightarrow> pending e s = frames ms @ t \<Longrightarrow> incomplete t \<Longrightarrow>
    length (pending e s) < 2 ^ 32 \<Longrightarrow>
    if (\<forall>m \<in> set ms. m = []) \<and> awaitable t
    then \<exists>s1. client_read_loop (len e) (view e) (read e) s out = Some (Inr (s1, out @ map delivery_of ms))
      \<and> ok e s1 \<and> pending e s1 = t
    else \<exists>err. client_read_loop (len e) (view e) (read e) s out = Some (Inl err)"
proof (induction ms arbitrary: s out)
  case Nil
  show ?case
  proof (cases "awaitable t")
    case True
    then show ?thesis using client_stops [of e s out] Nil by (simp add: awaitable_def)
  next
    case False
    then show ?thesis using client_short_header [of e s out] Nil by (simp add: awaitable_def)
  qed
next
  case (Cons m ms)
  show ?case
  proof (cases "m = []")
    case True
    obtain s1 where s1: "client_read_loop (len e) (view e) (read e) s out =
        client_read_loop (len e) (view e) (read e) s1 (out @ [delivery_of []])"
      "ok e s1" "pending e s1 = frames ms @ t"
      using client_takes_empty [OF Cons.prems(1), of "frames ms @ t" out] Cons.prems(3,5) True by auto
    have "length (pending e s1) < 2 ^ 32" using Cons.prems(3,5) s1(3) by simp
    from Cons.IH [OF s1(2) _ s1(3) Cons.prems(4) this, of "out @ [delivery_of []]"] Cons.prems(2)
    show ?thesis by (auto simp: s1(1) True split: if_splits)
  next
    case False
    then show ?thesis using client_overflows [OF Cons.prems(1), of m "frames ms @ t" out] Cons.prems by simp
  qed
qed

end

lemma client_run:
  "socket_ok (api, bytes) c \<Longrightarrow> socket_input (api, bytes) c @ concat bs = frames ms \<Longrightarrow>
    incomplete (socket_input (api, bytes) c) \<Longrightarrow> awaitable (socket_input (api, bytes) c) \<Longrightarrow>
    \<forall>m \<in> set ms. fits m \<Longrightarrow> length (frames ms) < 2 ^ 32 \<Longrightarrow>
    if (\<forall>m \<in> set ms. m = []) \<and> (\<forall>b \<in> set bs. 4 dvd length b)
    then \<exists>c1. tpkt_client_run api bs c out = Some (Inr (c1, out @ map delivery_of ms))
    else \<exists>err. tpkt_client_run api bs c out = Some (Inl err)"
proof (induction bs arbitrary: c ms out)
  case Nil
  then have "ms = []" using frame_prefix_complete by (cases ms) auto
  then show ?case by simp
next
  case (Cons b bs)
  let ?p = "socket_input (api, bytes) c" and ?c = "socket_arrive api b c"
  have ok: "socket_ok (api, bytes) ?c" and pend: "socket_input (api, bytes) ?c = ?p @ b"
    using sock_in.arrive_ok [OF Cons.prems(1)] sock_in.arrive_pending [OF Cons.prems(1)] by simp_all
  have "(?p @ b) @ concat bs = frames ms" using Cons.prems(2) by simp
  from split_frames [OF this Cons.prems(5)] obtain ms1 ms2 t where
    ms: "ms = ms1 @ ms2" "?p @ b = frames ms1 @ t" "incomplete t" "t @ concat bs = frames ms2" by auto
  have "length (?p @ b) \<le> length (frames ms)"
    using arg_cong [OF Cons.prems(2), of length] by simp
  then have short: "length (?p @ b) < 2 ^ 32" "length (frames ms2) < 2 ^ 32"
    using Cons.prems(6) ms(1) by simp_all
  have fit: "\<forall>m \<in> set ms1. fits m" "\<forall>m \<in> set ms2. fits m" using Cons.prems(5) ms(1) by auto
  have cut: "4 dvd length b \<longleftrightarrow> awaitable t" if "\<forall>m \<in> set ms. m = []"
    by (rule chunk_of_empty [OF ms(2) _ ms(4) Cons.prems(3,4) ms(3)]) (use Cons.prems(2) ms(1) that in simp_all)
  note reads = sock_in.client_reads [OF ok fit(1) ms(2) [folded pend] ms(3), of "[]", unfolded pend, OF short(1)]
  show ?case
  proof (cases "(\<forall>m \<in> set ms1. m = []) \<and> awaitable t")
    case True
    then obtain c1 where c1: "TcpClientTPKT_onRead api ?c = Some (Inr (c1, map delivery_of ms1))"
      "socket_ok (api, bytes) c1" "socket_input (api, bytes) c1 = t"
      using reads by (auto simp: TcpClientTPKT_onRead_def)
    have "(\<forall>m \<in> set ms. m = []) \<and> (\<forall>b \<in> set (b # bs). 4 dvd length b) \<longleftrightarrow>
        (\<forall>m \<in> set ms2. m = []) \<and> (\<forall>b \<in> set bs. 4 dvd length b)"
      using cut True ms(1) by auto
    moreover note Cons.IH [OF c1(2), of ms2 "out @ map delivery_of ms1", unfolded c1(3),
        OF ms(4,3) conjunct2 [OF True] fit(2) short(2)]
    ultimately show ?thesis
      by (simp only: c1(1) ms(1) tpkt_client_run.simps option.case sum.case prod.case map_append append_assoc)
  next
    case False
    then obtain err where "TcpClientTPKT_onRead api ?c = Some (Inl err)"
      using reads unfolding if_not_P [OF False] by (auto simp: TcpClientTPKT_onRead_def)
    moreover have "\<not> ((\<forall>m \<in> set ms. m = []) \<and> (\<forall>b \<in> set (b # bs). 4 dvd length b))"
      using cut False ms(1) by auto
    ultimately show ?thesis by simp
  qed
qed

section \<open>Properties\<close>

text \<open>C38: A port given in decimal is the one connected to exactly when it is below \<open>2 ^ 16\<close>; between
  that and \<open>2 ^ 31\<close> another port is taken, its remainder, and beyond that \<open>std::stoi\<close> throws.\<close>
theorem tpkt_client_port:
  "TcpClientTPKT_connect_with_IP api env ip (show_nat n) c =
     (if n < 2 ^ 31 then Inr (TcpClient_connect api (env ip (of_nat n)) c) else Inl OutOfRange)
   \<and> (unat (of_nat n :: u16) = n \<longleftrightarrow> n < 2 ^ 16)"
proof -
  have "unat (of_nat n :: u16) = n \<longleftrightarrow> n < 2 ^ 16"
    using unat_lt_2p [of "of_nat n :: u16"] by (auto simp: unat_of_nat)
  then show ?thesis by (simp add: TcpClientTPKT_connect_with_IP_def stoi_show_nat)
qed

text \<open>C39: A client that is sent messages gets through without an undefined access exactly when all of
  them are empty and no chunk of bytes ends within a header; then it delivers them all.\<close>
theorem tpkt_client_survives:
  assumes "socket_ok (api, bytes) c" and "socket_input (api, bytes) c = []"
    and "\<forall>m \<in> set ms. fits m" and "concat bs = frames ms" and "length (frames ms) < 2 ^ 32"
  shows "if (\<forall>m \<in> set ms. m = []) \<and> (\<forall>b \<in> set bs. 4 dvd length b)
     then \<exists>c1. tpkt_client_run api bs c [] = Some (Inr (c1, map delivery_of ms))
     else \<exists>err. tpkt_client_run api bs c [] = Some (Inl err)"
  using client_run [OF assms(1), of bs ms "[]", unfolded assms(2) append_Nil, OF assms(4) incomplete_Nil _ assms(3,5)]
  unfolding awaitable_def by blast

theorem tpkt_client_survives_witness:
  "(\<exists>c1. tpkt_client_run list_api [[1, 0, 0, 4], [1, 0, 0, 4]] (fresh_socket list_api 3) [] =
      Some (Inr (c1, [\<lparr>d_msg = [], d_len = 0\<rparr>, \<lparr>d_msg = [], d_len = 0\<rparr>])))
   \<and> (\<exists>err. tpkt_client_run list_api [[1, 0, 0, 5], [7]] (fresh_socket list_api 3) [] = Some (Inl err))"
proof -
  note fresh = fresh_socket_ok [OF list_api_laws]
  have f: "frames [[], []] = concat [[1, 0, 0, 4], [1, 0, 0, 4]]" "frames [[7]] = concat [[1, 0, 0, 5], [7]]"
    by (simp_all add: frame_def tpkt_header_def TPKT1_LENGTH_def TPKT_VERSION1_LOW_BYTE_def)
  have fit: "\<forall>m \<in> set [[], []]. fits m" "\<forall>m \<in> set [[7]]. fits m" by (simp_all add: fits_def)
  have len: "length (frames [[], []]) < 2 ^ 32" "length (frames [[7]]) < 2 ^ 32" by simp_all
  have "4 dvd length [1, 0, 0, 4 :: byte]" by (simp add: numeral_eq_Suc)
  then have whole: "(\<forall>m \<in> set [[], [] :: byte list]. m = [])
      \<and> (\<forall>b \<in> set [[1, 0, 0, 4], [1, 0, 0, 4 :: byte]]. 4 dvd length b)"
    by (simp del: list.size)
  show ?thesis
    using tpkt_client_survives [OF fresh(1,2) fit(1) f(1) [symmetric] len(1), unfolded if_P [OF whole]]
      tpkt_client_survives [OF fresh(1,2) fit(2) f(2) [symmetric] len(2)]
    by (simp add: delivery_of_def del: tpkt_client_run.simps)
qed

end
