(* ===== verification/Serving.thy ===== *)
theory Serving
  imports TcpServerDispatcher FrameLoop
begin

text \<open>
  A dispatcher at work: \<open>TcpServerDispatcher\<close> is a \<open>FrameLoop\<close>, so the frame timer of its loop calls
  its \<open>onFrame\<close>, while connections are queued between the frames. The theory composes the frame
  loop, its timer and the dispatcher.
\<close>

section \<open>Frames of a dispatcher\<close>

text \<open>\<open>onFrame\<close> as the handler of the frame timer. It returns whenever the user's code lets it.\<close>

definition frame_work ::
    "'b evbuffer_api \<Rightarrow> ('b, 'w) server_code \<Rightarrow> (session_id \<Rightarrow> attach_env)
      \<Rightarrow> ('b, 'w) dispatcher \<Rightarrow> ('b, 'w) dispatcher" where
  "frame_work api code env d = the (TcpServerDispatcher_onFrame api code env d)"

definition frame_code ::
    "'b evbuffer_api \<Rightarrow> ('b, 'w) server_code \<Rightarrow> (session_id \<Rightarrow> attach_env)
      \<Rightarrow> (unit, ('b, 'w) dispatcher) user_code" where
  "frame_code api code env = \<lparr>call_user = (\<lambda>u t d. (t, frame_work api code env d)),
     call_cb = (\<lambda>c p n t d. (0, t, d))\<rparr>"

type_synonym arrivals = "(session_id \<times> int) list"

definition enqueue :: "arrivals \<Rightarrow> ('b, 'w) dispatcher \<Rightarrow> ('b, 'w) dispatcher" where
  "enqueue conns = fold (\<lambda>(i, sock). TcpServerDispatcher_addSession i sock) conns"

text \<open>Each step: some connections are queued, then the time of a frame comes.\<close>

fun serve ::
    "'b evbuffer_api \<Rightarrow> ('b, 'w) server_code \<Rightarrow> (session_id \<Rightarrow> attach_env)
      \<Rightarrow> (arrivals \<times> event_env) list \<Rightarrow> unit frame_loop \<Rightarrow> ('b, 'w) dispatcher
      \<Rightarrow> timer_error + unit frame_loop \<times> ('b, 'w) dispatcher" where
  "serve api code env [] f d = Inr (f, d)"
| "serve api code env ((conns, e) # ss) f d =
     (case FrameLoop_run (frame_code api code env) [e] f (enqueue conns d) of
        Inl err \<Rightarrow> Inl err
      | Inr (f1, d1) \<Rightarrow> serve api code env ss f1 d1)"

definition actions_of :: "arrivals \<Rightarrow> session_action list" where
  "actions_of conns = map (\<lambda>(i, sock). \<lparr>sa_id = i, sa_sock = sock\<rparr>) conns"

definition all_actions :: "(arrivals \<times> event_env) list \<Rightarrow> session_action list" where
  "all_actions ss = concat (map (actions_of \<circ> fst) ss)"

lemma all_actions_simps [simp]:
  "all_actions [] = []" "all_actions (s # ss) = actions_of (fst s) @ all_actions ss"
  by (simp_all add: all_actions_def)

text \<open>User code that calls nothing when a session is new.\<close>

definition quiet :: "('b, 'w) server_code \<Rightarrow> bool" where
  "quiet code \<longleftrightarrow> (\<forall>s w. fst (snd (onNewSession code s w)) = [])"

lemma quiet_only_removes: "quiet code \<Longrightarrow> only_removes code"
  by (simp add: quiet_def only_removes_def)

lemma quiet_pushes: "quiet code \<Longrightarrow> fst (frame_pushes api code env k acts w) = []"
  by (induction acts arbitrary: w)
    (auto simp: quiet_def case_prod_beta Let_def)

lemma enqueue_actions: "enqueue conns d = d\<lparr>d_actions := d_actions d @ actions_of conns\<rparr>"
  by (induction conns arbitrary: d)
    (auto simp: enqueue_def actions_of_def TcpServerDispatcher_addSession_def)

section \<open>Steps\<close>

lemma frame_work_ok:
  assumes "dispatcher_ok d held" and "server_code_ok code" and "quiet code"
  shows "dispatcher_ok (frame_work api code env d) held"
    and "d_actions (frame_work api code env d) = []"
    and "session_at (frame_work api code env d) = fold (action_spec env) (d_actions d) (session_at d)"
proof -
  obtain d1 where "on_frame_loop api code env d = Some d1" "dispatcher_ok d1 held" "d_actions d1 = []"
    "session_at d1 = fold (action_spec env) (d_actions d) (session_at d)"
    using on_frame_works_off [OF assms(1), of "d_actions d" "[]" code api env] assms(2,3)
    by (auto simp: quiet_only_removes quiet_pushes)
  moreover have "TcpServerDispatcher_onFrame api code env d = on_frame_loop api code env d"
    by (simp add: TcpServerDispatcher_onFrame_def on_frame_loop.simps)
  ultimately show "dispatcher_ok (frame_work api code env d) held"
    "d_actions (frame_work api code env d) = []"
    "session_at (frame_work api code env d) = fold (action_spec env) (d_actions d) (session_at d)"
    by (simp_all add: frame_work_def)
qed

lemma frame_step:
  assumes "armed (frameTimer f)" and "t_handler (frameTimer f) = UserHandler ()"
  shows "FrameLoop_run (frame_code api code env) [e] f d =
    Inr (f\<lparr>frameTimer := timer_tick (frameTimer f)\<rparr>, frame_work api code env d)"
  unfolding FrameLoop_run_def run_armed [OF assms(1)] using assms(2) by (simp add: frame_code_def)

lemma serve_idle:
  "t_event (frameTimer f) = None \<Longrightarrow>
    serve api code env ss f d = Inr (f, d\<lparr>d_actions := d_actions d @ all_actions ss\<rparr>)"
  by (induction ss arbitrary: d)
    (auto simp: FrameLoop_run_def enqueue_actions simp del: Timer_run.simps)

lemma serve_armed:
  assumes code: "server_code_ok code" and quiet: "quiet code"
  shows "armed (frameTimer f) \<Longrightarrow> t_handler (frameTimer f) = UserHandler () \<Longrightarrow>
    dispatcher_ok d held \<Longrightarrow> d_actions d = [] \<Longrightarrow>
    \<exists>f1 d1. serve api code env ss f d = Inr (f1, d1)
      \<and> session_at d1 = fold (action_spec env)
          (all_actions (take (rounds_left (frameTimer f)) ss)) (session_at d)
      \<and> d_actions d1 = all_actions (drop (rounds_left (frameTimer f)) ss)"
proof (induction ss arbitrary: f d)
  case Nil
  then show ?case by simp
next
  case (Cons s ss)
  obtain conns e where s: "s = (conns, e)" by fastforce
  let ?q = "d\<lparr>d_actions := actions_of conns\<rparr>"
  let ?f = "f\<lparr>frameTimer := timer_tick (frameTimer f)\<rparr>" and ?d = "frame_work api code env ?q"
  let ?n = "rounds_left (frameTimer f)"
  have "dispatcher_ok ?q held" using Cons.prems(3) by (simp add: pop_ok)
  note d = frame_work_ok [OF this code quiet, of api env]
  have step: "serve api code env (s # ss) f d = serve api code env ss ?f ?d"
    using Cons.prems(4) by (simp add: s frame_step [OF Cons.prems(1,2)] enqueue_actions)
  have table: "session_at ?d = fold (action_spec env) (actions_of conns) (session_at d)"
    using d(3) by (simp add: pop_ok)
  show ?case
  proof (cases "?n = 1")
    case True
    then have "frameTimer ?f = run_out (frameTimer f)"
      using Cons.prems(1) by (simp add: tick_last)
    then have "t_event (frameTimer ?f) = None" by (simp add: run_out_def)
    from serve_idle [OF this, of api code env ss ?d] show ?thesis
      using True step table d(2) by (simp add: s pop_ok)
  next
    case False
    note more = tick_more [OF Cons.prems(1) False]
    have "t_handler (frameTimer ?f) = UserHandler ()" using more(1) Cons.prems(2) by simp
    moreover have "armed (frameTimer ?f)" using more(2) by simp
    ultimately obtain f1 d1 where rest: "serve api code env ss ?f ?d = Inr (f1, d1)"
      "session_at d1 = fold (action_spec env) (all_actions (take (rounds_left (frameTimer ?f)) ss))
        (session_at ?d)"
      "d_actions d1 = all_actions (drop (rounds_left (frameTimer ?f)) ss)"
      using Cons.IH [of ?f ?d] d(1,2) by blast
    have "?n = Suc (rounds_left (frameTimer ?f))"
      using more(3) rounds_left_pos [OF Cons.prems(1)] by simp
    then show ?thesis using step rest table by (simp add: s)
  qed
qed

section \<open>Properties\<close>

text \<open>C8: A dispatcher's loop serves: with the frame timer started when the loop begins, every
  connection that is queued before one of the first \<open>2 ^ 32 - 1\<close> frames is attached in that
  frame, as the actions say and in their order, and the queue is empty after it. Connections
  that come later stay in the queue for ever: the frame timer has run out, although the loop
  goes on and the server accepts.\<close>
theorem dispatcher_serves_frames:
  assumes "event_new_ok e" and "event_add_ok e" and "t_event (frameTimer f) = None"
    and "server_code_ok code" and "quiet code" and "dispatcher_ok d held" and "d_actions d = []"
  shows "\<exists>f1 d1. serve api code env ss (FrameLoop_onBeforeLoop e () f) d = Inr (f1, d1)
      \<and> session_at d1 = fold (action_spec env) (all_actions (take (2 ^ 32 - 1) ss)) (session_at d)
      \<and> d_actions d1 = all_actions (drop (2 ^ 32 - 1) ss)"
proof -
  let ?f = "FrameLoop_onBeforeLoop e () f"
  have start: "Timer_startRounds e (frameInterval f) forever_rounds (UserHandler ()) (frameTimer f) =
      (True, frameTimer ?f)"
    using frame_timer_started [OF assms(1-3), of "()"] by (simp add: Timer_startForever_def)
  note s = started_armed [OF start]
  have "rounds_left (frameTimer ?f) = 2 ^ 32 - 1" using s(5) by (simp add: unat_forever_rounds)
  then show ?thesis using serve_armed [OF assms(4,5) s(1,2) assms(6,7), of api env ss] by simp
qed

lemma dispatcher_serves_frames_witness:
  "\<exists>f1 d1. serve list_api TcpServer_code
        (\<lambda>i. \<lparr>bufferevent_socket_new_ok = True, bufferevent_enable_ok = True\<rparr>)
        [([(1, 5), (2, 6)], good_env), ([], good_env)]
        (FrameLoop_onBeforeLoop good_env () FrameLoop_new) (TcpServerDispatcher_new 0 ()) = Inr (f1, d1)
      \<and> session_at d1 1 = Some 5 \<and> session_at d1 2 = Some 6 \<and> d_actions d1 = []"
proof -
  have 1: "event_new_ok good_env" "event_add_ok good_env"
    "t_event (frameTimer (FrameLoop_new :: unit frame_loop)) = None"
    by (simp_all add: good_env_def FrameLoop_new_def Timer_new_def)
  have 2: "quiet (TcpServer_code :: (byte list, unit) server_code)"
    by (simp add: quiet_def TcpServer_code_def)
  have 3: "dispatcher_ok (TcpServerDispatcher_new 0 () :: (byte list, unit) dispatcher) (\<lambda>a. 0)"
    by (simp add: dispatcher_ok_def TcpServerDispatcher_new_def refs_ok_def table_refs_def)
  have 4: "d_actions (TcpServerDispatcher_new 0 () :: (byte list, unit) dispatcher) = []"
    by (simp add: TcpServerDispatcher_new_def)
  show ?thesis
    using dispatcher_serves_frames [OF 1 TcpServer_code_ok 2 3 4, of list_api
        "\<lambda>i. \<lparr>bufferevent_socket_new_ok = True, bufferevent_enable_ok = True\<rparr>"
        "[([(1, 5), (2, 6)], good_env), ([], good_env)]"]
    by (auto simp: all_actions_def actions_of_def action_spec_def attach_ok_def SOCKET_FD_INVALID_def)
qed

end
