(* ===== verification/TpktServer.thy ===== *)
theory TpktServer
  imports Serving Tpkt
begin

text \<open>
  \<open>TcpServerTPKT\<close> as a server: its \<open>onSessionRead\<close> is the user code of a dispatcher. The theory
  composes the accepting of a connection, the frame that attaches its session, libevent's
  callbacks, and the framing.
\<close>

section \<open>The server's code\<close>

text \<open>
  The user's state collects what \<open>onRead\<close> was given. Where \<open>onSessionRead\<close> does not return there is
  no result; \<open>read_chunks\<close> below has its own value for that.
\<close>

definition TcpServerTPKT_code :: "'b evbuffer_api \<Rightarrow> ('b, delivery list) server_code" where
  "TcpServerTPKT_code api =
     \<lparr>onSessionRead = (\<lambda>s w. case TcpServerTPKT_onSessionRead api s of
          None \<Rightarrow> (s, [], w)
        | Some (s1, ds) \<Rightarrow> (s1, [], w @ ds)),
      onSessionDisconnected = (\<lambda>s w. (s, [], w)), onNewSession = (\<lambda>s w. (s, [], w))\<rparr>"

text \<open>libevent reads bytes of a session's socket, then calls the read callback.\<close>

definition session_receive ::
    "'b evbuffer_api \<Rightarrow> addr \<Rightarrow> byte list \<Rightarrow> ('b, 'w) dispatcher \<Rightarrow> ('b, 'w) dispatcher" where
  "session_receive api a c d =
     (case d_heap d a of
        None \<Rightarrow> d
      | Some (s, n) \<Rightarrow> d\<lparr>d_heap := (d_heap d)(a \<mapsto> (socket_arrive api c s, n))\<rparr>)"

text \<open>The read callback of a session; \<open>None\<close> when it does not return.\<close>

definition tpkt_callback ::
    "'b evbuffer_api \<Rightarrow> addr \<Rightarrow> ('b, delivery list) dispatcher
      \<Rightarrow> (sock_error + ('b, delivery list) dispatcher) option" where
  "tpkt_callback api a d =
     (case d_heap d a of
        None \<Rightarrow> Some (Inl NullDeref)
      | Some (s, n) \<Rightarrow>
          (case TcpServerTPKT_onSessionRead api s of
             None \<Rightarrow> None
           | Some r \<Rightarrow> Some (session_callback api (TcpServerTPKT_code api) ReadReady a d)))"

fun read_chunks ::
    "'b evbuffer_api \<Rightarrow> addr \<Rightarrow> byte list list \<Rightarrow> ('b, delivery list) dispatcher
      \<Rightarrow> (sock_error + ('b, delivery list) dispatcher) option" where
  "read_chunks api a [] d = Some (Inr d)"
| "read_chunks api a (c # cs) d =
     (case tpkt_callback api a (session_receive api a c d) of
        None \<Rightarrow> None
      | Some (Inl err) \<Rightarrow> Some (Inl err)
      | Some (Inr d1) \<Rightarrow> read_chunks api a cs d1)"

section \<open>Reading\<close>

lemma tpkt_callback_run:
  assumes "d_heap d a = Some (s, n)" and "TcpServerTPKT_onSessionRead api s = Some (s1, ds)"
  shows "tpkt_callback api a d =
    Some (Inr (d\<lparr>d_heap := (d_heap d)(a \<mapsto> (s1, n)), d_user := d_user d @ ds\<rparr>))"
  using assms
  by (simp add: tpkt_callback_def session_callback_def TcpSession_callback_def TcpSession_onRead_def
      TcpServerTPKT_code_def)

lemma read_chunks_run:
  "d_heap d a = Some (s, n) \<Longrightarrow> tpkt_session_run api cs s = Some (s1, ds) \<Longrightarrow>
    \<exists>d1. read_chunks api a cs d = Some (Inr d1) \<and> d_heap d1 a = Some (s1, n)
      \<and> d_user d1 = d_user d @ ds \<and> d_sessions d1 = d_sessions d"
proof (induction cs arbitrary: d s ds)
  case Nil
  then show ?case by simp
next
  case (Cons c cs)
  let ?s = "socket_arrive api c s"
  obtain s2 d2 d3 where one: "TcpServerTPKT_onSessionRead api ?s = Some (s2, d2)"
    and rest: "tpkt_session_run api cs s2 = Some (s1, d3)" and ds: "ds = d2 @ d3"
    using Cons.prems(2) by (auto split: option.splits)
  let ?d = "session_receive api a c d"
  have recv: "?d = d\<lparr>d_heap := (d_heap d)(a \<mapsto> (?s, n))\<rparr>"
    using Cons.prems(1) by (simp add: session_receive_def)
  then have at: "d_heap ?d a = Some (?s, n)" by simp
  let ?e = "?d\<lparr>d_heap := (d_heap ?d)(a \<mapsto> (s2, n)), d_user := d_user ?d @ d2\<rparr>"
  have "d_heap ?e a = Some (s2, n)" by simp
  from Cons.IH [OF this rest] obtain e where "read_chunks api a cs ?e = Some (Inr e)"
    "d_heap e a = Some (s1, n)" "d_user e = d_user ?e @ d3" "d_sessions e = d_sessions ?e" by blast
  then show ?case
    by (simp add: tpkt_callback_run [OF at one] ds) (simp add: recv)
qed

lemma accepted_session:
  assumes ok: "dispatcher_ok d held" and queue: "d_actions d = []" and attach: "attach_ok (env i) sock"
  shows "let d1 = frame_work api (TcpServerTPKT_code api) env (TcpServerDispatcher_addSession i sock d)
    in d_sessions d1 i = Some (d_next d) \<and> d_heap d1 (d_next d) = Some (attached api (d_no d) i sock, 1)
      \<and> d_user d1 = d_user d"
proof -
  let ?code = "TcpServerTPKT_code api" and ?action = "\<lparr>sa_id = i, sa_sock = sock\<rparr>"
  let ?q = "TcpServerDispatcher_addSession i sock d"
  have q: "?q = d\<lparr>d_actions := [?action]\<rparr>" by (simp add: TcpServerDispatcher_addSession_def queue)
  have okq: "dispatcher_ok ?q held" using ok by (simp add: q pop_ok)
  have new: "onNewSession ?code (attached api (d_no ?q) (sa_id ?action) (sa_sock ?action)) (d_user ?q) =
      (attached api (d_no d) i sock, [], d_user d)"
    by (simp add: TcpServerTPKT_code_def q)
  have id: "ts_id (attached api (d_no d) i sock) = sa_id ?action" by (simp add: attached_def)
  note add = add_action_done [OF okq _ new id, of env, unfolded Let_def, simplified, OF attach]
  have "TcpServerDispatcher_onFrame api ?code env ?q =
      Some ((add_action api ?code env ?action ?q)\<lparr>d_actions := []\<rparr>)"
    using add attach_ok_valid [OF attach]
    by (simp add: TcpServerDispatcher_onFrame_def q on_frame_loop.simps Let_def)
  then show ?thesis using add by (simp add: frame_work_def q Let_def)
qed

text \<open>The frames of some messages arrive at a new session.\<close>

lemma frames_delivered:
  assumes laws: "evbuffer_laws api bytes" and fit: "\<forall>m \<in> set ms. fits m"
    and len: "length (frames ms) < 2 ^ 32" and chunks: "concat cs = frames ms"
    and ok: "dispatcher_ok d held" and queue: "d_actions d = []" and attach: "attach_ok (env i) sock"
  shows "let d1 = frame_work api (TcpServerTPKT_code api) env (TcpServerDispatcher_addSession i sock d)
    in \<exists>a d2. d_sessions d1 i = Some a \<and> read_chunks api a cs d1 = Some (Inr d2)
      \<and> d_user d2 = d_user d @ map delivery_of ms"
proof -
  let ?d = "frame_work api (TcpServerTPKT_code api) env (TcpServerDispatcher_addSession i sock d)"
  let ?s = "attached api (d_no d) i sock"
  have acc: "d_sessions ?d i = Some (d_next d)" "d_heap ?d (d_next d) = Some (?s, 1)" "d_user ?d = d_user d"
    using accepted_session [OF ok queue, of env i sock api, OF attach] by (simp_all add: Let_def)
  have s: "socket_ok (api, bytes) ?s" "socket_input (api, bytes) ?s = []"
    using laws by (simp_all add: attached_def socket_ok_def socket_input_def evbuffer_lawsD)
  obtain s1 where "tpkt_session_run api cs ?s = Some (s1, map delivery_of ms)"
    using sock_in.feed_frames [OF s(1), of cs ms] s(2) chunks fit len
    by (auto simp: tpkt_session_run_feed incomplete_Nil)
  from read_chunks_run [OF acc(2) this] show ?thesis using acc by (auto simp: Let_def)
qed

section \<open>Properties\<close>

text \<open>C2: A TPKT server delivers: a connection that was queued and attached by the next frame has a
  session, and when the bytes of a client's messages arrive there, in whatever chunks, each
  read callback returns, and \<open>onRead\<close> is given exactly the client's messages, in order.\<close>
theorem tpkt_server_delivers:
  assumes laws: "evbuffer_laws api bytes" and fit: "\<forall>m \<in> set ms. fits m"
    and len: "length (frames ms) < 2 ^ 32"
    and sent: "tpkt_send_all api ms (fresh_socket api fd) = (True, c)"
    and chunks: "concat cs = socket_output (api, bytes) c"
    and ok: "dispatcher_ok d held" and queue: "d_actions d = []" and attach: "attach_ok (env i) sock"
  shows "let d1 = frame_work api (TcpServerTPKT_code api) env (TcpServerDispatcher_addSession i sock d)
    in \<exists>a d2. d_sessions d1 i = Some a \<and> read_chunks api a cs d1 = Some (Inr d2)
      \<and> d_user d2 = d_user d @ map delivery_of ms"
proof -
  have "socket_output (api, bytes) c = frames ms"
    using tpkt_send_all_written [of "(api, bytes)", OF fresh_socket_ok(1) [OF laws] fit, of fd] sent
      fresh_socket_ok(3) [OF laws] by simp
  then show ?thesis
    using frames_delivered [where env = env, OF laws fit len _ ok queue attach] chunks by simp
qed

lemma tpkt_server_delivers_witness:
  "let d1 = frame_work list_api (TcpServerTPKT_code list_api)
      (\<lambda>i. \<lparr>bufferevent_socket_new_ok = True, bufferevent_enable_ok = True\<rparr>)
      (TcpServerDispatcher_addSession 1 5 (TcpServerDispatcher_new 0 []))
    in \<exists>a d2. d_sessions d1 1 = Some a
      \<and> read_chunks list_api a [[1, 0], [0, 6, 7], [8, 1], [0, 0, 4]] d1 = Some (Inr d2)
      \<and> d_user d2 = [\<lparr>d_msg = [7, 8], d_len = 2\<rparr>, \<lparr>d_msg = [], d_len = 0\<rparr>]"
proof -
  let ?c = "snd (tpkt_send_all list_api [[7, 8], []] (fresh_socket list_api 3))"
  have sent: "tpkt_send_all list_api [[7, 8], []] (fresh_socket list_api 3) = (True, ?c)"
    and out: "concat [[1, 0], [0, 6, 7], [8, 1], [0, 0, 4]] = socket_output (list_api, \<lambda>b. b) ?c"
    by (simp_all add: TcpClientTPKT_sendWithTPKT_def send_with_tpkt_def TcpSocket_send_def
        fresh_socket_def list_api_def tpkt_header_def TPKT1_LENGTH_def TPKT_VERSION1_LOW_BYTE_def
        socket_output_def)
  have fit: "\<forall>m \<in> set [[7, 8], []]. fits m" and len: "length (frames [[7, 8], []]) < 2 ^ 32"
    by (simp_all add: fits_def)
  have d: "dispatcher_ok (TcpServerDispatcher_new 0 [] :: (byte list, delivery list) dispatcher) (\<lambda>a. 0)"
    "d_actions (TcpServerDispatcher_new 0 [] :: (byte list, delivery list) dispatcher) = []"
    by (simp_all add: dispatcher_ok_def TcpServerDispatcher_new_def refs_ok_def table_refs_def)
  have at: "attach_ok ((\<lambda>i :: session_id. \<lparr>bufferevent_socket_new_ok = True, bufferevent_enable_ok = True\<rparr>) 1) 5"
    by (simp add: attach_ok_def SOCKET_FD_INVALID_def)
  have user: "d_user (TcpServerDispatcher_new 0 [] :: (byte list, delivery list) dispatcher) = []"
    by (simp add: TcpServerDispatcher_new_def)
  from tpkt_server_delivers [OF list_api_laws fit len sent out d at]
  show ?thesis by (simp add: delivery_of_def user)
qed

end
