(* ===== verification/TcpExamples.thy ===== *)
theory TcpExamples
  imports TpktClient TpktServer ManagedTimers
begin

text \<open>
  The TCP examples (example/tcpExample.cpp): the reading routine of \<open>ExampleTcpServer\<close>, the timer of
  \<open>ExampleTcpClientManager\<close>, and \<open>TKPT_example()\<close>, a client that sends one message per millisecond.
\<close>

section \<open>The reading routine of the TCP example\<close>

text \<open>\<open>uint8_t buff[10240]\<close> is on the stack; writing behind it is undefined.\<close>

datatype example_error = StackOverflow

definition ExampleTcpServer_onSessionRead ::
    "'b evbuffer_api \<Rightarrow> ('b, 'z) tcpsocket_scheme \<Rightarrow> example_error + ('b, 'z) tcpsocket_scheme" where
  "ExampleTcpServer_onSessionRead api session =
     (let len = TcpSocket_getInputBufferLength api session;
          (r, buff, session1) = TcpSocket_readInputBuffer api session len
      in if List.length buff > 10240 then Inl StackOverflow else Inr session1)"

text \<open>The routine empties the input buffer, or overflows its own when more than 10240 bytes wait.\<close>

lemma example_read:
  assumes "socket_ok e s" and "length (socket_input e s) < 2 ^ 32"
  shows "case ExampleTcpServer_onSessionRead (fst e) s of
      Inl err \<Rightarrow> 10240 < length (socket_input e s)
    | Inr s1 \<Rightarrow> length (socket_input e s) \<le> 10240 \<and> socket_input e s1 = []"
proof -
  obtain bev where bev: "s_bev s = Some bev" and laws: "evbuffer_laws (fst e) (snd e)"
    using assms(1) by (rule socket_okE)
  have "unat (of_nat (length (snd e (be_input bev))) :: u32) = length (snd e (be_input bev))"
    using assms(2) bev by (simp add: socket_input_def unat_of_nat_bounded)
  then show ?thesis
    by (auto simp: ExampleTcpServer_onSessionRead_def socket_reading socket_input_def bev
        evbuffer_lawsD [OF laws] case_prod_beta ucast_of_nat_down Let_def)
qed

section \<open>The client of the TCP example\<close>

text \<open>\<open>{1}\<close> initialises the first byte; the others are 0.\<close>

definition test_bytes :: "nat \<Rightarrow> byte list" where
  "test_bytes n = 1 # replicate (n - 1) 0"

text \<open>
  One call of \<open>tick\<close>, with the timer, the client and what libevent answers to \<open>connect\<close>: the
  client, the system calls, and whether the server and the loop were told to stop. What \<open>connect\<close>
  and \<open>send\<close> return is dropped. The timer calls \<open>tick\<close> in the thread of the loop, where \<open>sleep(2)\<close>
  keeps every other event waiting: no event of the connection comes in between.
\<close>

definition ExampleTcpClientManager_tick ::
    "'b evbuffer_api \<Rightarrow> connect_env \<Rightarrow> 'u timer \<Rightarrow> 'b tcpclient
      \<Rightarrow> sock_error + 'b tcpclient \<times> sock_effect list \<times> bool" where
  "ExampleTcpClientManager_tick api env timer c =
     (let (c1, eff1) = (if \<not> tc_isConnected c
            then (case TcpClient_connect api env c of (r, c1, eff) \<Rightarrow> (c1, eff)) else (c, []));
          c2 = snd (TcpSocket_send api (test_bytes 1220) 1220 c1)
      in if Timer_curRound timer \<ge> 3000
         then (case TcpSocket_close api False c2 of
                 Inl err \<Rightarrow> Inl err
               | Inr (c3, eff2) \<Rightarrow> Inr (c3, eff1 @ eff2, True))
         else Inr (c2, eff1, False))"

text \<open>A send that libevent has memory for.\<close>

lemma send_done:
  assumes "evbuffer_laws api bytes" and "\<And>b d. fst (evbuffer_add api b d) \<noteq> - 1"
    and "s_bev c = Some b" and "\<not> s_isClosing c"
  obtains out where "TcpSocket_send api d n c = (True, c\<lparr>s_bev := Some (b\<lparr>be_output := out\<rparr>)\<rparr>)"
    and "bytes out = bytes (be_output b) @ take (unat n) d"
proof
  let ?out = "snd (evbuffer_add api (be_output b) (take (unat n) d))"
  show "TcpSocket_send api d n c = (True, c\<lparr>s_bev := Some (b\<lparr>be_output := ?out\<rparr>)\<rparr>)"
    using assms(2) by (simp add: TcpSocket_send_def assms(3,4) case_prod_beta)
  show "bytes ?out = bytes (be_output b) @ take (unat n) d"
    by (rule evbuffer_lawsD(9) [OF assms(1,2)])
qed

lemma length_test_bytes: "0 < n \<Longrightarrow> length (test_bytes n) = n"
  by (simp add: test_bytes_def)

text \<open>
  A tick never fails. A client that has a bufferevent, or gets one now, and is not closing queues
  the 1220 bytes; from round 3000 on it is shut down and everything is told to stop.
\<close>

lemma client_manager_tick:
  assumes "evbuffer_laws api bytes" and "\<And>b d. fst (evbuffer_add api b d) \<noteq> - 1"
  shows "\<exists>c1 eff. ExampleTcpClientManager_tick api env timer c = Inr (c1, eff, 3000 \<le> t_curRound timer)
    \<and> (s_bev c \<noteq> None \<and> \<not> s_isClosing c \<longrightarrow>
         socket_output (api, bytes) c1 = socket_output (api, bytes) c @ test_bytes 1220)
    \<and> (s_bev c1 \<noteq> None \<and> 3000 \<le> t_curRound timer \<longrightarrow> ShutdownFd (TcpSocket_socket c1) \<in> set eff)"
proof -
  define start where "start = (if \<not> tc_isConnected c
    then (case TcpClient_connect api env c of (r, c1, eff) \<Rightarrow> (c1, eff)) else (c, []))"
  define c1 where "c1 = fst start"
  define c2 where "c2 = snd (TcpSocket_send api (test_bytes 1220) 1220 c1)"
  have same: "c1 = c" if "s_bev c \<noteq> None" using that by (simp add: c1_def start_def TcpClient_connect_def)
  have sent: "socket_output (api, bytes) c2 = socket_output (api, bytes) c @ test_bytes 1220"
    if up: "s_bev c \<noteq> None" "\<not> s_isClosing c"
  proof -
    obtain b where b: "s_bev c = Some b" using up(1) by auto
    have same: "c1 = c" using same up(1) by simp
    obtain out where "TcpSocket_send api (test_bytes 1220) 1220 c1 = (True, c1\<lparr>s_bev := Some (b\<lparr>be_output := out\<rparr>)\<rparr>)"
      "bytes out = bytes (be_output b) @ take (unat (1220 :: u32)) (test_bytes 1220)"
      using send_done [OF assms b up(2)] same by metis
    then show ?thesis by (simp add: c2_def socket_output_def b length_test_bytes)
  qed
  have tick: "ExampleTcpClientManager_tick api env timer c =
      (if 3000 \<le> t_curRound timer
       then (case TcpSocket_close api False c2 of
               Inl err \<Rightarrow> Inl err | Inr (c3, eff2) \<Rightarrow> Inr (c3, snd start @ eff2, True))
       else Inr (c2, snd start, False))"
    by (simp add: ExampleTcpClientManager_tick_def c1_def c2_def case_prod_beta flip: start_def)
  obtain c3 eff2 where "TcpSocket_close api False c2 = Inr (c3, eff2)"
    "socket_output (api, bytes) c3 = socket_output (api, bytes) c2"
    "s_bev c3 \<noteq> None \<longrightarrow> eff2 = [ShutdownFd (TcpSocket_socket c3)]"
    by (cases "s_bev c2")
      (auto simp: TcpSocket_close_def TcpSocket_closeImpl_def TcpSocket_clearInputBuffer_def
        socket_output_def TcpSocket_socket_def Let_def)
  with tick sent show ?thesis by auto
qed

section \<open>The TPKT example\<close>

text \<open>The lambda of the timer, which drops what \<open>sendWithTPKT\<close> returns.\<close>

definition TKPT_example_code :: "'b evbuffer_api \<Rightarrow> (unit, 'b tcpclient) user_code" where
  "TKPT_example_code api =
     \<lparr>call_user = (\<lambda>u t c. (t, snd (TcpClientTPKT_sendWithTPKT api (test_bytes 1000) 1000 c))),
      call_cb = (\<lambda>c p n t w. (0, t, w))\<rparr>"

text \<open>
  \<open>TKPT_example()\<close> on the client's side: the connection, and the timeouts \<open>es\<close> of the timer until a
  key is pressed. The timer comes from the manager \<open>m\<close>, which makes it at address \<open>a\<close> among its timers
  \<open>h\<close>; the program keeps its pointer until then, so that no audit frees it.
\<close>

definition TKPT_example ::
    "'b evbuffer_api \<Rightarrow> connect_env \<Rightarrow> event_env \<Rightarrow> event_env list
      \<Rightarrow> addr \<Rightarrow> unit timer_manager \<Rightarrow> unit timer sheap
      \<Rightarrow> (timer_error + unit timer_manager \<times> unit timer sheap \<times> 'b tcpclient) option" where
  "TKPT_example api cenv e es a m h =
     (let c = fst (snd (TcpClient_connect api cenv TcpClient_new));
          (i, m1, h1) = TimerManager_getTimer a m h
      in case heap_call (Timer_startForever e 1 (UserHandler ())) a h1 of
           None \<Rightarrow> None
         | Some (r, h2) \<Rightarrow>
             Some (map_sum id (\<lambda>(h3, c1). (m1, h3, c1)) (heap_timeouts (TKPT_example_code api) es a h2 c)))"

lemma example_send:
  fixes c :: "('b, 'z) tcpsocket_scheme"
  assumes "evbuffer_laws api bytes" and "\<And>b d. fst (evbuffer_add api b d) \<noteq> - 1"
    and "s_bev c \<noteq> None" and "\<not> s_isClosing c"
  shows "let c1 = snd (TcpClientTPKT_sendWithTPKT api (test_bytes 1000) 1000 c)
    in s_bev c1 \<noteq> None \<and> \<not> s_isClosing c1
      \<and> socket_output (api, bytes) c1 = socket_output (api, bytes) c @ frame (test_bytes 1000)"
proof -
  obtain b where b: "s_bev c = Some b" using assms(3) by auto
  let ?h = "tpkt_header 1000"
  obtain out1 where 1: "TcpSocket_send api ?h TPKT1_LENGTH c = (True, c\<lparr>s_bev := Some (b\<lparr>be_output := out1\<rparr>)\<rparr>)"
    "bytes out1 = bytes (be_output b) @ take (unat TPKT1_LENGTH) ?h"
    by (rule send_done [OF assms(1,2) b assms(4)])
  let ?c = "c\<lparr>s_bev := Some (b\<lparr>be_output := out1\<rparr>)\<rparr>"
  obtain out2 where 2: "TcpSocket_send api (test_bytes 1000) 1000 ?c =
      (True, ?c\<lparr>s_bev := Some ((b\<lparr>be_output := out1\<rparr>)\<lparr>be_output := out2\<rparr>)\<rparr>)"
    "bytes out2 = bytes (be_output (b\<lparr>be_output := out1\<rparr>)) @ take (unat (1000 :: u32)) (test_bytes 1000)"
    by (rule send_done [OF assms(1,2), of ?c "b\<lparr>be_output := out1\<rparr>" "test_bytes 1000" 1000])
      (use assms(4) in simp_all)
  show ?thesis
    using 1 2 assms(4) b
    by (simp add: TcpClientTPKT_sendWithTPKT_def send_with_tpkt_def socket_output_def frame_def
        length_test_bytes)
qed

text \<open>The client's side: one frame per timeout.\<close>

lemma example_frames:
  fixes api :: "'b evbuffer_api"
  assumes laws: "evbuffer_laws api bytes" "\<And>b d. fst (evbuffer_add api b d) \<noteq> - 1"
    and conn: "ce_new_ok cenv" "ce_enable_ok cenv" "ce_connect_ok cenv"
    and timer: "event_new_ok e" "event_add_ok e" and short: "length es < 2 ^ 32 - 1"
  obtains m1 h1 t n c where "TKPT_example api cenv e es a m h = Some (Inr (m1, h1, c))"
    "h1 a = Some (t, n)" "Timer_pending t"
    "socket_output (api, bytes) c = frames (replicate (length es) (test_bytes 1000))"
proof -
  let ?c = "fst (snd (TcpClient_connect api cenv TcpClient_new)) :: 'b tcpclient"
  let ?g = "\<lambda>c :: 'b tcpclient. snd (TcpClientTPKT_sendWithTPKT api (test_bytes 1000) 1000 c)"
  have c: "s_bev ?c \<noteq> None" "\<not> s_isClosing ?c" "socket_output (api, bytes) ?c = []"
    using conn evbuffer_lawsD(1) [OF laws(1)]
    by (simp_all add: TcpClient_connect_def TcpClient_new_def socket_output_def Let_def)
  have pow: "s_bev ((?g ^^ n) ?c) \<noteq> None \<and> \<not> s_isClosing ((?g ^^ n) ?c)
      \<and> socket_output (api, bytes) ((?g ^^ n) ?c) = frames (replicate n (test_bytes 1000))" for n
  proof (induction n)
    case 0
    then show ?case using c by simp
  next
    case (Suc n)
    have "frames (replicate (Suc n) m) = frames (replicate n m) @ frame m" for m
      by (simp only: replicate_Suc replicate_append_same [symmetric] frames_simps append_Nil2)
    with Suc show ?case using example_send [OF laws, of "(?g ^^ n) ?c"] by (simp add: Let_def)
  qed
  obtain t where start: "Timer_startRounds e 1 forever_rounds (UserHandler ()) Timer_new = (True, t)"
    using timer by (simp add: Timer_startRounds_def Timer_new_def)
  note s = started_armed [OF start]
  have left: "rounds_left t = 2 ^ 32 - 1" by (simp add: s(5) unat_forever_rounds)
  have "call_handler (TKPT_example_code api) e (UserHandler ()) t c = Inr (t, ?g c)" for e t c
    by (simp add: TKPT_example_code_def)
  from run_counts [OF this s(1,2), of es ?c] short
  have ran: "Timer_run (TKPT_example_code api) es t ?c = Inr (t\<lparr>t_curRound := of_nat (length es)\<rparr>, (?g ^^ length es) ?c)"
    by (simp add: left s(4))
  obtain i m1 h1 where get: "TimerManager_getTimer a m h = (i, m1, h1)" by (rule prod_cases3)
  then obtain n where "h1 a = Some (Timer_new, n)"
    by (auto simp: TimerManager_getTimer_def shared_new_def shared_copy_def Let_def split: prod.splits if_splits)
  then have "\<exists>h3. TKPT_example api cenv e es a m h = Some (Inr (m1, h3, (?g ^^ length es) ?c))
      \<and> h3 a = Some (t\<lparr>t_curRound := of_nat (length es)\<rparr>, n)"
    by (simp add: TKPT_example_def get heap_call_def heap_timeouts_def Timer_startForever_def start ran Let_def)
  moreover have "Timer_pending (t\<lparr>t_curRound := of_nat (length es)\<rparr>)"
    using armed_pending [OF armed_advance(1) [OF s(1), of "length es"]] short by (simp add: left s(4))
  ultimately show thesis using that pow by blast
qed

section \<open>Properties\<close>

text \<open>C3: The TPKT example, from the timer of the client to the \<open>onRead\<close> of the server: after \<open>n\<close>
  timeouts the server, however the bytes are split on the way, has been given \<open>n\<close> messages of
  1000 bytes, each a 1 and zeros.\<close>
theorem tpkt_example_delivers:
  fixes api :: "'b evbuffer_api"
  assumes laws: "evbuffer_laws api bytes" "\<And>b d. fst (evbuffer_add api b d) \<noteq> - 1"
    and conn: "ce_new_ok cenv" "ce_enable_ok cenv" "ce_connect_ok cenv"
    and timer: "event_new_ok e" "event_add_ok e" and short: "1004 * length es < 2 ^ 32"
    and ok: "dispatcher_ok d held" and queue: "d_actions d = []" and attach: "attach_ok (env i) sock"
  shows "\<exists>m1 h1 c. TKPT_example api cenv e es a0 m h = Some (Inr (m1, h1, c))
    \<and> (\<forall>cs. concat cs = socket_output (api, bytes) c \<longrightarrow>
         (let d1 = frame_work api (TcpServerTPKT_code api) env (TcpServerDispatcher_addSession i sock d)
          in \<exists>a d2. d_sessions d1 i = Some a \<and> read_chunks api a cs d1 = Some (Inr d2)
            \<and> d_user d2 = d_user d @ replicate (length es) \<lparr>d_msg = test_bytes 1000, d_len = 1000\<rparr>))"
proof -
  obtain m1 h1 t n c where run: "TKPT_example api cenv e es a0 m h = Some (Inr (m1, h1, c))"
    and out: "socket_output (api, bytes) c = frames (replicate (length es) (test_bytes 1000))"
    by (rule example_frames [where e = e and es = es and cenv = cenv, OF laws conn timer]) (use short in auto)
  have "length (frames (replicate n (test_bytes 1000))) = 1004 * n" for n
    by (induction n) (simp_all add: length_test_bytes)
  then have len: "length (frames (replicate (length es) (test_bytes 1000))) < 2 ^ 32" using short by simp
  have fit: "\<forall>m \<in> set (replicate (length es) (test_bytes 1000)). fits m"
    by (auto simp: fits_def length_test_bytes)
  have deliveries: "map delivery_of (replicate n (test_bytes 1000)) =
      replicate n \<lparr>d_msg = test_bytes 1000, d_len = 1000\<rparr>" for n
    by (simp add: delivery_of_def length_test_bytes)
  show ?thesis
    using run frames_delivered [where env = env, OF laws(1) fit len _ ok queue attach] out
    unfolding deliveries by auto
qed

text \<open>Two messages, in one piece.\<close>

theorem tpkt_example_delivers_witness:
  "\<exists>m1 h1 c. TKPT_example list_api \<lparr>ce_new_ok = True, ce_enable_ok = True, ce_connect_ok = True, ce_fd = 7\<rparr>
        good_env [good_env, good_env] 100 (TimerManager_members good_env ()) (\<lambda>a. None) = Some (Inr (m1, h1, c))
    \<and> (let d1 = frame_work list_api (TcpServerTPKT_code list_api) all_attach
              (TcpServerDispatcher_addSession 1 5 (TcpServerDispatcher_new 0 []))
       in \<exists>a d2. d_sessions d1 1 = Some a
         \<and> read_chunks list_api a [socket_output (list_api, \<lambda>b. b) c] d1 = Some (Inr d2)
         \<and> d_user d2 = replicate 2 \<lparr>d_msg = test_bytes 1000, d_len = 1000\<rparr>)"
proof -
  let ?cenv = "\<lparr>ce_new_ok = True, ce_enable_ok = True, ce_connect_ok = True, ce_fd = 7\<rparr>"
  let ?d = "TcpServerDispatcher_new 0 [] :: (byte list, delivery list) dispatcher"
  have add: "fst (evbuffer_add list_api b d) \<noteq> - 1" for b d by (simp add: list_api_def)
  have ok: "ce_new_ok ?cenv" "ce_enable_ok ?cenv" "ce_connect_ok ?cenv" "event_new_ok good_env" "event_add_ok good_env"
    "1004 * length [good_env, good_env] < 2 ^ 32"
    by (simp_all add: good_env_def)
  have d: "dispatcher_ok ?d (\<lambda>a. 0)" "d_actions ?d = []" "d_user ?d = []" "attach_ok (all_attach 1) 5"
    by (simp_all add: dispatcher_ok_new) (simp_all add: TcpServerDispatcher_new_def all_attach_def
        attach_ok_def SOCKET_FD_INVALID_def)
  obtain m1 h1 c where run: "TKPT_example list_api ?cenv good_env [good_env, good_env] 100
      (TimerManager_members good_env ()) (\<lambda>a. None) = Some (Inr (m1, h1, c))"
    and all: "\<forall>cs. concat cs = socket_output (list_api, \<lambda>b. b) c \<longrightarrow>
         (let d1 = frame_work list_api (TcpServerTPKT_code list_api) all_attach (TcpServerDispatcher_addSession 1 5 ?d)
          in \<exists>a d2. d_sessions d1 1 = Some a \<and> read_chunks list_api a cs d1 = Some (Inr d2)
            \<and> d_user d2 = d_user ?d @ replicate (length [good_env, good_env]) \<lparr>d_msg = test_bytes 1000, d_len = 1000\<rparr>)"
    using tpkt_example_delivers [where env = all_attach and i = 1, OF list_api_laws add ok d(1,2,4)] by blast
  have "d_user ?d @ replicate (length [good_env, good_env]) x = replicate 2 x" for x
    by (simp add: d(3) numeral_2_eq_2)
  with run all [rule_format, of "[socket_output (list_api, \<lambda>b. b) c]"] show ?thesis by auto
qed

end
