(* ===== verification/Http.thy ===== *)
theory Http
  imports TcpSocket Event_Loop
begin

text \<open>
  The HTTP server: \<open>HttpRequest\<close> (include/translib/httpRequest.h, src/translib/httpRequest.cpp) and
  \<open>HttpServer\<close> (include/translib/httpServer.h, src/translib/httpServer.cpp).

  libevent's \<open>evhttp\<close> is a parameter: \<open>evhttp_api\<close> holds its functions over an unknown type
  \<open>'h\<close>, and \<open>evhttp_laws\<close> states what its documentation promises of them. What the code asks
  of \<open>evhttp\<close> for one request (headers, start, chunks, end of the reply) is recorded in order.
\<close>

section \<open>Requests\<close>

text \<open>The calls that concern a reply, in the order they are made.\<close>

datatype http_call =
    RemoveHeader string
  | AddHeader string string
  | ReplyStart int string
  | ReplyChunk "byte list"
  | ReplyEnd

text \<open>
  \<open>_req\<close> is what \<open>evhttp\<close> parsed; of a parsed request the getters read the URI and its parts, the
  command and the input headers, which \<open>evhttp_find_header\<close> searches.
\<close>

record evhttp_request =
  rq_uri :: string
  rq_path :: string
  rq_host :: "string option"
  rq_port :: int
  rq_command :: nat
  rq_input_headers :: "string \<Rightarrow> string option"

record 'b http_request =
  hr_req :: evhttp_request
  hr_buffer :: 'b
  hr_calls :: "http_call list"

text \<open>An empty \<open>std::function\<close> throws when called; a conversion without its argument is undefined.\<close>

datatype http_error = BadFunctionCall | UndefinedFormat | DanglingHandler

definition HttpRequest_new :: "'b evbuffer_api \<Rightarrow> evhttp_request \<Rightarrow> 'b http_request" where
  "HttpRequest_new api req = \<lparr>hr_req = req, hr_buffer = evbuffer_new api, hr_calls = []\<rparr>"

definition HttpRequest_getUri :: "'b http_request \<Rightarrow> string" where
  "HttpRequest_getUri r = rq_uri (hr_req r)"

definition HttpRequest_getPath :: "'b http_request \<Rightarrow> string" where
  "HttpRequest_getPath r = rq_path (hr_req r)"

definition HttpRequest_getHost :: "'b http_request \<Rightarrow> string option" where
  "HttpRequest_getHost r = rq_host (hr_req r)"

text \<open>\<open>evhttp_uri_get_port\<close> answers \<open>-1\<close> when the URI has no port; the result is a \<open>uint16_t\<close>.\<close>

definition HttpRequest_getPort :: "'b http_request \<Rightarrow> u16" where
  "HttpRequest_getPort r = of_int (rq_port (hr_req r))"

definition HttpRequest_getCommand :: "'b http_request \<Rightarrow> nat" where
  "HttpRequest_getCommand r = rq_command (hr_req r)"

definition HttpRequest_findHeaders :: "'b http_request \<Rightarrow> string \<Rightarrow> string option" where
  "HttpRequest_findHeaders r key = rq_input_headers (hr_req r) key"

definition http_do :: "http_call \<Rightarrow> 'b http_request \<Rightarrow> 'b http_request" where
  "http_do call r = r\<lparr>hr_calls := hr_calls r @ [call]\<rparr>"

definition HttpRequest_setHeader ::
    "string \<Rightarrow> string \<Rightarrow> 'b http_request \<Rightarrow> bool \<times> 'b http_request" where
  "HttpRequest_setHeader key value r = (True, http_do (AddHeader key value) (http_do (RemoveHeader key) r))"

text \<open>
  \<open>evbuffer_add_printf(buffer, content)\<close> takes the content as a format string. As in
  \<open>printf\<close>, \<open>%%\<close> prints one \<open>%\<close>, other conversions read arguments that were not passed
  (\<open>None\<close>, undefined behaviour), and everything else is copied.
\<close>

definition percent :: byte where
  "percent = 37"

fun printf_noargs :: "byte list \<Rightarrow> byte list option" where
  "printf_noargs [] = Some []"
| "printf_noargs [c] = (if c = percent then None else Some [c])"
| "printf_noargs (c # d # cs) =
     (if c = percent
      then (if d = percent then map_option (Cons percent) (printf_noargs cs) else None)
      else map_option (Cons c) (printf_noargs (d # cs)))"

definition evbuffer_add_printf ::
    "'b evbuffer_api \<Rightarrow> 'b \<Rightarrow> byte list \<Rightarrow> http_error + int \<times> 'b" where
  "evbuffer_add_printf api b content =
     (case printf_noargs content of
        None \<Rightarrow> Inl UndefinedFormat
      | Some text \<Rightarrow> Inr (evbuffer_add api b text))"

definition HttpRequest_setBody ::
    "'b evbuffer_api \<Rightarrow> byte list \<Rightarrow> 'b http_request \<Rightarrow> http_error + bool \<times> 'b http_request" where
  "HttpRequest_setBody api content r =
     (case evbuffer_add_printf api (hr_buffer r) content of
        Inl err \<Rightarrow> Inl err
      | Inr (ret, buf) \<Rightarrow> Inr (True, r\<lparr>hr_buffer := buf\<rparr>))"

text \<open>
  \<open>evhttp_send_reply_chunk\<close> takes all bytes out of the buffer (read here through
  \<open>evbuffer_remove\<close>, at most \<open>UINT32_MAX\<close> of them); an empty buffer sends nothing.
\<close>

definition send_reply_chunk :: "'b evbuffer_api \<Rightarrow> 'b http_request \<Rightarrow> 'b http_request" where
  "send_reply_chunk api r =
     (let (n, d, buf) = evbuffer_remove api (hr_buffer r) (- 1)
      in http_do (ReplyChunk d) (r\<lparr>hr_buffer := buf\<rparr>))"

definition HttpRequest_setChunk ::
    "'b evbuffer_api \<Rightarrow> byte list \<Rightarrow> 'b http_request \<Rightarrow> http_error + bool \<times> 'b http_request" where
  "HttpRequest_setChunk api content r =
     (case evbuffer_add_printf api (hr_buffer r) content of
        Inl err \<Rightarrow> Inl err
      | Inr (ret, buf) \<Rightarrow> Inr (True, send_reply_chunk api (r\<lparr>hr_buffer := buf\<rparr>)))"

section \<open>The server\<close>

text \<open>
  What \<open>evhttp\<close> does with a request's path: it calls \<open>mainCallback\<close> with the argument given
  when the path was registered (the address of a map entry, named by its key), or
  \<open>genericCallback\<close>, or neither.
\<close>

datatype route = Specific string | Generic | NoCallback

record 'h evhttp_api =
  evhttp_new :: "'h option"
  evhttp_bind_socket :: "'h \<Rightarrow> string \<Rightarrow> u16 \<Rightarrow> int \<times> 'h"
  evhttp_set_gencb :: "'h \<Rightarrow> 'h"
  evhttp_set_cb :: "'h \<Rightarrow> string \<Rightarrow> string \<Rightarrow> int \<times> 'h"
  evhttp_route :: "'h \<Rightarrow> string \<Rightarrow> route"

text \<open>
  A new \<open>evhttp\<close> has no callbacks and binding adds none; the generic callback gets every path
  without its own; \<open>evhttp_set_cb\<close> adds a callback, answers \<open>-1\<close> and changes nothing when
  the path has one already, and \<open>-2\<close> when it fails.
\<close>

definition evhttp_laws :: "'h evhttp_api \<Rightarrow> bool" where
  "evhttp_laws api \<longleftrightarrow>
     (\<forall>h p. evhttp_new api = Some h \<longrightarrow> evhttp_route api h p = NoCallback)
   \<and> (\<forall>h ip port p. evhttp_route api (snd (evhttp_bind_socket api h ip port)) p = evhttp_route api h p)
   \<and> (\<forall>h p. evhttp_route api (evhttp_set_gencb api h) p =
        (case evhttp_route api h p of Specific a \<Rightarrow> Specific a | _ \<Rightarrow> Generic))
   \<and> (\<forall>h p a. (\<exists>x. evhttp_route api h p = Specific x) \<longrightarrow>
        fst (evhttp_set_cb api h p a) = - 1
      \<and> evhttp_route api (snd (evhttp_set_cb api h p a)) = evhttp_route api h)
   \<and> (\<forall>h p a. (\<forall>x. evhttp_route api h p \<noteq> Specific x) \<longrightarrow>
        (fst (evhttp_set_cb api h p a) = 0
          \<and> evhttp_route api (snd (evhttp_set_cb api h p a)) = (evhttp_route api h)(p := Specific a))
      \<or> (fst (evhttp_set_cb api h p a) = - 2
          \<and> evhttp_route api (snd (evhttp_set_cb api h p a)) = evhttp_route api h))"

text \<open>An \<open>evhttp\<close> that is its table of routes; the laws hold of it.\<close>

definition map_http :: "(string \<Rightarrow> route) evhttp_api" where
  "map_http = \<lparr>evhttp_new = Some (\<lambda>p. NoCallback), evhttp_bind_socket = (\<lambda>h ip port. (0, h)),
     evhttp_set_gencb = (\<lambda>h p. case h p of Specific a \<Rightarrow> Specific a | _ \<Rightarrow> Generic),
     evhttp_set_cb = (\<lambda>h p a. case h p of Specific x \<Rightarrow> (- 1, h) | _ \<Rightarrow> (0, h(p := Specific a))),
     evhttp_route = (\<lambda>h. h)\<rparr>"

lemma map_http_laws: "evhttp_laws map_http"
  by (auto simp: evhttp_laws_def map_http_def split: route.splits)

text \<open>A handler is user code that may change the request and its own world, or none at all.\<close>

type_synonym ('b, 'w) http_handler =
  "('b http_request \<Rightarrow> 'w \<Rightarrow> http_error + 'b http_request \<times> 'w) option"

record ('h, 'b, 'w) http_server =
  h_ip :: string
  h_port :: u16
  h_http :: "'h option"
  h_handlers :: "string \<rightharpoonup> ('b, 'w) http_handler"

definition HttpServer_new :: "('h, 'b, 'w) http_server" where
  "HttpServer_new = \<lparr>h_ip = [], h_port = 0, h_http = None, h_handlers = Map.empty\<rparr>"

text \<open>
  \<open>~HttpServer\<close> frees the \<open>evhttp\<close>, whose events leave the event base of the loop at \<open>a\<close>
  (\<open>remove\<close>); then \<open>~Loop\<close> runs, after what the other threads do \<open>between\<close> the two.
\<close>

definition HttpServer_destroy ::
    "'l event_base_api \<Rightarrow> 'l loop_hooks \<Rightarrow> ('l \<Rightarrow> 'l) \<Rightarrow> ('l loops \<Rightarrow> 'l loops) \<Rightarrow> ('l loops \<Rightarrow> 'l loops)
      \<Rightarrow> ('l loops \<Rightarrow> 'l loops) \<Rightarrow> addr \<Rightarrow> ('h, 'b, 'w) http_server \<Rightarrow> 'l loops \<Rightarrow> (loop_error + 'l loops) option" where
  "HttpServer_destroy api hk remove between racing during a s w =
     Loop_destroy api hk racing during a (between (if h_http s \<noteq> None then change_base remove a w else w))"

definition HttpServer_listen ::
    "'h evhttp_api \<Rightarrow> string \<Rightarrow> u16 \<Rightarrow> ('h, 'b, 'w) http_server \<Rightarrow> bool \<times> ('h, 'b, 'w) http_server" where
  "HttpServer_listen api ip port s =
     (if h_http s \<noteq> None then (False, s)
      else (case evhttp_new api of
              None \<Rightarrow> (False, s\<lparr>h_http := None\<rparr>)
            | Some h \<Rightarrow>
                (let (ret, h1) = evhttp_bind_socket api h ip port
                 in if ret \<noteq> 0 then (False, s\<lparr>h_http := None\<rparr>)
                    else (True, s\<lparr>h_ip := ip, h_port := port, h_http := Some (evhttp_set_gencb api h1)\<rparr>))))"

definition HttpServer_regHandler ::
    "'h evhttp_api \<Rightarrow> string \<Rightarrow> ('b, 'w) http_handler \<Rightarrow> ('h, 'b, 'w) http_server
      \<Rightarrow> ('h, 'b, 'w) http_server" where
  "HttpServer_regHandler api path handler s =
     (case h_http s of
        None \<Rightarrow> s
      | Some h \<Rightarrow> s\<lparr>h_handlers := smap_assign path handler (h_handlers s),
                   h_http := Some (snd (evhttp_set_cb api h path path))\<rparr>)"

definition HTTP_OK :: int where
  "HTTP_OK = 200"

definition HTTP_NOTFOUND :: int where
  "HTTP_NOTFOUND = 404"

definition HttpServer_genericCallback :: "'b http_request \<Rightarrow> 'b http_request" where
  "HttpServer_genericCallback r = http_do ReplyEnd (http_do (ReplyStart HTTP_NOTFOUND ''not found'') r)"

definition CONNECTION_KEY :: string where
  "CONNECTION_KEY = ''Connection''"

definition CONNECTION_VALUE :: string where
  "CONNECTION_VALUE = ''keep-alive''"

text \<open>\<open>strncmp(a, b, n) == 0\<close> of two C strings.\<close>

definition strncmp_equal :: "string \<Rightarrow> string \<Rightarrow> nat \<Rightarrow> bool" where
  "strncmp_equal a b n \<longleftrightarrow> take n a = take n b"

definition HttpServer_mainCallback ::
    "'b evbuffer_api \<Rightarrow> ('b, 'w) http_handler \<Rightarrow> evhttp_request \<Rightarrow> 'w
      \<Rightarrow> http_error + 'b http_request \<times> 'w" where
  "HttpServer_mainCallback api handler req w =
     (case handler of
        None \<Rightarrow> Inl BadFunctionCall
      | Some f \<Rightarrow>
          (case f (HttpRequest_new api req) w of
             Inl err \<Rightarrow> Inl err
           | Inr (r1, w1) \<Rightarrow>
               (let r2 = (case HttpRequest_findHeaders r1 CONNECTION_KEY of
                            None \<Rightarrow> r1
                          | Some v \<Rightarrow>
                              if strncmp_equal CONNECTION_VALUE v (length CONNECTION_VALUE)
                              then http_do (AddHeader CONNECTION_KEY CONNECTION_VALUE) r1 else r1);
                    r3 = send_reply_chunk api (http_do (ReplyStart HTTP_OK ''OK'') r2)
                in Inr (http_do ReplyEnd r3, w1))))"

text \<open>A request for a path arrives while the server's loop runs.\<close>

definition HttpServer_serve ::
    "'h evhttp_api \<Rightarrow> 'b evbuffer_api \<Rightarrow> evhttp_request \<Rightarrow> ('h, 'b, 'w) http_server \<Rightarrow> 'w
      \<Rightarrow> http_error + 'b http_request \<times> 'w" where
  "HttpServer_serve api bapi req s w =
     (case h_http s of
        None \<Rightarrow> Inr (HttpRequest_new bapi req, w)
      | Some h \<Rightarrow>
          (case evhttp_route api h (rq_path req) of
             NoCallback \<Rightarrow> Inr (HttpRequest_new bapi req, w)
           | Generic \<Rightarrow> Inr (HttpServer_genericCallback (HttpRequest_new bapi req), w)
           | Specific key \<Rightarrow>
               (case h_handlers s key of
                  None \<Rightarrow> Inl DanglingHandler
                | Some handler \<Rightarrow> HttpServer_mainCallback bapi handler req w)))"

section \<open>Handlers\<close>

text \<open>What a handler does to its request, through the public methods.\<close>

datatype request_op = OpHeader string string | OpBody "byte list" | OpChunk "byte list"

fun request_run ::
    "'b evbuffer_api \<Rightarrow> request_op list \<Rightarrow> 'b http_request \<Rightarrow> http_error + 'b http_request" where
  "request_run api [] r = Inr r"
| "request_run api (OpHeader k v # ops) r = request_run api ops (snd (HttpRequest_setHeader k v r))"
| "request_run api (OpBody c # ops) r =
     (case HttpRequest_setBody api c r of
        Inl err \<Rightarrow> Inl err | Inr (x, r1) \<Rightarrow> request_run api ops r1)"
| "request_run api (OpChunk c # ops) r =
     (case HttpRequest_setChunk api c r of
        Inl err \<Rightarrow> Inl err | Inr (x, r1) \<Rightarrow> request_run api ops r1)"

definition ops_handler :: "'b evbuffer_api \<Rightarrow> request_op list \<Rightarrow> ('b, 'w) http_handler" where
  "ops_handler api ops = Some (\<lambda>r w. map_sum id (\<lambda>r1. (r1, w)) (request_run api ops r))"

fun op_content :: "request_op \<Rightarrow> byte list" where
  "op_content (OpHeader k v) = []"
| "op_content (OpBody c) = c"
| "op_content (OpChunk c) = c"

fun is_chunk :: "request_op \<Rightarrow> bool" where
  "is_chunk (OpChunk c) \<longleftrightarrow> True"
| "is_chunk _ \<longleftrightarrow> False"

text \<open>
  The calls that the operations make with \<open>p\<close> in the buffer, and what they leave there: a header
  replaces the one with its key, a body waits, and a chunk sends all that waits.
\<close>

fun reply_calls :: "byte list \<Rightarrow> request_op list \<Rightarrow> http_call list" where
  "reply_calls p [] = []"
| "reply_calls p (OpHeader k v # ops) = RemoveHeader k # AddHeader k v # reply_calls p ops"
| "reply_calls p (OpBody c # ops) = reply_calls (p @ c) ops"
| "reply_calls p (OpChunk c # ops) = ReplyChunk (p @ c) # reply_calls [] ops"

fun reply_rest :: "byte list \<Rightarrow> request_op list \<Rightarrow> byte list" where
  "reply_rest p [] = p"
| "reply_rest p (OpHeader k v # ops) = reply_rest p ops"
| "reply_rest p (OpBody c # ops) = reply_rest (p @ c) ops"
| "reply_rest p (OpChunk c # ops) = reply_rest [] ops"

text \<open>The body bytes of a reply; the calls that send some before the reply was started.\<close>

fun call_bytes :: "http_call \<Rightarrow> byte list" where
  "call_bytes (ReplyChunk d) = d"
| "call_bytes _ = []"

fun is_start :: "http_call \<Rightarrow> bool" where
  "is_start (ReplyStart code reason) \<longleftrightarrow> True"
| "is_start _ \<longleftrightarrow> False"

fun is_reply_chunk :: "http_call \<Rightarrow> bool" where
  "is_reply_chunk (ReplyChunk d) \<longleftrightarrow> True"
| "is_reply_chunk _ \<longleftrightarrow> False"

fun is_end :: "http_call \<Rightarrow> bool" where
  "is_end ReplyEnd \<longleftrightarrow> True"
| "is_end _ \<longleftrightarrow> False"

definition reply_bytes :: "http_call list \<Rightarrow> byte list" where
  "reply_bytes cs = concat (map call_bytes cs)"

definition chunk_before_start :: "http_call list \<Rightarrow> bool" where
  "chunk_before_start cs \<longleftrightarrow> list_ex is_reply_chunk (takeWhile (Not \<circ> is_start) cs)"

lemma reply_bytes_simps [simp]:
  "reply_bytes [] = []" "reply_bytes (c # cs) = call_bytes c @ reply_bytes cs"
  "reply_bytes (cs @ ds) = reply_bytes cs @ reply_bytes ds"
  by (simp_all add: reply_bytes_def)

section \<open>Lemmas\<close>

text \<open>The format-string interpretation copies exactly the contents without a percent sign.\<close>

lemma printf_shape:
  "printf_noargs c = Some d \<Longrightarrow> length d \<le> length c \<and> (percent \<in> set c \<longrightarrow> length d < length c)"
proof (induction c arbitrary: d rule: printf_noargs.induct)
  case (3 c e cs)
  show ?case
  proof (cases "c = percent")
    case True
    then obtain d1 where "printf_noargs cs = Some d1" "d = percent # d1"
      using 3(3) by (auto split: if_splits)
    then show ?thesis using 3(1) [of d1] 3(3) True by (auto split: if_splits)
  next
    case False
    then obtain d1 where "printf_noargs (e # cs) = Some d1" "d = c # d1" using 3(3) by auto
    then show ?thesis using 3(2) [OF False, of d1] False by auto
  qed
qed (auto split: if_splits)

lemma printf_plain: "percent \<notin> set c \<Longrightarrow> printf_noargs c = Some c"
  by (induction c rule: printf_noargs.induct) auto

lemma printf_exact: "printf_noargs c = Some c \<longleftrightarrow> percent \<notin> set c"
  using printf_plain printf_shape [of c c] by auto

lemma add_printf_plain:
  "percent \<notin> set c \<Longrightarrow> evbuffer_add_printf api b c = Inr (evbuffer_add api b c)"
  by (simp add: evbuffer_add_printf_def printf_plain)

lemma send_reply_chunk_all:
  assumes "evbuffer_laws api bytes" and "length (bytes (hr_buffer r)) < 2 ^ 32"
  shows "hr_req (send_reply_chunk api r) = hr_req r"
    and "bytes (hr_buffer (send_reply_chunk api r)) = []"
    and "hr_calls (send_reply_chunk api r) = hr_calls r @ [ReplyChunk (bytes (hr_buffer r))]"
  using assms
  by (simp_all add: send_reply_chunk_def http_do_def case_prod_beta evbuffer_lawsD [OF assms(1)]
      unsigned_minus_1_eq_mask mask_eq_exp_minus_1)

text \<open>What the operations of a request do is what their specification says.\<close>

lemma request_run_calls:
  assumes laws: "evbuffer_laws api bytes" and add: "\<And>b d. fst (evbuffer_add api b d) \<noteq> - 1"
    and plain: "\<forall>x\<in>set ops. percent \<notin> set (op_content x)"
    and bound: "length (bytes (hr_buffer r)) + length (concat (map op_content ops)) < 2 ^ 32"
  shows "\<exists>r1. request_run api ops r = Inr r1 \<and> hr_req r1 = hr_req r
       \<and> hr_calls r1 = hr_calls r @ reply_calls (bytes (hr_buffer r)) ops
       \<and> bytes (hr_buffer r1) = reply_rest (bytes (hr_buffer r)) ops"
  using plain bound
proof (induction ops arbitrary: r)
  case Nil
  then show ?case by simp
next
  case (Cons x ops)
  let ?full = "\<lambda>c. r\<lparr>hr_buffer := snd (evbuffer_add api (hr_buffer r) c)\<rparr>"
  have full: "bytes (hr_buffer (?full c)) = bytes (hr_buffer r) @ c" for c
    using evbuffer_lawsD(9) [OF laws add] by simp
  show ?case
  proof (cases x)
    case (OpHeader k v)
    with Cons.IH [of "snd (HttpRequest_setHeader k v r)"] Cons.prems show ?thesis
      by (simp add: HttpRequest_setHeader_def http_do_def)
  next
    case (OpBody c)
    then have "request_run api (x # ops) r = request_run api ops (?full c)"
      using Cons.prems(1) by (simp add: HttpRequest_setBody_def add_printf_plain case_prod_beta)
    with OpBody Cons.IH [of "?full c"] Cons.prems full show ?thesis by simp
  next
    case (OpChunk c)
    then have run: "request_run api (x # ops) r = request_run api ops (send_reply_chunk api (?full c))"
      using Cons.prems(1) by (simp add: HttpRequest_setChunk_def add_printf_plain case_prod_beta)
    have "length (bytes (hr_buffer (?full c))) < 2 ^ 32" using Cons.prems(2) OpChunk full by simp
    note sent = send_reply_chunk_all [OF laws this]
    show ?thesis
      using Cons.IH [of "send_reply_chunk api (?full c)"] Cons.prems run sent OpChunk full by simp
  qed
qed

text \<open>The operations send their contents in order and neither start nor end the reply.\<close>

lemma reply_calls_facts:
  "reply_bytes (reply_calls p ops) @ reply_rest p ops = p @ concat (map op_content ops)"
  "\<not> list_ex is_start (reply_calls p ops)" "\<not> list_ex is_end (reply_calls p ops)"
  "list_ex is_reply_chunk (reply_calls p ops) \<longleftrightarrow> list_ex is_chunk ops"
  by (induction p ops rule: reply_calls.induct) auto

text \<open>The routes of a server that listens: each registered path, with the entry of its own name.\<close>

definition routes_ok :: "'h evhttp_api \<Rightarrow> ('h, 'b, 'w) http_server \<Rightarrow> bool" where
  "routes_ok api s \<longleftrightarrow>
     (case h_http s of
        None \<Rightarrow> h_handlers s = Map.empty
      | Some h \<Rightarrow> (\<forall>p. evhttp_route api h p =
          (if smap_find (h_handlers s) p = None then Generic else Specific p)))"

definition reg_all ::
    "'h evhttp_api \<Rightarrow> (string \<times> ('b, 'w) http_handler) list \<Rightarrow> ('h, 'b, 'w) http_server
      \<Rightarrow> ('h, 'b, 'w) http_server" where
  "reg_all api = fold (\<lambda>(path, handler). HttpServer_regHandler api path handler)"

lemma reg_ok:
  assumes laws: "evhttp_laws api" and mem: "\<And>h p a. fst (evhttp_set_cb api h p a) \<noteq> - 2"
    and ok: "routes_ok api s"
  shows "routes_ok api (HttpServer_regHandler api path handler s)"
proof (cases "h_http s")
  case None
  then show ?thesis using ok by (simp add: HttpServer_regHandler_def)
next
  case (Some h)
  note laws = laws [unfolded evhttp_laws_def]
  have route: "\<And>p. evhttp_route api h p =
      (if smap_find (h_handlers s) p = None then Generic else Specific p)"
    using ok Some by (simp add: routes_ok_def)
  have "evhttp_route api (snd (evhttp_set_cb api h path path)) =
      (evhttp_route api h)(path := Specific path)"
  proof (cases "smap_find (h_handlers s) path = None")
    case True
    then have free: "\<forall>x. evhttp_route api h path \<noteq> Specific x" using route by simp
    show ?thesis using laws free mem by blast
  next
    case False
    then have "evhttp_route api h path = Specific path" using route by simp
    then have "evhttp_route api (snd (evhttp_set_cb api h path path)) = evhttp_route api h"
      using laws by blast
    then show ?thesis using \<open>evhttp_route api h path = Specific path\<close> by auto
  qed
  then show ?thesis using Some route
    by (simp add: routes_ok_def HttpServer_regHandler_def registry.find_assign)
qed

lemma reg_all_ok:
  assumes "evhttp_laws api" and "\<And>h p a. fst (evhttp_set_cb api h p a) \<noteq> - 2" and "routes_ok api s"
  shows "routes_ok api (reg_all api regs s)"
  using assms(3)
  by (induction regs arbitrary: s) (auto simp: reg_all_def reg_ok [OF assms(1,2)])

lemma reg_all_listening: "h_http s \<noteq> None \<Longrightarrow>
    h_http (reg_all api regs s) \<noteq> None \<and> h_handlers (reg_all api regs s) = h_handlers s ++ map_of (rev regs)"
proof (induction regs arbitrary: s)
  case Nil
  then show ?case by (simp add: reg_all_def)
next
  case (Cons x regs)
  obtain path handler where x: "x = (path, handler)" by fastforce
  let ?s = "HttpServer_regHandler api path handler s"
  have s1: "h_http ?s \<noteq> None" "h_handlers ?s = h_handlers s ++ [path \<mapsto> handler]"
    using Cons.prems by (auto simp: HttpServer_regHandler_def smap_assign_def)
  have "reg_all api (x # regs) s = reg_all api regs ?s" by (simp add: reg_all_def x)
  moreover have "(h_handlers s ++ [path \<mapsto> handler]) ++ map_of (rev regs) =
      h_handlers s ++ map_of (rev (x # regs))"
    unfolding x rev.simps map_of_append map_of.simps by simp
  ultimately show ?case using Cons.IH [OF s1(1)] s1(2) by presburger
qed

lemma reg_all_ignored: "h_http s = None \<Longrightarrow> reg_all api regs s = s"
  by (induction regs) (auto simp: reg_all_def HttpServer_regHandler_def)

lemma listen_ok:
  assumes laws: "evhttp_laws api" and ret: "HttpServer_listen api ip port s = (True, s1)"
    and none: "h_handlers s = Map.empty"
  shows "routes_ok api s1 \<and> h_http s1 \<noteq> None \<and> h_handlers s1 = Map.empty"
proof -
  note laws = laws [unfolded evhttp_laws_def]
  obtain h where h: "evhttp_new api = Some h" and
      s1: "s1 = s\<lparr>h_ip := ip, h_port := port,
        h_http := Some (evhttp_set_gencb api (snd (evhttp_bind_socket api h ip port)))\<rparr>"
    using ret by (auto simp: HttpServer_listen_def split: if_splits option.splits prod.splits)
  have "evhttp_route api (evhttp_set_gencb api (snd (evhttp_bind_socket api h ip port))) p = Generic" for p
    using laws h by simp
  then show ?thesis using none s1 by (simp add: routes_ok_def smap_find_def)
qed

section \<open>Properties\<close>

text \<open>Serving a path after a successful \<open>listen\<close>.\<close>

lemma serve_last_handler:
  fixes s1 :: "('h, 'b, 'w) http_server"
  assumes "evhttp_laws api" and "\<And>h p a. fst (evhttp_set_cb api h p a) \<noteq> - 2"
    and "HttpServer_listen api ip port (reg_all api early HttpServer_new) = (True, s1)"
  shows "HttpServer_serve api bapi req (reg_all api regs s1) w =
     (case map_of (rev regs) (rq_path req) of
        None \<Rightarrow> Inr (HttpServer_genericCallback (HttpRequest_new bapi req), w)
      | Some handler \<Rightarrow> HttpServer_mainCallback bapi handler req w)"
proof -
  have "reg_all api early HttpServer_new = (HttpServer_new :: ('h, 'b, 'w) http_server)"
    by (rule reg_all_ignored) (simp add: HttpServer_new_def)
  then have s1: "routes_ok api s1" "h_http s1 \<noteq> None" "h_handlers s1 = Map.empty"
    using listen_ok [OF assms(1,3)] by (simp_all add: HttpServer_new_def)
  let ?s = "reg_all api regs s1"
  have "routes_ok api ?s" by (rule reg_all_ok [OF assms(1,2) s1(1)])
  moreover obtain h where "h_http ?s = Some h" "h_handlers ?s = map_of (rev regs)"
    using reg_all_listening [OF s1(2), of api regs] s1(3) by auto
  ultimately show ?thesis
    by (auto simp: HttpServer_serve_def routes_ok_def smap_find_def split: option.split)
qed

text \<open>C24: Handlers registered before \<open>listen\<close> are dropped without a word. After a successful
  \<open>listen\<close> a request is answered by the handler registered last for exactly its path - also
  when the path was registered twice, although \<open>evhttp_set_cb\<close> then fails, because its
  argument still points to the entry that was overwritten - and with 404 when there is none.\<close>
theorem http_last_handler_answers:
  fixes s1 :: "('h, 'b, 'w) http_server"
  assumes "evhttp_laws api" and "\<And>h p a. fst (evhttp_set_cb api h p a) \<noteq> - 2"
    and "HttpServer_listen api ip port (reg_all api early HttpServer_new) = (True, s1)"
  shows "HttpServer_serve api bapi req (reg_all api regs s1) w =
     (case map_of (rev regs) (rq_path req) of
        None \<Rightarrow> Inr (HttpServer_genericCallback (HttpRequest_new bapi req), w)
      | Some handler \<Rightarrow> HttpServer_mainCallback bapi handler req w)"
  using serve_last_handler [OF assms] .

lemma http_last_handler_answers_witness:
  "\<exists>s1 :: (string \<Rightarrow> route, byte list, unit) http_server.
     HttpServer_listen map_http ''ip'' 80
       (reg_all map_http [(''/'', None)] HttpServer_new) = (True, s1)
   \<and> HttpServer_serve map_http list_api \<lparr>rq_uri = ''/b'', rq_path = ''/b'', rq_host = None, rq_port = 80,
        rq_command = 1, rq_input_headers = (\<lambda>k. None)\<rparr>
       (reg_all map_http [(''/a'', None), (''/a'', ops_handler list_api [])] s1) ()
     = Inr (\<lparr>hr_req = \<lparr>rq_uri = ''/b'', rq_path = ''/b'', rq_host = None, rq_port = 80,
        rq_command = 1, rq_input_headers = (\<lambda>k. None)\<rparr>, hr_buffer = [],
        hr_calls = [ReplyStart 404 ''not found'', ReplyEnd]\<rparr>, ())"
proof -
  have mem: "\<And>h p a. fst (evhttp_set_cb map_http h p a) \<noteq> - 2"
    by (auto simp: map_http_def split: route.splits)
  obtain s1 :: "(string \<Rightarrow> route, byte list, unit) http_server" where s1:
    "HttpServer_listen map_http ''ip'' 80 (reg_all map_http [(''/'', None)] HttpServer_new) = (True, s1)"
    by (simp add: reg_all_ignored HttpServer_new_def HttpServer_listen_def map_http_def)
  have new: "evbuffer_new list_api = []" by (simp add: list_api_def)
  show ?thesis
    using s1
    by (intro exI [of _ s1]) (simp add: http_last_handler_answers [OF map_http_laws mem s1]
        HttpServer_genericCallback_def HttpRequest_new_def http_do_def new HTTP_NOTFOUND_def)
qed

lemma before_start_append:
  "chunk_before_start (cs @ ds) =
     (if list_ex is_start cs then chunk_before_start cs
      else list_ex is_reply_chunk cs \<or> chunk_before_start ds)"
proof (cases "list_ex is_start cs")
  case True
  then obtain x where "x \<in> set cs" "is_start x" by (auto simp: list_ex_iff)
  then show ?thesis using True by (simp add: chunk_before_start_def takeWhile_append1)
next
  case False
  then have "takeWhile (Not \<circ> is_start) (cs @ ds) = cs @ takeWhile (Not \<circ> is_start) ds"
    by (simp add: list_ex_iff takeWhile_append2)
  then show ?thesis using False by (simp add: chunk_before_start_def)
qed

lemma strncmp_prefix: "strncmp_equal a v (length a) \<longleftrightarrow> (\<exists>rest. v = a @ rest)"
  by (metis append_take_drop_id order_refl strncmp_equal_def take_all append_eq_conv_conj)

text \<open>The reply of a handler that works through the public methods.\<close>

lemma main_callback_reply:
  assumes laws: "evbuffer_laws api bytes" and add: "\<And>b d. fst (evbuffer_add api b d) \<noteq> - 1"
    and plain: "\<forall>x\<in>set ops. percent \<notin> set (op_content x)"
    and bound: "length (concat (map op_content ops)) < 2 ^ 32"
  shows "\<exists>r. HttpServer_mainCallback api (ops_handler api ops) req w = Inr (r, w)
     \<and> hr_calls r = reply_calls [] ops
         @ (if \<exists>rest. rq_input_headers req ''Connection'' = Some (''keep-alive'' @ rest)
            then [AddHeader ''Connection'' ''keep-alive''] else [])
         @ [ReplyStart 200 ''OK'', ReplyChunk (reply_rest [] ops), ReplyEnd]"
proof -
  let ?r = "HttpRequest_new api req"
  have new: "bytes (hr_buffer ?r) = []" "hr_calls ?r = []" "hr_req ?r = req"
    by (simp_all add: HttpRequest_new_def evbuffer_lawsD [OF laws])
  have "length (bytes (hr_buffer ?r)) + length (concat (map op_content ops)) < 2 ^ 32"
    using bound new by simp
  from request_run_calls [OF laws add plain this] obtain r1 where
    run: "request_run api ops ?r = Inr r1" and r1: "hr_req r1 = req" "hr_calls r1 = reply_calls [] ops"
    and rest: "bytes (hr_buffer r1) = reply_rest [] ops"
    using new by auto
  let ?conn = "if \<exists>rest. rq_input_headers req ''Connection'' = Some (''keep-alive'' @ rest)
    then [AddHeader ''Connection'' ''keep-alive''] else []"
  let ?r2 = "r1\<lparr>hr_calls := reply_calls [] ops @ ?conn\<rparr>"
  let ?r3 = "http_do (ReplyStart HTTP_OK ''OK'') ?r2"
  have keep: "(case HttpRequest_findHeaders r1 CONNECTION_KEY of
                 None \<Rightarrow> r1
               | Some v \<Rightarrow>
                   if strncmp_equal CONNECTION_VALUE v (length CONNECTION_VALUE)
                   then http_do (AddHeader CONNECTION_KEY CONNECTION_VALUE) r1 else r1) = ?r2"
    unfolding strncmp_prefix using r1
    by (auto simp: HttpRequest_findHeaders_def CONNECTION_KEY_def CONNECTION_VALUE_def http_do_def
        split: option.splits)
  have short: "length (bytes (hr_buffer ?r3)) < 2 ^ 32"
    using arg_cong [OF reply_calls_facts(1) [of "[]" ops], of length] bound rest by (simp add: http_do_def)
  have main: "HttpServer_mainCallback api (ops_handler api ops) req w =
      Inr (http_do ReplyEnd (send_reply_chunk api ?r3), w)"
    using run by (simp add: HttpServer_mainCallback_def ops_handler_def keep Let_def)
  have "hr_calls (http_do ReplyEnd (send_reply_chunk api ?r3)) =
      reply_calls [] ops @ ?conn @ [ReplyStart 200 ''OK'', ReplyChunk (reply_rest [] ops), ReplyEnd]"
    using send_reply_chunk_all(3) [OF laws short] rest by (simp add: http_do_def HTTP_OK_def)
  with main show ?thesis by blast
qed

text \<open>Such a reply is started once and ended once.\<close>

lemma reply_facts:
  fixes conn :: "http_call list"
  assumes "conn = [] \<or> conn = [AddHeader k v]"
  shows "reply_bytes (reply_calls [] ops @ conn @ [ReplyStart c s, ReplyChunk (reply_rest [] ops), ReplyEnd]) =
      concat (map op_content ops)"
    and "length (filter is_start (reply_calls [] ops @ conn @ [ReplyStart c s, ReplyChunk d, ReplyEnd])) = 1"
    and "length (filter is_end (reply_calls [] ops @ conn @ [ReplyStart c s, ReplyChunk d, ReplyEnd])) = 1"
    and "chunk_before_start (reply_calls [] ops @ conn @ [ReplyStart c s, ReplyChunk d, ReplyEnd]) \<longleftrightarrow>
      list_ex is_chunk ops"
proof -
  note facts = reply_calls_facts [of "[]" ops]
  have none: "filter is_start (reply_calls [] ops) = []" "filter is_end (reply_calls [] ops) = []"
    using facts(2,3) by (simp_all add: filter_empty_conv list_ex_iff)
  show "reply_bytes (reply_calls [] ops @ conn @ [ReplyStart c s, ReplyChunk (reply_rest [] ops), ReplyEnd]) =
      concat (map op_content ops)"
    using facts(1) assms by auto
  show "length (filter is_start (reply_calls [] ops @ conn @ [ReplyStart c s, ReplyChunk d, ReplyEnd])) = 1"
    "length (filter is_end (reply_calls [] ops @ conn @ [ReplyStart c s, ReplyChunk d, ReplyEnd])) = 1"
    using none assms by auto
  show "chunk_before_start (reply_calls [] ops @ conn @ [ReplyStart c s, ReplyChunk d, ReplyEnd]) \<longleftrightarrow>
      list_ex is_chunk ops"
  proof -
    have "\<not> chunk_before_start (conn @ [ReplyStart c s, ReplyChunk d, ReplyEnd])"
      using assms by (auto simp: chunk_before_start_def)
    with facts(2,4) before_start_append [of "reply_calls [] ops"] show ?thesis by simp
  qed
qed

text \<open>C25: For a handler that works through the public methods, with contents free of percent
  signs and together shorter than 4 GiB, the calls of \<open>evhttp\<close> are exactly these: those of the
  handler (\<open>reply_calls\<close>: a header is removed and added, a chunk sends all that was set before
  it), \<open>Connection: keep-alive\<close> for exactly the header values that begin with these characters
  (\<open>keep-alivexyz\<close> counts, \<open>Keep-Alive\<close> does not), one start, the rest of the body, one end. So
  the body bytes are the contents, all of them and in order, and the reply is started once and
  ended once, last. But a handler that uses \<open>setChunk\<close>, and only such a handler, sends body
  bytes before the reply was started.\<close>
theorem http_reply:
  assumes laws: "evbuffer_laws api bytes" and add: "\<And>b d. fst (evbuffer_add api b d) \<noteq> - 1"
    and plain: "\<forall>x\<in>set ops. percent \<notin> set (op_content x)"
    and bound: "length (concat (map op_content ops)) < 2 ^ 32"
  shows "\<exists>r. HttpServer_mainCallback api (ops_handler api ops) req w = Inr (r, w)
     \<and> hr_calls r = reply_calls [] ops
         @ (if \<exists>rest. rq_input_headers req ''Connection'' = Some (''keep-alive'' @ rest)
            then [AddHeader ''Connection'' ''keep-alive''] else [])
         @ [ReplyStart 200 ''OK'', ReplyChunk (reply_rest [] ops), ReplyEnd]
     \<and> reply_bytes (hr_calls r) = concat (map op_content ops)
     \<and> length (filter is_start (hr_calls r)) = 1 \<and> length (filter is_end (hr_calls r)) = 1
     \<and> (chunk_before_start (hr_calls r) \<longleftrightarrow> list_ex is_chunk ops)"
proof -
  let ?conn = "if \<exists>rest. rq_input_headers req ''Connection'' = Some (''keep-alive'' @ rest)
    then [AddHeader ''Connection'' ''keep-alive''] else []"
  have "?conn = [] \<or> ?conn = [AddHeader ''Connection'' ''keep-alive'']" by simp
  note facts = reply_facts [OF this, of ops]
  obtain r where r: "HttpServer_mainCallback api (ops_handler api ops) req w = Inr (r, w)"
    "hr_calls r = reply_calls [] ops @ ?conn @ [ReplyStart 200 ''OK'', ReplyChunk (reply_rest [] ops), ReplyEnd]"
    using main_callback_reply [OF assms, of req w] by (elim exE conjE) (rule that)
  show ?thesis
  proof (intro exI [of _ r] conjI)
    show "reply_bytes (hr_calls r) = concat (map op_content ops)" unfolding r(2) by (rule facts)
    show "length (filter is_start (hr_calls r)) = 1" unfolding r(2) by (rule facts)
    show "length (filter is_end (hr_calls r)) = 1" unfolding r(2) by (rule facts)
    show "chunk_before_start (hr_calls r) \<longleftrightarrow> list_ex is_chunk ops" unfolding r(2) by (rule facts)
  qed (fact r)+
qed

lemma http_reply_witness:
  "\<exists>r. HttpServer_mainCallback list_api
        (ops_handler list_api [OpBody [64], OpChunk [65], OpHeader ''A'' ''b'', OpBody [66]])
        \<lparr>rq_uri = ''/b'', rq_path = ''/b'', rq_host = None, rq_port = 80,
          rq_command = 1, rq_input_headers = (\<lambda>k. Some ''keep-alivexyz'')\<rparr> () = Inr (r, ())
     \<and> hr_calls r = [ReplyChunk [64, 65], RemoveHeader ''A'', AddHeader ''A'' ''b'',
          AddHeader ''Connection'' ''keep-alive'', ReplyStart 200 ''OK'', ReplyChunk [66], ReplyEnd]
     \<and> reply_bytes (hr_calls r) = [64, 65, 66] \<and> chunk_before_start (hr_calls r)"
  using http_reply [OF list_api_laws, of "[OpBody [64], OpChunk [65], OpHeader ''A'' ''b'', OpBody [66]]"
      "\<lparr>rq_uri = ''/b'', rq_path = ''/b'', rq_host = None, rq_port = 80,
        rq_command = 1, rq_input_headers = (\<lambda>k. Some ''keep-alivexyz'')\<rparr>" "()"]
  by (simp add: percent_def) (auto simp: list_api_def)

text \<open>\<open>setBody\<close> appends exactly the content if and only if the content has no percent sign,
  because \<open>evbuffer_add_printf\<close> reads it as a format string: a doubled percent sign comes out
  once, and any other conversion reads arguments that were not passed.\<close>
theorem http_body_exact:
  assumes laws: "evbuffer_laws api bytes" and add: "\<And>b d. fst (evbuffer_add api b d) \<noteq> - 1"
  shows "(\<exists>r1. HttpRequest_setBody api content r = Inr (True, r1)
           \<and> bytes (hr_buffer r1) = bytes (hr_buffer r) @ content)
     \<longleftrightarrow> percent \<notin> set content"
proof -
  have "HttpRequest_setBody api content r =
      (case printf_noargs content of
         None \<Rightarrow> Inl UndefinedFormat
       | Some d \<Rightarrow> Inr (True, r\<lparr>hr_buffer := snd (evbuffer_add api (hr_buffer r) d)\<rparr>))"
    by (simp add: HttpRequest_setBody_def evbuffer_add_printf_def case_prod_beta split: option.split)
  then show ?thesis
    by (auto simp: evbuffer_lawsD(9) [OF laws add] printf_exact [symmetric] split: option.splits)
qed

lemma http_body_exact_witness:
  "(\<exists>r1. HttpRequest_setBody list_api [49, 48, 48, 37, 37]
       \<lparr>hr_req = \<lparr>rq_uri = ''/b'', rq_path = ''/b'', rq_host = None, rq_port = 80,
          rq_command = 1, rq_input_headers = (\<lambda>k. None)\<rparr>, hr_buffer = [], hr_calls = []\<rparr> = Inr (True, r1)
      \<and> hr_buffer r1 = [49, 48, 48, 37, 37])
   \<longleftrightarrow> False"
  using http_body_exact [OF list_api_laws, of "[49, 48, 48, 37, 37]"
      "\<lparr>hr_req = \<lparr>rq_uri = ''/b'', rq_path = ''/b'', rq_host = None, rq_port = 80,
          rq_command = 1, rq_input_headers = (\<lambda>k. None)\<rparr>, hr_buffer = [], hr_calls = []\<rparr>"]
  by (simp add: percent_def list_api_def)

end
