(* ===== verification/HttpExamples.thy ===== *)
theory HttpExamples
  imports Http
begin

text \<open>
  The example of an HTTP server (example/httpExample.cpp): the pages of \<open>ExampleHttpServer\<close>, and
  the program that serves them, from the construction of the server to its end.
\<close>

section \<open>The pages of the HTTP example\<close>

definition ascii :: "string \<Rightarrow> byte list" where
  "ascii s = map (\<lambda>c. of_nat (of_char c)) s"

definition ExampleHttpServer_doMainRequest ::
    "'b evbuffer_api \<Rightarrow> 'b http_request \<Rightarrow> http_error + bool \<times> 'b http_request" where
  "ExampleHttpServer_doMainRequest api = HttpRequest_setBody api (ascii ''main page'')"

definition ExampleHttpServer_doTestRequest ::
    "'b evbuffer_api \<Rightarrow> 'b http_request \<Rightarrow> http_error + bool \<times> 'b http_request" where
  "ExampleHttpServer_doTestRequest api = HttpRequest_setBody api (ascii ''test page'')"

text \<open>The two handlers, whose result is dropped, and their registration.\<close>

definition page_handler ::
    "('b http_request \<Rightarrow> http_error + bool \<times> 'b http_request) \<Rightarrow> ('b, 'w) http_handler" where
  "page_handler f = Some (\<lambda>r w. map_sum id (\<lambda>x. (snd x, w)) (f r))"

definition ExampleHttpServer_reg ::
    "'h evhttp_api \<Rightarrow> 'b evbuffer_api \<Rightarrow> ('h, 'b, 'w) http_server \<Rightarrow> ('h, 'b, 'w) http_server" where
  "ExampleHttpServer_reg api bapi s =
     (let s1 = HttpServer_regHandler api ''/'' (page_handler (ExampleHttpServer_doMainRequest bapi)) s
      in HttpServer_regHandler api ''/test'' (page_handler (ExampleHttpServer_doTestRequest bapi)) s1)"

lemma page_is_ops: "page_handler (HttpRequest_setBody api c) = ops_handler api [OpBody c]"
  by (auto simp: page_handler_def ops_handler_def fun_eq_iff split: sum.split prod.split)

text \<open>The pages are served: the replies to the two paths carry the two texts, and only they.\<close>

lemma example_pages:
  assumes laws: "evhttp_laws api" "\<And>h p a. fst (evhttp_set_cb api h p a) \<noteq> - 2"
    and buf: "evbuffer_laws bapi bytes" "\<And>b d. fst (evbuffer_add bapi b d) \<noteq> - 1"
    and ls: "HttpServer_listen api ip port HttpServer_new = (True, s1)"
    and page: "(rq_path req, text) \<in> {(''/'', ascii ''main page''), (''/test'', ascii ''test page'')}"
  shows "\<exists>r. HttpServer_serve api bapi req (ExampleHttpServer_reg api bapi s1) w = Inr (r, w)
    \<and> reply_bytes (hr_calls r) = text"
proof -
  let ?regs = "[(''/'', ops_handler bapi [OpBody (ascii ''main page'')]),
    (''/test'', ops_handler bapi [OpBody (ascii ''test page'')])]"
  have "ExampleHttpServer_reg api bapi s1 = reg_all api ?regs s1"
    by (simp add: ExampleHttpServer_reg_def reg_all_def page_is_ops [symmetric]
        ExampleHttpServer_doMainRequest_def [abs_def] ExampleHttpServer_doTestRequest_def [abs_def])
  moreover have "HttpServer_listen api ip port (reg_all api [] HttpServer_new) = (True, s1)"
    using ls by (simp add: reg_all_def)
  ultimately have "HttpServer_serve api bapi req (ExampleHttpServer_reg api bapi s1) w =
      HttpServer_mainCallback bapi (ops_handler bapi [OpBody text]) req w"
    using serve_last_handler [OF laws, of ip port "[]" s1 bapi req ?regs w] page by auto
  moreover have "percent \<notin> set text" "length text < 2 ^ 32"
    using page by (auto simp: ascii_def percent_def)
  ultimately show ?thesis
    using main_callback_reply [OF buf, of "[OpBody text]" req w]
    by (auto split: if_splits)
qed

section \<open>The program\<close>

text \<open>
  \<open>httpExample()\<close>, by thread \<open>t\<close>, with the server at \<open>a\<close> and the event base \<open>base\<close>. A server that
  listens has events in the base (\<open>arm\<close>), which its destructor takes out again. The other threads
  run \<open>before\<close> the call of \<open>wait\<close>, \<open>during\<close> a join, \<open>between\<close> the two destructors, and \<open>racing\<close>
  with the test of the status in \<open>~Loop\<close>. The result
  has what was printed; an exception of the constructor ends the program.
\<close>

definition httpExample ::
    "'h evhttp_api \<Rightarrow> 'b evbuffer_api \<Rightarrow> 'l event_base_api \<Rightarrow> ('l \<Rightarrow> 'l) \<Rightarrow> ('l \<Rightarrow> 'l)
      \<Rightarrow> ('l loops \<Rightarrow> 'l loops) \<Rightarrow> ('l loops \<Rightarrow> 'l loops) \<Rightarrow> ('l loops \<Rightarrow> 'l loops)
      \<Rightarrow> ('l loops \<Rightarrow> 'l loops) \<Rightarrow> tid \<Rightarrow> addr \<Rightarrow> 'l option \<Rightarrow> 'l loops \<Rightarrow> (loop_error + string list \<times> 'l loops) option" where
  "httpExample api bapi lapi arm remove before during between racing t a base w =
     (case Loop_new a base w of
        (Some err, w1) \<Rightarrow> Some (Inl err)
      | (None, w1) \<Rightarrow>
          (let (listening, s) = HttpServer_listen api ''127.0.0.1'' 4567
                 (HttpServer_new :: ('h, 'b, unit) http_server);
               w2 = (if listening then change_base arm a w1 else w1);
               s1 = ExampleHttpServer_reg api bapi s
           in case Loop_start Loop_hooks True t a w2 of
                Inl err \<Rightarrow> Some (Inl err)
              | Inr (started, w3) \<Rightarrow>
                  (case Loop_wait during a (before w3) of
                     None \<Rightarrow> None
                   | Some (Inl err) \<Rightarrow> Some (Inl err)
                   | Some (Inr w4) \<Rightarrow>
                       map_option (map_sum id (Pair ((if listening then [] else [''listen failed''])
                           @ (if started then [] else [''start failed'']))))
                         (HttpServer_destroy lapi Loop_hooks remove between racing during a s1 w4))))"

text \<open>Up to the call of \<open>wait\<close>: the loop has been started in a thread, with the events of the server.\<close>

lemma example_started:
  fixes api :: "'h evhttp_api" and bapi :: "'b evbuffer_api"
  assumes ls: "HttpServer_listen api ''127.0.0.1'' 4567 (HttpServer_new :: ('h, 'b, unit) http_server) =
      (listening, s)"
  obtains w3 l where "\<And>before during. httpExample api bapi lapi arm remove before during between racing t a (Some b) w =
      (case Loop_wait during a (before w3) of
         None \<Rightarrow> None
       | Some (Inl err) \<Rightarrow> Some (Inl err)
       | Some (Inr w4) \<Rightarrow> map_option (map_sum id (Pair (if listening then [] else [''listen failed''])))
           (HttpServer_destroy lapi Loop_hooks remove between racing during a (ExampleHttpServer_reg api bapi s) w4))"
    and "objs w3 a = Some l" "l_base l = Some (if listening then arm b else b)"
    and "l_thread l = Some (next_tid w)" "l_status l = StatusInit"
    and "calls w3 (next_tid w) = [(a, SetRunning)]" "next_tid w \<in> joinable w3"
proof -
  define l where "l = \<lparr>l_id = sIdGenerater w + 1, l_base = Some (if listening then arm b else b),
    l_thread = Some (next_tid w), l_status = StatusInit\<rparr>"
  define w3 where "w3 = w\<lparr>sIdGenerater := sIdGenerater w + 1,
    sLoops := smap_assign (sIdGenerater w + 1) a (sLoops w), next_tid := next_tid w + 1,
    calls := (calls w)(next_tid w := [(a, SetRunning)]), joinable := insert (next_tid w) (joinable w),
    objs := (objs w)(a \<mapsto> l)\<rparr>"
  show thesis
  proof (rule that [of w3 l])
    fix before during
    show "httpExample api bapi lapi arm remove before during between racing t a (Some b) w =
      (case Loop_wait during a (before w3) of
         None \<Rightarrow> None
       | Some (Inl err) \<Rightarrow> Some (Inl err)
       | Some (Inr w4) \<Rightarrow> map_option (map_sum id (Pair (if listening then [] else [''listen failed''])))
           (HttpServer_destroy lapi Loop_hooks remove between racing during a (ExampleHttpServer_reg api bapi s) w4))"
      by (simp add: httpExample_def Loop_new_def ls Loop_start_def Loop_hooks_def change_base_def
          set_loop_def map_base_def w3_def l_def Let_def cong: option.case_cong sum.case_cong)
  qed (simp_all add: w3_def l_def)
qed

lemma listen_failed:
  assumes "\<not> fst (HttpServer_listen api ip port (HttpServer_new :: ('h, 'b, 'w) http_server))"
  shows "HttpServer_listen api ip port HttpServer_new = (False, HttpServer_new :: ('h, 'b, 'w) http_server)"
  using assms
  by (auto simp: HttpServer_listen_def HttpServer_new_def split: option.splits prod.splits if_splits)

lemma not_listening: "h_http HttpServer_new = None"
  by (simp add: HttpServer_new_def)

lemma reg_not_listening: "ExampleHttpServer_reg api bapi HttpServer_new = HttpServer_new"
  by (simp add: ExampleHttpServer_reg_def HttpServer_regHandler_def HttpServer_new_def Let_def)

text \<open>The thread of a loop without events runs through \<open>_run\<close>.\<close>

lemma empty_loop_runs_through:
  assumes "calls w t = [(a, SetRunning)]" and "objs w a = Some l" and "l_base l = Some b"
    and "event_base_loop_returns lapi (event_base_loop_enter lapi b)"
  shows "Loop_run_steps lapi Loop_hooks t 8 w = w\<lparr>calls := (calls w)(t := []),
      curThreadLoop := (curThreadLoop w)(t := None), objs := (objs w)(a \<mapsto>
        l\<lparr>l_base := Some (event_base_loop_enter lapi b), l_status := StatusFinished\<rparr>)\<rparr>"
  using assms
  by (simp add: eval_nat_numeral Loop_run_step_def set_loop_def map_base_def Loop_hooks_def Let_def)

lemma idle_steps: "calls w t = [] \<Longrightarrow> Loop_run_steps api hk t n w = w"
  by (cases n) (simp_all add: Loop_run_step_def)

section \<open>Properties\<close>

text \<open>C26: When the port is taken, the example prints so, registers its pages in vain and starts the
  loop all the same, which has no events and ends at once. What follows is a race: when the
  thread has ended before \<open>wait\<close> is called, nobody joins it and the destructor of the server
  ends the program; otherwise the example returns.\<close>
theorem http_example_port_taken:
  fixes api :: "'h evhttp_api" and bapi :: "'b evbuffer_api"
  assumes "\<not> fst (HttpServer_listen api ''127.0.0.1'' 4567 (HttpServer_new :: ('h, 'b, unit) http_server))"
    and "event_base_loop_returns lapi (event_base_loop_enter lapi b)"
  shows "let steps = Loop_run_steps lapi Loop_hooks (next_tid w);
      example = (\<lambda>before during. httpExample api bapi lapi arm remove before during (steps j) (steps k) t a (Some b) w)
    in example (steps 8) id = Some (Inl Terminate)
      \<and> (\<exists>w1. example id (steps 8) = Some (Inr ([''listen failed''], w1)) \<and> objs w1 a = None)"
proof -
  let ?t = "next_tid w"
  let ?steps = "Loop_run_steps lapi Loop_hooks ?t"
  obtain w3 l where start: "\<And>before during. httpExample api bapi lapi arm remove before during (?steps j) (?steps k)
        t a (Some b) w =
      (case Loop_wait during a (before w3) of
         None \<Rightarrow> None
       | Some (Inl err) \<Rightarrow> Some (Inl err)
       | Some (Inr w4) \<Rightarrow> map_option (map_sum id (Pair [''listen failed'']))
           (Loop_destroy lapi Loop_hooks (?steps k) during a (?steps j w4)))"
    and w3: "objs w3 a = Some l" "l_base l = Some b" "l_thread l = Some ?t" "l_status l = StatusInit"
      "calls w3 ?t = [(a, SetRunning)]" "?t \<in> joinable w3"
    by (rule example_started [OF listen_failed [OF assms(1)], of bapi lapi arm remove "?steps j" "?steps k" t a b w])
      (rule that, simp_all add: reg_not_listening not_listening HttpServer_destroy_def
        cong: option.case_cong sum.case_cong)
  define w4 where "w4 = ?steps 8 w3"
  have w4: "objs w4 a = Some (l\<lparr>l_base := Some (event_base_loop_enter lapi b), l_status := StatusFinished\<rparr>)"
    "calls w4 ?t = []" "?t \<in> joinable w4"
    using empty_loop_runs_through [OF w3(5,1,2) assms(2)] w3(6) by (simp_all add: w4_def)
  let ?w5 = "w4\<lparr>joinable := joinable w4 - {?t}\<rparr>"
  have idle: "?steps n w4 = w4" "?steps n ?w5 = ?w5" for n using w4(2) by (simp_all add: idle_steps)
  have late: "Loop_wait id a w4 = Some (Inr w4)"
    "Loop_destroy lapi Loop_hooks (?steps k) id a w4 = Some (Inl Terminate)"
    using w4 w3(3) by (simp_all add: Loop_wait_def Loop_destroy_def Loop_stop_def Loop_destroy_end_def idle)
  have "Loop_wait (?steps 8) a w3 = Some (Inr ?w5)"
    using w4(2,3) w3 by (simp add: Loop_wait_def Loop_join_def statuses flip: w4_def)
  moreover obtain w6 where "Loop_destroy lapi Loop_hooks (?steps k) (?steps 8) a ?w5 = Some (Inr w6)"
    "objs w6 a = None"
    using w4 w3(3) by (simp add: Loop_wait_def Loop_destroy_def Loop_stop_def Loop_destroy_end_def
        Loop_unregister_def idle)
  ultimately show ?thesis
    using late by (simp add: start Let_def idle flip: w4_def)
qed

theorem http_example_port_taken_witness:
  "httpExample (map_http\<lparr>evhttp_bind_socket := (\<lambda>h ip port. (- 1, h))\<rparr>) list_api flag_api id id
      (Loop_run_steps flag_api Loop_hooks 1 8) id (Loop_run_steps flag_api Loop_hooks 1 2)
      (Loop_run_steps flag_api Loop_hooks 1 2) 0 7 (Some (busy_base\<lparr>fb_events := 0\<rparr>)) loops_init
    = Some (Inl Terminate)"
proof -
  let ?api = "map_http\<lparr>evhttp_bind_socket := (\<lambda>h ip port. (- 1, h))\<rparr>"
  let ?b = "busy_base\<lparr>fb_events := 0\<rparr>"
  have "\<not> fst (HttpServer_listen ?api ''127.0.0.1'' 4567
      (HttpServer_new :: (string \<Rightarrow> route, byte list, unit) http_server))"
    by (simp add: HttpServer_listen_def map_http_def HttpServer_new_def)
  moreover have "event_base_loop_returns flag_api (event_base_loop_enter flag_api ?b)"
    by (simp add: flag_api_def)
  ultimately show ?thesis
    using http_example_port_taken [where lapi = flag_api and b = ?b and w = "loops_init :: flag_base loops"
        and api = ?api and bapi = list_api and arm = id and remove = id and j = 2 and k = 2 and t = 0 and a = 7]
    by (simp add: Let_def loops_init_def)
qed

text \<open>A thread does not get past an event loop that has events.\<close>

definition not_past ::
    "'l event_base_api \<Rightarrow> addr \<Rightarrow> tid \<Rightarrow> 'l \<Rightarrow> 'l loops \<Rightarrow> bool" where
  "not_past lapi a t c w \<longleftrightarrow> t \<in> joinable w \<and> (\<exists>pc l. calls w t = [(a, pc)] \<and> objs w a = Some l
     \<and> (pc \<in> {SetRunning, SetCur, BeforeLoop, EnterLoop} \<and> l_base l = Some c
        \<or> pc = InLoop \<and> l_base l = Some (event_base_loop_enter lapi c)))"

lemma stays_in_loop:
  assumes "\<not> event_base_loop_returns lapi (event_base_loop_enter lapi c)"
  shows "not_past lapi a t c w \<Longrightarrow> not_past lapi a t c (Loop_run_steps lapi Loop_hooks t n w)"
proof (induction n arbitrary: w)
  case 0
  then show ?case by simp
next
  case (Suc n)
  have "not_past lapi a t c w1" if "Loop_run_step lapi Loop_hooks t w = Some (Inr w1)" for w1
    using Suc.prems that assms
    by (auto simp: not_past_def Loop_run_step_def set_loop_def map_base_def Loop_hooks_def Let_def)
  with Suc show ?case by (simp split: option.split sum.split)
qed

text \<open>When it listens, the example serves: \<open>wait\<close> does not return while the loop has its events.\<close>

lemma http_example_serves:
  fixes api :: "'h evhttp_api" and bapi :: "'b evbuffer_api"
  assumes "fst (HttpServer_listen api ''127.0.0.1'' 4567 (HttpServer_new :: ('h, 'b, unit) http_server))"
    and "\<not> event_base_loop_returns lapi (event_base_loop_enter lapi (arm b))"
  shows "httpExample api bapi lapi arm remove id (Loop_run_steps lapi Loop_hooks (next_tid w) n) between racing t a
    (Some b) w = None"
proof -
  let ?t = "next_tid w"
  obtain s where ls: "HttpServer_listen api ''127.0.0.1'' 4567 (HttpServer_new :: ('h, 'b, unit) http_server) =
      (True, s)" using assms(1) by (metis prod.collapse)
  obtain w3 l where start: "\<And>before during. httpExample api bapi lapi arm remove before during between racing t a (Some b) w =
      (case Loop_wait during a (before w3) of
         None \<Rightarrow> None
       | Some (Inl err) \<Rightarrow> Some (Inl err)
       | Some (Inr w4) \<Rightarrow> map_option (map_sum id (Pair []))
           (HttpServer_destroy lapi Loop_hooks remove between racing during a (ExampleHttpServer_reg api bapi s) w4))"
    and w3: "objs w3 a = Some l" "l_base l = Some (arm b)" "l_thread l = Some ?t" "l_status l = StatusInit"
      "calls w3 ?t = [(a, SetRunning)]" "?t \<in> joinable w3"
    by (rule example_started [OF ls, of bapi lapi arm remove between racing t a b w])
      (rule that, simp_all cong: option.case_cong sum.case_cong)
  have "not_past lapi a ?t (arm b) w3" using w3 by (simp add: not_past_def)
  from stays_in_loop [OF assms(2) this, of n]
  have "Loop_wait (Loop_run_steps lapi Loop_hooks ?t n) a w3 = None"
    using w3 by (auto simp: not_past_def Loop_wait_def Loop_join_def statuses)
  then show ?thesis by (simp add: start)
qed

end
