(* ===== verification/EventFd.thy ===== *)
theory EventFd
  imports Prelude
begin

text \<open>
  Wake-ups through an \<open>eventfd\<close>: \<open>EventFdServer\<close> (include/translib/eventServer.h), the reading
  end in an event loop, and \<open>EventFdClient\<close> (include/translib/eventClient.h), which writes to it.
\<close>

section \<open>The server\<close>

datatype efd_error = EventNewError | EventAddError

text \<open>
  The events that libevent has allocated are named by their addresses; \<open>es_base\<close> is the address of
  the loop whose event base was passed, and \<open>es_callback\<close> the callback.
\<close>

record 'cb eventfd_server =
  es_eventFd :: int
  es_one :: u64
  es_base :: nat
  es_callback :: 'cb
  es_event :: "ptr option"

text \<open>
  \<open>ev\<close> is what \<open>event_new\<close> returns, \<open>add_ok\<close> whether \<open>event_add\<close> succeeds. With the outcome:
  the allocated events after it. An exception thrown by a constructor leaves no object, so no
  destructor runs.
\<close>

definition EventFdServer_new ::
    "ptr option \<Rightarrow> bool \<Rightarrow> nat \<Rightarrow> int \<Rightarrow> 'cb \<Rightarrow> ptr set
      \<Rightarrow> (efd_error + 'cb eventfd_server) \<times> ptr set" where
  "EventFdServer_new ev add_ok base efd cb heap =
     (case ev of
        None \<Rightarrow> (Inl EventNewError, heap)
      | Some e \<Rightarrow>
          if add_ok
          then (Inr \<lparr>es_eventFd = efd, es_one = 1, es_base = base, es_callback = cb, es_event = Some e\<rparr>,
            insert e heap)
          else (Inl EventAddError, insert e heap))"

definition EventFdServer_destroy ::
    "'cb eventfd_server \<Rightarrow> ptr set \<Rightarrow> 'cb eventfd_server \<times> ptr set" where
  "EventFdServer_destroy s heap =
     (case es_event s of
        None \<Rightarrow> (s, heap)
      | Some e \<Rightarrow> (s\<lparr>es_event := None\<rparr>, heap - {e}))"

definition EventFdServer_init :: "'cb eventfd_server \<Rightarrow> bool" where
  "EventFdServer_init s = True"

text \<open>The conversion to \<open>event_base *\<close>.\<close>

definition EventFdServer_base :: "'cb eventfd_server \<Rightarrow> nat" where
  "EventFdServer_base s = es_base s"

section \<open>The client\<close>

record eventfd_client =
  ec_eventFd :: int
  ec_one :: u64

definition EventFdClient_new :: "int \<Rightarrow> eventfd_client" where
  "EventFdClient_new efd = \<lparr>ec_eventFd = efd, ec_one = 1\<rparr>"

text \<open>
  \<open>write_fd\<close> is the system call on a file descriptor, with the 8 bytes of the value as the
  number they hold: the number of bytes written, or \<open>-1\<close>.
\<close>

definition EventFdClient_send ::
    "(int \<Rightarrow> u64 \<Rightarrow> 'k \<Rightarrow> int \<times> 'k) \<Rightarrow> eventfd_client \<Rightarrow> 'k \<Rightarrow> bool \<times> 'k" where
  "EventFdClient_send write_fd c k =
     (let (ret, k1) = write_fd (ec_eventFd c) (ec_one c) k in (ret = 8, k1))"

section \<open>The reading end\<close>

text \<open>
  The callback of the example (\<open>onEVFDRead\<close>, example/eventFdExample.cpp), with \<open>read_fd\<close> for the
  system call: the value it prints, or nothing when the read fails.
\<close>

definition onEVFDRead ::
    "(int \<Rightarrow> 'k \<Rightarrow> int \<times> u64 \<times> 'k) \<Rightarrow> int \<Rightarrow> 'k \<Rightarrow> u64 option \<times> 'k" where
  "onEVFDRead read_fd fd k =
     (let (ret, one, k1) = read_fd fd k in if ret \<noteq> 8 then (None, k1) else (Some one, k1))"

text \<open>
  eventfd(2), of a non-blocking descriptor with the counter \<open>count k\<close>: a write adds its value
  to the counter, or fails without effect when the sum would exceed \<open>2^64 - 2\<close>; a read takes the
  whole counter, or fails without effect when it is 0.
\<close>

definition eventfd_laws ::
    "(int \<Rightarrow> u64 \<Rightarrow> 'k \<Rightarrow> int \<times> 'k) \<Rightarrow> (int \<Rightarrow> 'k \<Rightarrow> int \<times> u64 \<times> 'k) \<Rightarrow> int \<Rightarrow> ('k \<Rightarrow> nat) \<Rightarrow> bool" where
  "eventfd_laws write_fd read_fd efd count \<longleftrightarrow>
     (\<forall>v k. v \<noteq> - 1 \<longrightarrow>
        (if count k + unat v \<le> 2 ^ 64 - 2
         then fst (write_fd efd v k) = 8 \<and> count (snd (write_fd efd v k)) = count k + unat v
         else fst (write_fd efd v k) = - 1 \<and> count (snd (write_fd efd v k)) = count k))
   \<and> (\<forall>k. count (snd (snd (read_fd efd k))) = 0
        \<and> (if count k = 0 then fst (read_fd efd k) = - 1
           else fst (read_fd efd k) = 8 \<and> unat (fst (snd (read_fd efd k))) = count k))"

text \<open>A counter that is a number, of which the laws hold.\<close>

definition count_write :: "int \<Rightarrow> u64 \<Rightarrow> u64 \<Rightarrow> int \<times> u64" where
  "count_write fd v n = (if unat n + unat v \<le> 2 ^ 64 - 2 then (8, n + v) else (- 1, n))"

definition count_read :: "int \<Rightarrow> u64 \<Rightarrow> int \<times> u64 \<times> u64" where
  "count_read fd n = (if n = 0 then (- 1, 0, 0) else (8, n, 0))"

lemma count_laws: "eventfd_laws count_write count_read efd unat"
  by (auto simp: eventfd_laws_def count_write_def count_read_def unat_eq_0 unat_plus_simple [symmetric]
      no_olen_add_nat)

section \<open>Wake-ups\<close>

text \<open>
  A client of the descriptor sends, or the loop calls the server's callback with the descriptor; with the results of
  the sends, what the callback printed, and the kernel's state in the end.
\<close>

datatype fd_use = Send eventfd_client | Wake

fun fd_run ::
    "(int \<Rightarrow> u64 \<Rightarrow> 'k \<Rightarrow> int \<times> 'k) \<Rightarrow> (int \<Rightarrow> 'k \<Rightarrow> u64 option \<times> 'k) eventfd_server
      \<Rightarrow> fd_use list \<Rightarrow> 'k \<Rightarrow> bool list \<times> u64 option list \<times> 'k" where
  "fd_run write_fd s [] k = ([], [], k)"
| "fd_run write_fd s (Send c # us) k =
     (let (r, k1) = EventFdClient_send write_fd c k; (rs, vs, k2) = fd_run write_fd s us k1
      in (r # rs, vs, k2))"
| "fd_run write_fd s (Wake # us) k =
     (let (v, k1) = es_callback s (es_eventFd s) k; (rs, vs, k2) = fd_run write_fd s us k1
      in (rs, v # vs, k2))"

definition values_read :: "u64 option list \<Rightarrow> nat" where
  "values_read vs = sum_list (map (case_option 0 unat) vs)"

lemma values_read_simps [simp]:
  "values_read [] = 0" "values_read (None # vs) = values_read vs" "values_read (Some v # vs) = unat v + values_read vs"
  by (simp_all add: values_read_def)

lemma minus_one_64: "(1 :: u64) \<noteq> - 1"
  by simp

lemma send_result:
  assumes "eventfd_laws write_fd read_fd efd count"
  shows "EventFdClient_send write_fd (EventFdClient_new efd) k =
     (count k < 2 ^ 64 - 2, snd (write_fd efd 1 k))"
    and "count (snd (write_fd efd 1 k)) = (if count k < 2 ^ 64 - 2 then count k + 1 else count k)"
  using assms [unfolded eventfd_laws_def, THEN conjunct1, rule_format, OF minus_one_64, of k]
  by (auto simp: EventFdClient_send_def EventFdClient_new_def case_prod_beta split: if_splits)

lemma wake_result:
  assumes "eventfd_laws write_fd read_fd efd count"
  shows "case onEVFDRead read_fd efd k of (v, k1) \<Rightarrow>
    count k1 = 0 \<and> count k = (case v of None \<Rightarrow> 0 | Some n \<Rightarrow> unat n) \<and> (v = None \<longleftrightarrow> count k = 0)"
  using assms [unfolded eventfd_laws_def, THEN conjunct2, rule_format, of k]
  by (auto simp: onEVFDRead_def case_prod_beta split: if_splits)

section \<open>Properties\<close>

text \<open>C33: No wake-up is lost or counted twice, in whatever order the clients of a descriptor send
  and the loop calls the server: the values the callback has printed and what is left in the
  counter are the initial counter and one for each send that returned true. While these do not
  reach \<open>2^64 - 2\<close>, every send returns true.\<close>
theorem eventfd_counts_sends:
  assumes "eventfd_laws write_fd read_fd efd count" and "es_eventFd s = efd"
    and "es_callback s = onEVFDRead read_fd" and "\<forall>c. Send c \<in> set us \<longrightarrow> c = EventFdClient_new efd"
    and "fd_run write_fd s us k = (sent, vs, k1)"
  shows "values_read vs + count k1 = count k + length (filter id sent)
    \<and> (count k + length sent \<le> 2 ^ 64 - 2 \<longrightarrow> list_all id sent)"
  using assms(4,5)
proof (induction us arbitrary: k sent vs)
  case Nil
  then show ?case by simp
next
  case (Cons u us)
  show ?case
  proof (cases u)
    case (Send c)
    note send = send_result [OF assms(1), of k]
    have c: "c = EventFdClient_new efd" using Cons.prems(1) Send by simp
    obtain rs where run: "fd_run write_fd s us (snd (write_fd efd 1 k)) = (rs, vs, k1)"
      and sent: "sent = (count k < 2 ^ 64 - 2) # rs"
      using Cons.prems(2) Send by (auto simp: c send(1) split: prod.splits)
    have "count k + length sent \<le> 2 ^ 64 - 2 \<Longrightarrow> count k < 2 ^ 64 - 2" using sent by simp
    then show ?thesis using Cons.IH [OF _ run] Cons.prems(1) send(2) by (auto simp: sent)
  next
    case Wake
    obtain v k0 where wake: "onEVFDRead read_fd efd k = (v, k0)" by fastforce
    obtain ws where run: "fd_run write_fd s us k0 = (sent, ws, k1)" and vs: "vs = v # ws"
      using Cons.prems(2) Wake wake assms(2,3) by (auto split: prod.splits)
    have "count k0 = 0" "count k = (case v of None \<Rightarrow> 0 | Some n \<Rightarrow> unat n)"
      using wake_result [OF assms(1), of k] by (simp_all add: wake)
    then show ?thesis using Cons.IH [OF _ run] Cons.prems(1) by (cases v) (auto simp: vs)
  qed
qed

lemma eventfd_counts_sends_witness:
  "\<exists>vs k1. fd_run count_write
        \<lparr>es_eventFd = 5, es_one = 1, es_base = 7, es_callback = onEVFDRead count_read, es_event = Some 9\<rparr>
        [Send (EventFdClient_new 5), Send (EventFdClient_new 5), Wake, Wake, Send (EventFdClient_new 5)] 0 =
      ([True, True, True], vs, k1) \<and> vs = [Some 2, None] \<and> values_read vs + unat k1 = 3"
proof -
  let ?s = "\<lparr>es_eventFd = 5, es_one = 1, es_base = 7, es_callback = onEVFDRead count_read, es_event = Some 9\<rparr>"
  let ?c = "EventFdClient_new 5"
  have run: "fd_run count_write ?s [Send ?c, Send ?c, Wake, Wake, Send ?c] 0 =
      ([True, True, True], [Some 2, None], 1)"
    by (simp add: EventFdClient_send_def EventFdClient_new_def onEVFDRead_def count_write_def count_read_def)
  have "values_read [Some 2, None] + unat (1 :: u64) = unat (0 :: u64) + length (filter id [True, True, True])"
    using eventfd_counts_sends [OF count_laws _ _ _ run] by simp
  with run show ?thesis by simp
qed

text \<open>
  A constructor that returns has allocated one event, which the destructor frees; when
  \<open>event_add\<close> fails it throws and the event stays allocated: the destructor, which a comment asks
  the caller to run, does not exist for an object whose constructor threw.
\<close>

lemma eventfd_server_frees:
  "EventFdServer_new (Some e) True base efd cb heap = (Inr s, heap1) \<Longrightarrow> e \<notin> heap \<Longrightarrow>
    snd (EventFdServer_destroy s heap1) = heap"
  by (auto simp: EventFdServer_new_def EventFdServer_destroy_def)

lemma eventfd_server_leaks:
  "EventFdServer_new (Some e) False base efd cb heap = (Inl EventAddError, insert e heap)"
  by (simp add: EventFdServer_new_def)

end
