(* ===== verification/EventFdExamples.thy ===== *)
theory EventFdExamples
  imports EventFd ManagedTimers
begin

text \<open>
  The example of wake-ups (example/eventFdExample.cpp): a timer of the timer manager sends through
  a client, and the server's callback prints what it reads.
\<close>

text \<open>The lambda of the timer, and the audit of the manager, which plays no part.\<close>

datatype eventfd_lambda = SendOne | AuditAll

definition eventFdExample_code ::
    "(int \<Rightarrow> u64 \<Rightarrow> 'k \<Rightarrow> int \<times> 'k) \<Rightarrow> eventfd_client \<Rightarrow> (eventfd_lambda, 'k) user_code" where
  "eventFdExample_code write_fd c =
     \<lparr>call_user = (\<lambda>u t k. case u of SendOne \<Rightarrow> (t, snd (EventFdClient_send write_fd c k)) | AuditAll \<Rightarrow> (t, k)),
      call_cb = (\<lambda>c p n t k. (0, t, k))\<rparr>"

text \<open>
  \<open>eventFdExample()\<close>, with the loop at \<open>loop_at\<close>, the descriptor \<open>efd\<close> of the kernel state \<open>k\<close>, the server's event \<open>ev\<close>
  (added without an error), and the timer at \<open>a\<close>, whose only pointer is a temporary. The timeouts
  \<open>es\<close> of the timer come first, then \<open>n\<close> calls of the callback. The event of the server persists, so
  the loop does not return to the code that closes the descriptor.
\<close>

definition eventFdExample ::
    "(int \<Rightarrow> u64 \<Rightarrow> 'k \<Rightarrow> int \<times> 'k) \<Rightarrow> (int \<Rightarrow> 'k \<Rightarrow> int \<times> u64 \<times> 'k) \<Rightarrow> addr \<Rightarrow> int \<Rightarrow> ptr option \<Rightarrow> event_env
      \<Rightarrow> addr \<Rightarrow> event_env list \<Rightarrow> nat \<Rightarrow> 'k \<Rightarrow> u64 option list option" where
  "eventFdExample write_fd read_fd loop_at efd ev e a es n k =
     (case EventFdServer_new ev True loop_at efd (onEVFDRead read_fd) {} of
        (Inl err, events) \<Rightarrow> None
      | (Inr server, events) \<Rightarrow>
          (let client = EventFdClient_new efd;
               (i, m, h) = TimerManager_getTimer a (TimerManager_members e AuditAll) (\<lambda>a. None)
           in case heap_call (Timer_startOnce e 1 (UserHandler SendOne)) a h of
                None \<Rightarrow> None
              | Some (r, h1) \<Rightarrow>
                  (case heap_timeouts (eventFdExample_code write_fd client) es a (shared_drop a h1) k of
                     Inl err \<Rightarrow> None
                   | Inr (h2, k1) \<Rightarrow>
                       Some (fst (snd (fd_run write_fd server (replicate n Wake) k1))))))"

lemma wakes_of_empty:
  assumes "eventfd_laws write_fd read_fd (es_eventFd s) count" and "count k = 0"
    and "es_callback s = onEVFDRead read_fd"
  shows "fst (snd (fd_run write_fd s (replicate n Wake) k)) = replicate n None"
  using assms(2)
proof (induction n arbitrary: k)
  case 0
  then show ?case by simp
next
  case (Suc n)
  obtain v k1 where wake: "onEVFDRead read_fd (es_eventFd s) k = (v, k1)" by fastforce
  then have "v = None" "count k1 = 0" using wake_result [OF assms(1), of k] Suc.prems by simp_all
  with Suc.IH [of k1] wake assms(3) show ?case by (simp add: case_prod_beta)
qed

text \<open>In the example the timer sends once, whatever timeouts follow, and so the callback prints 1
  the first time it is called and finds nothing afterwards.\<close>
theorem eventfd_example_prints_one:
  assumes "eventfd_laws write_fd read_fd efd count" and "count k = 0"
    and "event_new_ok e" and "event_add_ok e" and "es \<noteq> []"
  shows "eventFdExample write_fd read_fd loop_at efd (Some ev) e a es (Suc n) k = Some (Some 1 # replicate n None)"
proof -
  let ?s = "\<lparr>es_eventFd = efd, es_one = 1, es_base = loop_at, es_callback = onEVFDRead read_fd,
      es_event = Some ev\<rparr>"
  let ?code = "eventFdExample_code write_fd (EventFdClient_new efd)"
  let ?g = "\<lambda>k. snd (EventFdClient_send write_fd (EventFdClient_new efd) k)"
  obtain t where start: "Timer_startRounds e 1 1 (UserHandler SendOne) Timer_new = (True, t)"
    using assms(3,4) by (simp add: Timer_startRounds_def Timer_new_def)
  note st = started_armed [OF start]
  have "call_handler ?code e (UserHandler SendOne) t k = Inr (t, ?g k)" for e t k
    by (simp add: eventFdExample_code_def)
  from run_counts [OF this st(1,2), of es k] assms(5)
  have run: "Timer_run ?code es t k = Inr (run_out t, ?g k)" by (cases es) (simp_all add: st(5))
  have sent: "count (?g k) = 1" using send_result [OF assms(1), of k] assms(2) by simp
  obtain v k1 where wake: "onEVFDRead read_fd efd (?g k) = (v, k1)" by fastforce
  then obtain u where u: "v = Some u" "unat u = 1" "count k1 = 0"
    using wake_result [OF assms(1), of "?g k"] sent by (cases v) auto
  then have one: "u = 1" by (metis unat_1 word_unat_eq_iff)
  have "eventfd_laws write_fd read_fd (es_eventFd ?s) count" using assms(1) by simp
  note rest = wakes_of_empty [OF this u(3), of n, simplified]
  show ?thesis
    using start run wake rest
    by (simp add: eventFdExample_def EventFdServer_new_def TimerManager_getTimer_def
        TimerManager_getUniqueID_def TimerManager_members_def heap_call_def heap_timeouts_def
        shared_new_def shared_copy_def shared_drop_def Timer_startOnce_def u(1) one case_prod_beta Let_def
        del: Timer_run.simps)
qed

theorem eventfd_example_prints_one_witness:
  "eventFdExample count_write count_read 7 5 (Some 9) good_env 100 [good_env, good_env] 3 0 = Some [Some 1, None, None]"
proof -
  have "event_new_ok good_env" "event_add_ok good_env" "[good_env, good_env] \<noteq> []" "unat (0 :: u64) = 0"
    by (simp_all add: good_env_def)
  from eventfd_example_prints_one [OF count_laws this(4) this(1-3), of 7 5 9 100 2]
  show ?thesis by (simp add: numeral_2_eq_2 numeral_3_eq_3)
qed

end
