(* ===== verification/Examples.thy ===== *)
theory Examples
  imports ChainExample TimerExamples TcpExamples HttpExamples EventFdExamples
begin

text \<open>
  The main program of the examples (example/test.cpp): which of them the command line runs. The
  examples themselves are in the theories this one imports.
\<close>

datatype example = TimerExample | TcpExample | HttpExample | TimerManagerExample | EventFdExample

definition example_handlers :: "string \<rightharpoonup> example" where
  "example_handlers =
     smap_assign ''evfd'' EventFdExample
       (smap_assign ''TM'' TimerManagerExample
         (smap_assign ''http'' HttpExample
           (smap_assign ''tcp'' TcpExample (smap_assign ''timer'' TimerExample Map.empty))))"

text \<open>
  \<open>handlers[cmd]\<close> makes an empty handler for an unknown name; then \<open>invalid handler\<close> is printed
  (\<open>None\<close>).
\<close>

definition example_main :: "string list \<Rightarrow> example option" where
  "example_main argv =
     (let cmd = (if length argv > 1 then argv ! 1 else ''TM'') in smap_find example_handlers cmd)"

lemma example_main_chooses:
  "example_main [prog] = Some TimerManagerExample"
  "example_main (prog # cmd # rest) =
     (if cmd = ''timer'' then Some TimerExample else if cmd = ''tcp'' then Some TcpExample
      else if cmd = ''http'' then Some HttpExample else if cmd = ''TM'' then Some TimerManagerExample
      else if cmd = ''evfd'' then Some EventFdExample else None)"
  by (simp_all add: example_main_def example_handlers_def smap_find_def smap_assign_def)

end
