(* ===== verification/TestHarness.thy ===== *)
theory TestHarness
  imports Shared "HOL-Library.Multiset"
begin

text \<open>
  The harness of the tests (test/include: testUtil.hpp, testCases.hpp, testSuit.hpp, testProject.hpp)
  and the end of the test program (test/example.cpp): cases are added to suites and suites to a
  project; a suite runs its cases grouped by their prepare function; the program counts the results.

  The function pointers of a case are names of the types \<open>'p\<close>, \<open>'b\<close> and \<open>'d\<close>, a null pointer is
  \<open>None\<close>; \<open>test_functions\<close> says what they do to the rest of the program.
\<close>

section \<open>Cases and results\<close>

datatype case_result = CASE_SUCCESS | CASE_RUNNING | CASE_STUB | CASE_FAIL

datatype test_error = NullFunction | UnsetArgument | BodyHangs | SignedOverflow

record ('p, 'b, 'd, 's) test_functions =
  call_prepare :: "'p \<Rightarrow> 's \<Rightarrow> ptr \<times> 's"
  call_body :: "'b \<Rightarrow> ptr \<Rightarrow> 's \<Rightarrow> (case_result \<times> 's) option"
  call_destroy :: "'d \<Rightarrow> ptr \<Rightarrow> 's \<Rightarrow> 's"

text \<open>The constructor leaves \<open>arg\<close> without a value.\<close>

record ('p, 'b, 'd) test_case =
  tc_prepare_env :: "'p option"
  tc_body :: "'b option"
  tc_destroy_env :: "'d option"
  tc_arg :: "ptr option"
  tc_case_name :: string
  tc_case_info :: string

definition TestCase_new ::
    "'p option \<Rightarrow> 'b option \<Rightarrow> 'd option \<Rightarrow> string \<Rightarrow> string \<Rightarrow> ('p, 'b, 'd) test_case" where
  "TestCase_new p b d name info =
     \<lparr>tc_prepare_env = p, tc_body = b, tc_destroy_env = d, tc_arg = None, tc_case_name = name,
      tc_case_info = info\<rparr>"

definition TestCase_prepare_env ::
    "('p, 'b, 'd, 's) test_functions \<Rightarrow> ('p, 'b, 'd) test_case \<Rightarrow> 's \<Rightarrow> ('p, 'b, 'd) test_case \<times> 's" where
  "TestCase_prepare_env fs c s =
     (case tc_prepare_env c of
        None \<Rightarrow> (c, s)
      | Some p \<Rightarrow> (let (a, s1) = call_prepare fs p s in (c\<lparr>tc_arg := Some a\<rparr>, s1)))"

definition TestCase_run_body ::
    "('p, 'b, 'd, 's) test_functions \<Rightarrow> ('p, 'b, 'd) test_case \<Rightarrow> 's \<Rightarrow> test_error + case_result \<times> 's" where
  "TestCase_run_body fs c s =
     (case tc_body c of
        None \<Rightarrow> Inr (CASE_FAIL, s)
      | Some b \<Rightarrow>
          (case tc_arg c of
             None \<Rightarrow> Inl UnsetArgument
           | Some a \<Rightarrow> (case call_body fs b a s of None \<Rightarrow> Inl BodyHangs | Some r \<Rightarrow> Inr r)))"

definition TestCase_destroy_env ::
    "('p, 'b, 'd, 's) test_functions \<Rightarrow> ('p, 'b, 'd) test_case \<Rightarrow> 's \<Rightarrow> test_error + 's" where
  "TestCase_destroy_env fs c s =
     (case tc_destroy_env c of
        None \<Rightarrow> Inr s
      | Some d \<Rightarrow> (case tc_arg c of None \<Rightarrow> Inl UnsetArgument | Some a \<Rightarrow> Inr (call_destroy fs d a s)))"

definition TestCase_run ::
    "('p, 'b, 'd, 's) test_functions \<Rightarrow> ('p, 'b, 'd) test_case \<Rightarrow> 's
      \<Rightarrow> test_error + ('p, 'b, 'd) test_case \<times> case_result \<times> 's" where
  "TestCase_run fs c s =
     (let (c1, s1) = TestCase_prepare_env fs c s in map_sum id (Pair c1) (TestCase_run_body fs c1 s1))"

text \<open>
  The program while it tests: the cases behind the shared pointers, the list of results, what was
  printed, and the rest.
\<close>

record ('p, 'b, 'd, 's) testing =
  te_cases :: "addr \<Rightarrow> ('p, 'b, 'd) test_case"
  te_results :: "(string \<times> case_result) list"
  te_out :: "string list"
  te_state :: 's

definition REC_RESULT :: "case_result \<Rightarrow> string \<Rightarrow> ('p, 'b, 'd, 's) testing \<Rightarrow> ('p, 'b, 'd, 's) testing" where
  "REC_RESULT r name w = w\<lparr>te_results := te_results w @ [(name, r)]\<rparr>"

definition ADD_SUIT_INFO :: "string \<Rightarrow> ('p, 'b, 'd, 's) testing \<Rightarrow> ('p, 'b, 'd, 's) testing" where
  "ADD_SUIT_INFO name w = w\<lparr>te_results := te_results w @ [(name, CASE_STUB)]\<rparr>"

section \<open>Suites\<close>

text \<open>\<open>operator[]\<close> of a \<open>std::unordered_map\<close> on the left of an assignment.\<close>

definition umap_assign :: "'k \<Rightarrow> 'v \<Rightarrow> ('k \<times> 'v) list \<Rightarrow> ('k \<times> 'v) list" where
  "umap_assign k v m =
     (if k \<in> fst ` set m then map (\<lambda>e. if fst e = k then (k, v) else e) m else (k, v) # m)"

record test_suit =
  suit_name :: string
  caseID :: int
  suit_cases :: "(int \<times> addr) list"

text \<open>The constructor does not set \<open>caseID\<close>; \<open>n\<close> is what it happens to be.\<close>

definition TestSuit_new :: "int \<Rightarrow> string \<Rightarrow> test_suit" where
  "TestSuit_new n name = \<lparr>suit_name = name, caseID = n, suit_cases = []\<rparr>"

definition TestSuit_addCase :: "addr \<Rightarrow> test_suit \<Rightarrow> test_error + test_suit" where
  "TestSuit_addCase c t =
     (let t1 = t\<lparr>suit_cases := umap_assign (caseID t) c (suit_cases t)\<rparr>
      in if caseID t = 2 ^ 31 - 1 then Inl SignedOverflow else Inr (t1\<lparr>caseID := caseID t + 1\<rparr>))"

text \<open>
  \<open>run\<close>: the cases by prepare function, in the order \<open>o1\<close> in which the map of the cases is gone
  through, then the groups in the order \<open>o2\<close>.
\<close>

definition add_to_group ::
    "'p option \<Rightarrow> addr \<Rightarrow> ('p option \<times> addr list) list \<Rightarrow> ('p option \<times> addr list) list" where
  "add_to_group p c gs =
     (if p \<in> fst ` set gs then map (\<lambda>g. if fst g = p then (p, snd g @ [c]) else g) gs
      else (p, [c]) # gs)"

text \<open>The inner loop, with the variable \<open>to_destroy\<close> before and after it.\<close>

fun run_cases ::
    "('p, 'b, 'd, 's) test_functions \<Rightarrow> ptr \<Rightarrow> addr list \<Rightarrow> 'd option \<Rightarrow> ('p, 'b, 'd, 's) testing
      \<Rightarrow> test_error + 'd option \<times> ('p, 'b, 'd, 's) testing" where
  "run_cases fs a [] d w = Inr (d, w)"
| "run_cases fs a (k # ks) d w =
     (let c = (te_cases w k)\<lparr>tc_arg := Some a\<rparr>;
          w1 = w\<lparr>te_cases := (te_cases w)(k := c), te_out := te_out w @ [tc_case_info c]\<rparr>
      in case TestCase_run_body fs c (te_state w1) of
           Inl err \<Rightarrow> Inl err
         | Inr (r, s) \<Rightarrow>
             run_cases fs a ks (tc_destroy_env c) (REC_RESULT r (tc_case_name c) (w1\<lparr>te_state := s\<rparr>)))"

fun run_groups ::
    "('p, 'b, 'd, 's) test_functions \<Rightarrow> ('p option \<times> addr list) list \<Rightarrow> ('p, 'b, 'd, 's) testing
      \<Rightarrow> test_error + ('p, 'b, 'd, 's) testing" where
  "run_groups fs [] w = Inr w"
| "run_groups fs ((p, ks) # gs) w =
     (case p of
        None \<Rightarrow> Inl NullFunction
      | Some p \<Rightarrow>
          (let (a, s) = call_prepare fs p (te_state w)
           in case run_cases fs a ks None (w\<lparr>te_state := s\<rparr>) of
                Inl err \<Rightarrow> Inl err
              | Inr (d, w1) \<Rightarrow>
                  (case d of
                     None \<Rightarrow> Inl NullFunction
                   | Some d \<Rightarrow> run_groups fs gs (w1\<lparr>te_state := call_destroy fs d a (te_state w1)\<rparr>))))"

definition TestSuit_run ::
    "('p, 'b, 'd, 's) test_functions \<Rightarrow> ((int \<times> addr) list \<Rightarrow> (int \<times> addr) list)
      \<Rightarrow> (('p option \<times> addr list) list \<Rightarrow> ('p option \<times> addr list) list) \<Rightarrow> test_suit
      \<Rightarrow> ('p, 'b, 'd, 's) testing \<Rightarrow> test_error + ('p, 'b, 'd, 's) testing" where
  "TestSuit_run fs o1 o2 t w =
     run_groups fs
       (o2 (fold (\<lambda>e. add_to_group (tc_prepare_env (te_cases w (snd e))) (snd e)) (o1 (suit_cases t)) [])) w"

section \<open>Projects\<close>

text \<open>\<open>Singleton::Instance\<close> makes the project with \<open>new T()\<close>, which sets \<open>suitID\<close> to 0.\<close>

record test_project =
  suitID :: int
  project_suits :: "(int \<times> test_suit) list"

definition TestProject_new :: test_project where
  "TestProject_new = \<lparr>suitID = 0, project_suits = []\<rparr>"

definition TestProject_add_suit :: "test_suit \<Rightarrow> test_project \<Rightarrow> test_project" where
  "TestProject_add_suit t p =
     p\<lparr>project_suits := umap_assign (suitID p) t (project_suits p), suitID := suitID p + 1\<rparr>"

fun run_suits ::
    "('p, 'b, 'd, 's) test_functions \<Rightarrow> ((int \<times> addr) list \<Rightarrow> (int \<times> addr) list)
      \<Rightarrow> (('p option \<times> addr list) list \<Rightarrow> ('p option \<times> addr list) list) \<Rightarrow> (int \<times> test_suit) list
      \<Rightarrow> ('p, 'b, 'd, 's) testing \<Rightarrow> test_error + ('p, 'b, 'd, 's) testing" where
  "run_suits fs o1 o2 [] w = Inr w"
| "run_suits fs o1 o2 ((i, t) # ts) w =
     (case TestSuit_run fs o1 o2 t (ADD_SUIT_INFO (suit_name t) w) of
        Inl err \<Rightarrow> Inl err
      | Inr w1 \<Rightarrow> run_suits fs o1 o2 ts w1)"

definition TestProject_run ::
    "('p, 'b, 'd, 's) test_functions \<Rightarrow> ((int \<times> addr) list \<Rightarrow> (int \<times> addr) list)
      \<Rightarrow> (('p option \<times> addr list) list \<Rightarrow> ('p option \<times> addr list) list)
      \<Rightarrow> ((int \<times> test_suit) list \<Rightarrow> (int \<times> test_suit) list) \<Rightarrow> test_project
      \<Rightarrow> ('p, 'b, 'd, 's) testing \<Rightarrow> test_error + ('p, 'b, 'd, 's) testing" where
  "TestProject_run fs o1 o2 o3 p w = run_suits fs o1 o2 (o3 (project_suits p)) w"

section \<open>The dump of the results\<close>

datatype result_line = ShowSuit string | ShowCase string bool | ShowTotal int int int

fun dump_results :: "(string \<times> case_result) list \<Rightarrow> int \<Rightarrow> int \<Rightarrow> result_line list \<times> int \<times> int" where
  "dump_results [] pass fail = ([ShowTotal (pass + fail) pass fail], pass, fail)"
| "dump_results ((name, r) # rs) pass fail =
     (if r = CASE_SUCCESS
      then (let (ls, pf) = dump_results rs (pass + 1) fail in (ShowCase name True # ls, pf))
      else if r = CASE_STUB
      then (let (ls, pf) = dump_results rs pass fail in (ShowSuit name # ls, pf))
      else (let (ls, pf) = dump_results rs pass (fail + 1) in (ShowCase name False # ls, pf)))"

text \<open>
  The program from the instance of the project on: what it prints in the end, and the value
  \<open>main\<close> returns. (Fewer than \<open>2 ^ 31\<close> results, so the counters do not overflow.)
\<close>

definition test_program ::
    "('p, 'b, 'd, 's) test_functions \<Rightarrow> ((int \<times> addr) list \<Rightarrow> (int \<times> addr) list)
      \<Rightarrow> (('p option \<times> addr list) list \<Rightarrow> ('p option \<times> addr list) list)
      \<Rightarrow> ((int \<times> test_suit) list \<Rightarrow> (int \<times> test_suit) list) \<Rightarrow> test_suit list
      \<Rightarrow> ('p, 'b, 'd, 's) testing \<Rightarrow> test_error + result_line list \<times> int \<times> ('p, 'b, 'd, 's) testing" where
  "test_program fs o1 o2 o3 ts w =
     (case TestProject_run fs o1 o2 o3 (fold TestProject_add_suit ts TestProject_new) w of
        Inl err \<Rightarrow> Inl err
      | Inr w1 \<Rightarrow>
          (let (ls, pass, fail) = dump_results (te_results w1) 0 0 in Inr (ls, 0 - fail, w1)))"

text \<open>What the parent of the process gets to see of it.\<close>

definition exit_status :: "int \<Rightarrow> int" where
  "exit_status r = r mod 256"

section \<open>What is run\<close>

text \<open>Functions that record when they are called, for any environments and answers.\<close>

datatype ('p, 'b, 'd) test_event = Prepared 'p | Ran 'b ptr | Destroyed 'd ptr

definition recorder ::
    "('p \<Rightarrow> ptr) \<Rightarrow> ('b \<Rightarrow> ptr \<Rightarrow> case_result) \<Rightarrow> ('p, 'b, 'd, ('p, 'b, 'd) test_event list) test_functions" where
  "recorder env ans =
     \<lparr>call_prepare = (\<lambda>p s. (env p, s @ [Prepared p])), call_body = (\<lambda>b a s. Some (ans b a, s @ [Ran b a])),
      call_destroy = (\<lambda>d a s. s @ [Destroyed d a])\<rparr>"

definition outcome :: "('b \<Rightarrow> ptr \<Rightarrow> case_result) \<Rightarrow> ptr \<Rightarrow> ('p, 'b, 'd) test_case \<Rightarrow> string \<times> case_result" where
  "outcome ans a c = (tc_case_name c, case tc_body c of None \<Rightarrow> CASE_FAIL | Some b \<Rightarrow> ans b a)"

definition body_events :: "ptr \<Rightarrow> ('p, 'b, 'd) test_case \<Rightarrow> ('p, 'b, 'd) test_event list" where
  "body_events a c = (case tc_body c of None \<Rightarrow> [] | Some b \<Rightarrow> [Ran b a])"

text \<open>The calls for a group of cases, which share the prepare function \<open>p\<close>.\<close>

definition group_events ::
    "('p \<Rightarrow> ptr) \<Rightarrow> 'p \<Rightarrow> ('p, 'b, 'd) test_case list \<Rightarrow> ('p, 'b, 'd) test_event list" where
  "group_events env p cs =
     Prepared p # concat (map (body_events (env p)) cs) @ [Destroyed (the (last (map tc_destroy_env cs))) (env p)]"

definition runnable :: "('p, 'b, 'd) test_case \<Rightarrow> bool" where
  "runnable c \<longleftrightarrow> tc_prepare_env c \<noteq> None \<and> tc_destroy_env c \<noteq> None"

text \<open>Running changes only the arguments of the cases.\<close>

definition unset :: "('p, 'b, 'd) test_case \<Rightarrow> ('p, 'b, 'd) test_case" where
  "unset c = c\<lparr>tc_arg := None\<rparr>"

lemma unset_simps [simp]:
  "tc_prepare_env (unset c) = tc_prepare_env c" "tc_body (unset c) = tc_body c"
  "tc_destroy_env (unset c) = tc_destroy_env c" "tc_case_name (unset c) = tc_case_name c"
  "outcome ans a (unset c) = outcome ans a c" "body_events a (unset c) = body_events a c"
  "runnable (unset c) = runnable c"
  by (simp_all add: unset_def outcome_def body_events_def runnable_def)

lemma run_cases_recorded:
  assumes "\<forall>k. unset (te_cases w k) = C k"
  obtains w1 where "run_cases (recorder env ans) a ks d w =
      Inr (if ks = [] then d else tc_destroy_env (C (last ks)), w1)"
    "\<forall>k. unset (te_cases w1 k) = C k" "te_state w1 = te_state w @ concat (map (\<lambda>k. body_events a (C k)) ks)"
    "te_results w1 = te_results w @ map (\<lambda>k. outcome ans a (C k)) ks"
  using assms
proof (induction ks arbitrary: d w thesis)
  case Nil
  then show ?case by simp
next
  case (Cons k ks)
  let ?c = "(te_cases w k)\<lparr>tc_arg := Some a\<rparr>"
  let ?w = "w\<lparr>te_cases := (te_cases w)(k := ?c), te_out := te_out w @ [tc_case_info ?c],
      te_state := te_state w @ body_events a ?c, te_results := te_results w @ [outcome ans a ?c]\<rparr>"
  have step: "run_cases (recorder env ans) a (k # ks) d w = run_cases (recorder env ans) a ks (tc_destroy_env ?c) ?w"
    by (cases "tc_body (te_cases w k)")
      (simp_all add: TestCase_run_body_def recorder_def REC_RESULT_def outcome_def body_events_def Let_def)
  have C: "unset (te_cases w k) = C k" using Cons.prems(2) by auto
  have "\<forall>k. unset (te_cases ?w k) = C k"
    using Cons.prems(2) by (auto simp: unset_def)
  then obtain w1 where w1: "run_cases (recorder env ans) a ks (tc_destroy_env ?c) ?w =
      Inr (if ks = [] then tc_destroy_env ?c else tc_destroy_env (C (last ks)), w1)"
    "\<forall>k. unset (te_cases w1 k) = C k" "te_state w1 = te_state ?w @ concat (map (\<lambda>k. body_events a (C k)) ks)"
    "te_results w1 = te_results ?w @ map (\<lambda>k. outcome ans a (C k)) ks"
    using Cons.IH by blast
  have "tc_destroy_env ?c = tc_destroy_env (C k)" "body_events a ?c = body_events a (C k)"
    "outcome ans a ?c = outcome ans a (C k)"
    unfolding C [symmetric] by (simp_all add: unset_def body_events_def outcome_def)
  with w1 step show ?case by (intro Cons.prems(1) [of w1]) simp_all
qed

lemma run_groups_recorded:
  assumes "\<forall>k. unset (te_cases w k) = C k"
    and "\<forall>g \<in> set gs. fst g \<noteq> None \<and> snd g \<noteq> [] \<and> (\<forall>k \<in> set (snd g). runnable (C k))"
  obtains w1 where "run_groups (recorder env ans) gs w = Inr w1" "\<forall>k. unset (te_cases w1 k) = C k"
    "te_state w1 = te_state w @ concat (map (\<lambda>g. group_events env (the (fst g)) (map C (snd g))) gs)"
    "te_results w1 = te_results w @ concat (map (\<lambda>g. map (\<lambda>k. outcome ans (env (the (fst g))) (C k)) (snd g)) gs)"
  using assms
proof (induction gs arbitrary: w thesis)
  case Nil
  then show ?case by simp
next
  case (Cons g gs)
  obtain p ks where g: "g = (Some p, ks)" "ks \<noteq> []" using Cons.prems(3) by (cases g) auto
  then have "runnable (C (last ks))" using Cons.prems(3) by simp
  then obtain d where d: "tc_destroy_env (C (last ks)) = Some d" by (auto simp: runnable_def)
  let ?w = "w\<lparr>te_state := te_state w @ [Prepared p]\<rparr>"
  have "\<forall>k. unset (te_cases ?w k) = C k" using Cons.prems(2) by simp
  then obtain w1 where w1: "run_cases (recorder env ans) (env p) ks None ?w = Inr (Some d, w1)"
    "\<forall>k. unset (te_cases w1 k) = C k" "te_state w1 = te_state ?w @ concat (map (\<lambda>k. body_events (env p) (C k)) ks)"
    "te_results w1 = te_results w @ map (\<lambda>k. outcome ans (env p) (C k)) ks"
    using run_cases_recorded [of ?w C env ans "env p" ks None] g(2) d by auto
  let ?w1 = "w1\<lparr>te_state := te_state w1 @ [Destroyed d (env p)]\<rparr>"
  have "run_groups (recorder env ans) (g # gs) w = run_groups (recorder env ans) gs ?w1"
    using w1(1) by (simp add: g recorder_def)
  moreover have "\<forall>k. unset (te_cases ?w1 k) = C k" using w1(2) by simp
  then obtain w2 where "run_groups (recorder env ans) gs ?w1 = Inr w2" "\<forall>k. unset (te_cases w2 k) = C k"
    "te_state w2 = te_state ?w1 @ concat (map (\<lambda>g. group_events env (the (fst g)) (map C (snd g))) gs)"
    "te_results w2 = te_results ?w1 @ concat (map (\<lambda>g. map (\<lambda>k. outcome ans (env (the (fst g))) (C k)) (snd g)) gs)"
    using Cons.IH [of ?w1] Cons.prems(3) by auto
  ultimately show ?case
    using w1(3,4) g d by (intro Cons.prems(1) [of w2]) (simp_all add: group_events_def last_map comp_def)
qed

text \<open>The groups are the cases with the same prepare function, in order.\<close>

lemma groups_exact:
  "(\<forall>g \<in> set (fold (\<lambda>e. add_to_group (f e) (snd e)) es []). snd g = map snd (filter (\<lambda>e. f e = fst g) es))
   \<and> distinct (map fst (fold (\<lambda>e. add_to_group (f e) (snd e)) es []))
   \<and> fst ` set (fold (\<lambda>e. add_to_group (f e) (snd e)) es []) = f ` set es"
proof (induction es rule: rev_induct)
  case Nil
  then show ?case by simp
next
  case (snoc e es)
  let ?gs = "fold (\<lambda>e. add_to_group (f e) (snd e)) es []"
  have gs: "fold (\<lambda>e. add_to_group (f e) (snd e)) (es @ [e]) [] = add_to_group (f e) (snd e) ?gs" by simp
  have new: "filter (\<lambda>x. f x = f e) es = []" if "f e \<notin> f ` set es"
    using that by (simp only: filter_empty_conv) (metis image_eqI)
  have keys: "map fst (map (\<lambda>g. if fst g = f e then (f e, snd g @ [snd e]) else g) ?gs) = map fst ?gs" by auto
  show ?case
  proof (cases "f e \<in> fst ` set ?gs")
    case True
    then have add: "add_to_group (f e) (snd e) ?gs =
        map (\<lambda>g. if fst g = f e then (f e, snd g @ [snd e]) else g) ?gs" by (simp add: add_to_group_def)
    have keys: "map fst (add_to_group (f e) (snd e) ?gs) = map fst ?gs" unfolding add by (rule keys)
    have "distinct (map fst (add_to_group (f e) (snd e) ?gs))" using snoc by (simp only: keys)
    moreover have "fst ` set (add_to_group (f e) (snd e) ?gs) = f ` set (es @ [e])"
      using arg_cong [OF keys, of set] snoc True by auto
    moreover have "\<forall>g \<in> set (add_to_group (f e) (snd e) ?gs). snd g = map snd (filter (\<lambda>x. f x = fst g) (es @ [e]))"
      using snoc by (auto simp: add)
    ultimately show ?thesis unfolding gs by blast
  next
    case False
    then have add: "add_to_group (f e) (snd e) ?gs = (f e, [snd e]) # ?gs" by (simp add: add_to_group_def)
    have fresh: "f e \<notin> f ` set es" using snoc False by metis
    have "distinct (map fst (add_to_group (f e) (snd e) ?gs))"
      "fst ` set (add_to_group (f e) (snd e) ?gs) = f ` set (es @ [e])"
      unfolding add using snoc False by auto
    moreover have "snd g = map snd (filter (\<lambda>x. f x = fst g) (es @ [e]))"
      if "g \<in> set (add_to_group (f e) (snd e) ?gs)" for g
    proof (cases "g \<in> set ?gs")
      case True
      then have "fst g \<noteq> f e" using False by (metis image_eqI)
      then show ?thesis using snoc True by simp
    next
      case False
      then show ?thesis using that new [OF fresh] by (simp add: add)
    qed
    ultimately show ?thesis unfolding gs by blast
  qed
qed

text \<open>An order in which a container may be gone through.\<close>

definition reorders :: "('e list \<Rightarrow> 'e list) \<Rightarrow> bool" where
  "reorders o1 \<longleftrightarrow> (\<forall>xs. mset (o1 xs) = mset xs)"

lemma reordersD:
  assumes "reorders o1"
  shows "mset (o1 xs) = mset xs" and "set (o1 xs) = set xs" and "distinct (map f (o1 xs)) = distinct (map f xs)"
proof -
  show m: "mset (o1 xs) = mset xs" using assms by (simp add: reorders_def)
  then show "set (o1 xs) = set xs" by (rule mset_eq_setD)
  have "mset (map f (o1 xs)) = mset (map f xs)" using m by simp
  then show "distinct (map f (o1 xs)) = distinct (map f xs)" by (rule mset_eq_imp_distinct_iff)
qed

lemma suite_recorded:
  assumes "reorders o1" and "reorders o2" and "\<forall>k. unset (te_cases w k) = C k"
    and "\<forall>e \<in> set (suit_cases t). runnable (C (snd e))"
  obtains w1 ps where "TestSuit_run (recorder env ans) o1 o2 t w = Inr w1" "\<forall>k. unset (te_cases w1 k) = C k"
    "distinct ps" "Some ` set ps = (\<lambda>e. tc_prepare_env (C (snd e))) ` set (suit_cases t)"
    "te_state w1 = te_state w @ concat (map (\<lambda>p. group_events env p
       (filter (\<lambda>c. tc_prepare_env c = Some p) (map (\<lambda>e. C (snd e)) (o1 (suit_cases t))))) ps)"
    "te_results w1 = te_results w @ concat (map (\<lambda>p. map (outcome ans (env p))
       (filter (\<lambda>c. tc_prepare_env c = Some p) (map (\<lambda>e. C (snd e)) (o1 (suit_cases t))))) ps)"
proof -
  let ?f = "\<lambda>e. tc_prepare_env (C (snd e))" and ?es = "o1 (suit_cases t)"
  define gs where "gs = fold (\<lambda>e. add_to_group (?f e) (snd e)) ?es []"
  have f: "tc_prepare_env (te_cases w k) = tc_prepare_env (C k)" for k
    using assms(3) by (metis unset_simps(1))
  have groups: "g \<in> set gs \<Longrightarrow> snd g = map snd (filter (\<lambda>e. ?f e = fst g) ?es)"
    "distinct (map fst gs)" "fst ` set gs = ?f ` set ?es" for g
    using groups_exact [of ?f ?es] by (simp_all only: gs_def)
  note o2 = reordersD [OF assms(2), where xs = gs]
  have run: "\<forall>e \<in> set ?es. runnable (C (snd e))" using assms(4) reordersD(2) [OF assms(1)] by metis
  have member: "fst g \<noteq> None \<and> snd g = map snd (filter (\<lambda>e. ?f e = fst g) ?es) \<and> snd g \<noteq> []
      \<and> (\<forall>k \<in> set (snd g). runnable (C k))" if "g \<in> set (o2 gs)" for g
  proof -
    have g: "snd g = map snd (filter (\<lambda>e. ?f e = fst g) ?es)" "fst g \<in> ?f ` set ?es"
      using groups(1,3) that unfolding o2(2) by (blast, metis image_eqI)
    then obtain e where e: "e \<in> set ?es" "fst g = ?f e" by blast
    then have "runnable (C (snd e))" using run by blast
    with g(1) e run show ?thesis by (auto simp: runnable_def filter_empty_conv)
  qed
  let ?ps = "map (the \<circ> fst) (o2 gs)"
  obtain w1 where w1: "run_groups (recorder env ans) (o2 gs) w = Inr w1" "\<forall>k. unset (te_cases w1 k) = C k"
    "te_state w1 = te_state w @ concat (map (\<lambda>g. group_events env (the (fst g)) (map C (snd g))) (o2 gs))"
    "te_results w1 = te_results w @ concat (map (\<lambda>g. map (\<lambda>k. outcome ans (env (the (fst g))) (C k)) (snd g)) (o2 gs))"
    using run_groups_recorded [OF assms(3), of "o2 gs"] member by blast
  have cs: "map C (snd g) = filter (\<lambda>c. tc_prepare_env c = Some (the (fst g))) (map (\<lambda>e. C (snd e)) ?es)"
    if "g \<in> set (o2 gs)" for g
    using member [OF that] by (cases "fst g") (simp_all add: filter_map comp_def)
  have some: "map Some ?ps = map fst (o2 gs)" using member by auto
  have "distinct (map Some ?ps)" unfolding some o2(3) by (rule groups(2))
  then have ps: "distinct ?ps" by (simp only: distinct_map)
  have keys: "Some ` set ?ps = ?f ` set (suit_cases t)"
    using arg_cong [OF some, of set] groups(3) o2(2) reordersD(2) [OF assms(1)] by (simp add: image_image comp_def)
  have run: "TestSuit_run (recorder env ans) o1 o2 t w = Inr w1"
    using w1(1) by (simp add: TestSuit_run_def f gs_def)
  have events: "map (\<lambda>g. group_events env (the (fst g)) (map C (snd g))) (o2 gs) =
      map (\<lambda>p. group_events env p (filter (\<lambda>c. tc_prepare_env c = Some p) (map (\<lambda>e. C (snd e)) ?es))) ?ps"
    using cs by simp
  have "map (\<lambda>k. outcome ans (env (the (fst g))) (C k)) (snd g) = map (outcome ans (env (the (fst g))))
      (filter (\<lambda>c. tc_prepare_env c = Some (the (fst g))) (map (\<lambda>e. C (snd e)) ?es))" if "g \<in> set (o2 gs)" for g
    unfolding cs [OF that, symmetric] by simp
  then have results: "map (\<lambda>g. map (\<lambda>k. outcome ans (env (the (fst g))) (C k)) (snd g)) (o2 gs) =
      map (\<lambda>p. map (outcome ans (env p)) (filter (\<lambda>c. tc_prepare_env c = Some p) (map (\<lambda>e. C (snd e)) ?es))) ?ps"
    by simp
  show thesis
    by (rule that [OF run w1(2) ps keys w1(3) [unfolded events] w1(4) [unfolded results]])
qed

text \<open>The results of a suite are those of its cases, each once.\<close>

definition case_outcome ::
    "('p \<Rightarrow> ptr) \<Rightarrow> ('b \<Rightarrow> ptr \<Rightarrow> case_result) \<Rightarrow> ('p, 'b, 'd) test_case \<Rightarrow> string \<times> case_result" where
  "case_outcome env ans c = outcome ans (env (the (tc_prepare_env c))) c"

lemma case_outcome_unset [simp]: "case_outcome env ans (unset c) = case_outcome env ans c"
  by (simp add: case_outcome_def)

lemma mset_grouped:
  assumes "distinct ps" and "\<forall>c \<in> set cs. \<exists>p \<in> set ps. f c = Some p"
  shows "mset (concat (map (\<lambda>p. map (g p) (filter (\<lambda>c. f c = Some p) cs)) ps)) = mset (map (\<lambda>c. g (the (f c)) c) cs)"
  using assms
proof (induction ps arbitrary: cs)
  case Nil
  then show ?case by (cases cs) auto
next
  case (Cons p ps)
  let ?rest = "filter (\<lambda>c. f c \<noteq> Some p) cs"
  have others: "filter (\<lambda>c. f c = Some q) ?rest = filter (\<lambda>c. f c = Some q) cs" if "q \<in> set ps" for q
    using that Cons.prems(1) by (auto intro!: filter_cong)
  have "mset (concat (map (\<lambda>q. map (g q) (filter (\<lambda>c. f c = Some q) ?rest)) ps)) = mset (map (\<lambda>c. g (the (f c)) c) ?rest)"
    by (rule Cons.IH) (use Cons.prems in auto)
  moreover have "map (\<lambda>q. map (g q) (filter (\<lambda>c. f c = Some q) ?rest)) ps =
      map (\<lambda>q. map (g q) (filter (\<lambda>c. f c = Some q) cs)) ps"
    using others by simp
  moreover have "map (g p) (filter (\<lambda>c. f c = Some p) cs) = map (\<lambda>c. g (the (f c)) c) (filter (\<lambda>c. f c = Some p) cs)"
    by simp
  ultimately have "mset (concat (map (\<lambda>q. map (g q) (filter (\<lambda>c. f c = Some q) cs)) (p # ps))) =
      image_mset (\<lambda>c. g (the (f c)) c) (filter_mset (\<lambda>c. f c = Some p) (mset cs) + filter_mset (\<lambda>c. f c \<noteq> Some p) (mset cs))"
    by (simp only: list.map concat.simps mset_append mset_map mset_filter image_mset_union)
  then show ?case by (simp only: multiset_partition [symmetric] mset_map)
qed

lemma suite_results:
  assumes "reorders o1" and "reorders o2" and "\<forall>k. unset (te_cases w k) = C k"
    and "\<forall>e \<in> set (suit_cases t). runnable (C (snd e))"
  obtains w1 where "TestSuit_run (recorder env ans) o1 o2 t w = Inr w1" "\<forall>k. unset (te_cases w1 k) = C k"
    "mset (te_results w1) = mset (te_results w) + mset (map (\<lambda>e. case_outcome env ans (C (snd e))) (suit_cases t))"
proof -
  let ?cs = "map (\<lambda>e. C (snd e)) (o1 (suit_cases t))"
  obtain w1 ps where w1: "TestSuit_run (recorder env ans) o1 o2 t w = Inr w1" "\<forall>k. unset (te_cases w1 k) = C k"
    and ps: "distinct ps" "Some ` set ps = (\<lambda>e. tc_prepare_env (C (snd e))) ` set (suit_cases t)"
    and rs: "te_results w1 = te_results w @ concat (map (\<lambda>p. map (outcome ans (env p))
      (filter (\<lambda>c. tc_prepare_env c = Some p) ?cs)) ps)"
    by (rule suite_recorded [OF assms, where env = env and ans = ans]) blast
  have "\<forall>c \<in> set ?cs. tc_prepare_env c \<in> Some ` set ps"
    unfolding ps(2) using reordersD(2) [OF assms(1), of "suit_cases t"] by auto
  then have "\<forall>c \<in> set ?cs. \<exists>p \<in> set ps. tc_prepare_env c = Some p" by blast
  moreover have co: "case_outcome env ans = (\<lambda>c. outcome ans (env (the (tc_prepare_env c))) c)"
    by (simp add: fun_eq_iff case_outcome_def)
  ultimately have "mset (te_results w1) = mset (te_results w) + mset (map (case_outcome env ans) ?cs)"
    unfolding rs co by (simp only: mset_append mset_grouped [OF ps(1)])
  moreover have "mset (map (case_outcome env ans) ?cs) = mset (map (\<lambda>e. case_outcome env ans (C (snd e))) (suit_cases t))"
    using reordersD(1) [OF assms(1)] by (simp add: image_mset.compositionality comp_def)
  ultimately show thesis using w1 that by simp
qed

text \<open>The results of a project: those of each suite behind a line with its name.\<close>

definition suite_outcomes ::
    "('p \<Rightarrow> ptr) \<Rightarrow> ('b \<Rightarrow> ptr \<Rightarrow> case_result) \<Rightarrow> (addr \<Rightarrow> ('p, 'b, 'd) test_case) \<Rightarrow> test_suit
      \<Rightarrow> (string \<times> case_result) list" where
  "suite_outcomes env ans C t = map (\<lambda>e. case_outcome env ans (C (snd e))) (suit_cases t)"

lemma suits_results:
  assumes "reorders o1" and "reorders o2"
  shows "\<forall>k. unset (te_cases w k) = C k \<Longrightarrow> \<forall>t \<in> snd ` set ts. \<forall>e \<in> set (suit_cases t). runnable (C (snd e)) \<Longrightarrow>
    \<exists>w1. run_suits (recorder env ans) o1 o2 ts w = Inr w1 \<and> mset (te_results w1) = mset (te_results w)
      + mset (concat (map (\<lambda>t. (suit_name t, CASE_STUB) # suite_outcomes env ans C t) (map snd ts)))"
proof (induction ts arbitrary: w)
  case Nil
  then show ?case by simp
next
  case (Cons e ts)
  obtain i t where e: "e = (i, t)" by fastforce
  have "\<forall>k. unset (te_cases (ADD_SUIT_INFO (suit_name t) w) k) = C k"
    using Cons.prems(1) by (simp add: ADD_SUIT_INFO_def)
  moreover have "\<forall>e \<in> set (suit_cases t). runnable (C (snd e))" using Cons.prems(2) e by simp
  ultimately obtain w1 where w1: "TestSuit_run (recorder env ans) o1 o2 t (ADD_SUIT_INFO (suit_name t) w) = Inr w1"
    "\<forall>k. unset (te_cases w1 k) = C k"
    "mset (te_results w1) = mset (te_results (ADD_SUIT_INFO (suit_name t) w)) + mset (suite_outcomes env ans C t)"
    unfolding suite_outcomes_def by (rule suite_results [OF assms])
  then show ?case
    using Cons.IH [OF w1(2)] Cons.prems(2) by (auto simp: e ADD_SUIT_INFO_def)
qed

lemma project_suits_added:
  "\<forall>e \<in> set (project_suits p). fst e < suitID p \<Longrightarrow>
    mset (map snd (project_suits (fold TestProject_add_suit ts p))) = mset (map snd (project_suits p)) + mset ts"
proof (induction ts arbitrary: p)
  case Nil
  then show ?case by simp
next
  case (Cons t ts)
  have new: "suitID p \<notin> fst ` set (project_suits p)" using Cons.prems by auto
  have "\<forall>e \<in> set (project_suits (TestProject_add_suit t p)). fst e < suitID (TestProject_add_suit t p)"
    using Cons.prems by (auto simp: TestProject_add_suit_def umap_assign_def new)
  from Cons.IH [OF this] show ?case by (simp add: TestProject_add_suit_def umap_assign_def new)
qed

text \<open>The counters of the dump.\<close>

definition passed :: "(string \<times> case_result) list \<Rightarrow> nat" where
  "passed rs = length (filter (\<lambda>r. snd r = CASE_SUCCESS) rs)"

definition failed :: "(string \<times> case_result) list \<Rightarrow> nat" where
  "failed rs = length (filter (\<lambda>r. snd r \<noteq> CASE_SUCCESS \<and> snd r \<noteq> CASE_STUB) rs)"

lemma dump_counts:
  "dump_results rs p f = (ls, p1, f1) \<Longrightarrow>
    p1 = p + int (passed rs) \<and> f1 = f + int (failed rs) \<and> last ls = ShowTotal (p1 + f1) p1 f1 \<and> ls \<noteq> []"
proof (induction rs arbitrary: p f ls)
  case Nil
  then show ?case by (auto simp: passed_def failed_def)
next
  case (Cons e rs)
  then show ?case
    by (cases e) (fastforce simp: passed_def failed_def split: if_splits prod.splits)
qed

lemma length_filter_mset:
  assumes "mset rs = mset qs"
  shows "length (filter P rs) = length (filter P qs)"
proof -
  have "size (filter_mset P (mset rs)) = size (filter_mset P (mset qs))" using assms by simp
  then show ?thesis by (simp only: mset_filter [symmetric] size_mset)
qed

lemma group_events_unset:
  "group_events env p (filter (\<lambda>c. tc_prepare_env c = q) (map (\<lambda>e. unset (C e)) es)) =
    group_events env p (filter (\<lambda>c. tc_prepare_env c = q) (map C es))"
  by (simp add: group_events_def filter_map comp_def)

section \<open>Properties\<close>

text \<open>C35: A suite whose cases have a prepare and a destroy function calls every body once: the
  environment of each prepare function is made once, handed to the cases with this function in
  the order of the map, and then destroyed, by the destroy function of the last of them alone. The
  results are those of the cases, whatever the orders of the maps.\<close>
theorem suite_runs_cases:
  assumes "reorders o1" and "reorders o2" and "\<forall>e \<in> set (suit_cases t). runnable (te_cases w (snd e))"
  shows "\<exists>w1 ps. TestSuit_run (recorder env ans) o1 o2 t w = Inr w1
    \<and> distinct ps \<and> Some ` set ps = (\<lambda>e. tc_prepare_env (te_cases w (snd e))) ` set (suit_cases t)
    \<and> te_state w1 = te_state w @ concat (map (\<lambda>p. group_events env p
        (filter (\<lambda>c. tc_prepare_env c = Some p) (map (\<lambda>e. te_cases w (snd e)) (o1 (suit_cases t))))) ps)
    \<and> mset (te_results w1) = mset (te_results w) + mset (suite_outcomes env ans (te_cases w) t)"
proof -
  have C: "\<forall>k. unset (te_cases w k) = (\<lambda>k. unset (te_cases w k)) k" by simp
  have run: "\<forall>e \<in> set (suit_cases t). runnable (unset (te_cases w (snd e)))" using assms(3) by simp
  obtain w1 ps where w1: "TestSuit_run (recorder env ans) o1 o2 t w = Inr w1"
    "distinct ps" "Some ` set ps = (\<lambda>e. tc_prepare_env (te_cases w (snd e))) ` set (suit_cases t)"
    "te_state w1 = te_state w @ concat (map (\<lambda>p. group_events env p
        (filter (\<lambda>c. tc_prepare_env c = Some p) (map (\<lambda>e. te_cases w (snd e)) (o1 (suit_cases t))))) ps)"
    by (rule suite_recorded [OF assms(1,2) C run, where env = env and ans = ans])
      (simp only: unset_simps group_events_unset)
  moreover have "mset (te_results w1) = mset (te_results w) + mset (suite_outcomes env ans (te_cases w) t)"
    by (rule suite_results [OF assms(1,2) C run, where env = env and ans = ans])
      (simp add: w1(1) suite_outcomes_def)
  ultimately show ?thesis by blast
qed

definition sample_cases :: "addr \<Rightarrow> (nat, nat, nat) test_case" where
  "sample_cases k = TestCase_new (Some (k mod 2)) (Some k) (Some (10 + k)) ''case'' ''info''"

definition sample_suit :: test_suit where
  "sample_suit = \<lparr>suit_name = ''suit'', caseID = 3, suit_cases = [(2, 2), (1, 1), (0, 0)]\<rparr>"

lemma reorders_rev: "reorders rev"
  by (simp add: reorders_def)

definition sample_world :: "(nat, nat, nat, (nat, nat, nat) test_event list) testing" where
  "sample_world = \<lparr>te_cases = sample_cases, te_results = [], te_out = [], te_state = []\<rparr>"

lemmas sample_defs = sample_suit_def sample_cases_def sample_world_def TestCase_new_def

lemma suite_runs_cases_witness:
  "\<exists>w1 ps. TestSuit_run (recorder of_nat (\<lambda>b a. CASE_SUCCESS)) rev rev sample_suit sample_world = Inr w1
    \<and> distinct ps \<and> set ps = {0, 1 :: nat}"
proof -
  have "\<forall>e \<in> set (suit_cases sample_suit). runnable (te_cases sample_world (snd e))"
    by (simp add: sample_defs runnable_def)
  from suite_runs_cases [OF reorders_rev reorders_rev this, of of_nat "\<lambda>b a. CASE_SUCCESS"]
  obtain w1 and ps :: "nat list" where run: "TestSuit_run (recorder of_nat (\<lambda>b a. CASE_SUCCESS)) rev rev sample_suit sample_world = Inr w1"
    "distinct ps"
    and ps: "Some ` set ps = (\<lambda>e. tc_prepare_env (te_cases sample_world (snd e))) ` set (suit_cases sample_suit)"
    by blast
  have "Some ` set ps = {Some 0, Some 1}"
    unfolding ps by (simp add: sample_defs insert_commute)
  also have "\<dots> = Some ` {0, 1}" by (simp only: image_insert image_empty)
  finally have "set ps = {0, 1}" by (simp only: inj_image_eq_iff [OF inj_Some])
  with run show ?thesis by blast
qed

lemma mset_concat_cong:
  assumes "mset xs = mset ys"
  shows "mset (concat (map g xs)) = mset (concat (map g ys))"
proof -
  have "mset (concat (map g zs)) = \<Sum>\<^sub># (image_mset (\<lambda>x. mset (g x)) (mset zs))" for zs by (induction zs) simp_all
  then show ?thesis by (simp only: assms)
qed

text \<open>The test program runs every suite and reports exactly what came out: the total line has the
  number of cases that succeeded and of those that did not, and the returned value is the number
  of failed cases, negated. (A body that returns \<open>CASE_STUB\<close> counts as neither; it shows as a suite.)\<close>

lemma test_program_counts:
  assumes "reorders o1" and "reorders o2" and "reorders o3" and "te_results w = []"
    and "\<forall>t \<in> set ts. \<forall>e \<in> set (suit_cases t). runnable (te_cases w (snd e))"
    and "p = sum_list (map (\<lambda>t. passed (suite_outcomes env ans (te_cases w) t)) ts)"
    and "f = sum_list (map (\<lambda>t. failed (suite_outcomes env ans (te_cases w) t)) ts)"
  shows "\<exists>ls w1. test_program (recorder env ans) o1 o2 o3 ts w = Inr (ls, - int f, w1)
    \<and> last ls = ShowTotal (int p + int f) (int p) (int f)"
proof -
  let ?C = "\<lambda>k. unset (te_cases w k)" and ?ss = "project_suits (fold TestProject_add_suit ts TestProject_new)"
  let ?all = "\<lambda>ts. concat (map (\<lambda>t. (suit_name t, CASE_STUB) # suite_outcomes env ans (te_cases w) t) ts)"
  have ss: "mset (map snd (o3 ?ss)) = mset ts"
    using reordersD(1) [OF assms(3), of ?ss] project_suits_added [of TestProject_new ts]
    by (simp add: TestProject_new_def)
  then have "set (map snd (o3 ?ss)) = set ts" by (rule mset_eq_setD)
  then have "\<forall>t \<in> snd ` set (o3 ?ss). \<forall>e \<in> set (suit_cases t). runnable (?C (snd e))" using assms(5) by simp
  then obtain w1 where w1: "run_suits (recorder env ans) o1 o2 (o3 ?ss) w = Inr w1"
    "mset (te_results w1) = mset (te_results w) + mset (concat (map (\<lambda>t. (suit_name t, CASE_STUB)
       # suite_outcomes env ans ?C t) (map snd (o3 ?ss))))"
    using suits_results [OF assms(1,2), of w ?C "o3 ?ss" env ans] by blast
  have "suite_outcomes env ans ?C = suite_outcomes env ans (te_cases w)"
    by (simp add: fun_eq_iff suite_outcomes_def)
  then have all: "mset (te_results w1) = mset (?all (map snd (o3 ?ss)))" using w1(2) assms(4) by simp
  have "mset (?all (map snd (o3 ?ss))) = mset (?all ts)"
    by (rule mset_concat_cong [OF ss])
  with all have rs: "mset (te_results w1) = mset (?all ts)" by simp
  have "passed (te_results w1) = passed (?all ts)" "failed (te_results w1) = failed (?all ts)"
    unfolding passed_def failed_def by (rule length_filter_mset [OF rs])+
  moreover have "passed (?all ts) = p" "failed (?all ts) = f"
    unfolding assms(6,7) by (induction ts) (simp_all add: passed_def failed_def)
  ultimately have "passed (te_results w1) = p" "failed (te_results w1) = f" by simp_all
  moreover obtain ls p1 f1 where dump: "dump_results (te_results w1) 0 0 = (ls, p1, f1)" by (metis prod_cases3)
  ultimately show ?thesis
    using dump_counts [OF dump] w1(1) by (simp add: test_program_def TestProject_run_def)
qed

text \<open>
  The same for any functions that answer like this, from every state in a set that they do not
  leave: a run of theirs goes with a run of the recorder, step by step.
\<close>

definition answers ::
    "('s \<Rightarrow> bool) \<Rightarrow> ('p \<Rightarrow> ptr) \<Rightarrow> ('b \<Rightarrow> ptr \<Rightarrow> case_result) \<Rightarrow> ('p, 'b, 'd, 's) test_functions \<Rightarrow> bool" where
  "answers ok env ans fs \<longleftrightarrow>
     (\<forall>s. ok s \<longrightarrow> (\<forall>p. \<exists>s1. call_prepare fs p s = (env p, s1) \<and> ok s1)
       \<and> (\<forall>b a. \<exists>s1. call_body fs b a s = Some (ans b a, s1) \<and> ok s1) \<and> (\<forall>d a. ok (call_destroy fs d a s)))"

definition alike ::
    "('s \<Rightarrow> bool) \<Rightarrow> ('p, 'b, 'd, 's) testing \<Rightarrow> ('p, 'b, 'd, 'r) testing \<Rightarrow> bool" where
  "alike ok w v \<longleftrightarrow> te_cases w = te_cases v \<and> te_results w = te_results v \<and> te_out w = te_out v \<and> ok (te_state w)"

lemma run_cases_alike:
  "alike ok w v \<Longrightarrow> answers ok env ans fs \<Longrightarrow> run_cases (recorder env ans) a ks d v = Inr (d1, v1) \<Longrightarrow>
    \<exists>w1. run_cases fs a ks d w = Inr (d1, w1) \<and> alike ok w1 v1"
proof (induction ks arbitrary: d w v)
  case Nil
  then show ?case by simp
next
  case (Cons k ks)
  let ?c = "(te_cases w k)\<lparr>tc_arg := Some a\<rparr>"
  let ?w = "w\<lparr>te_cases := (te_cases w)(k := ?c), te_out := te_out w @ [tc_case_info ?c]\<rparr>"
  have c: "te_cases v = te_cases w" and ok: "ok (te_state w)" using Cons.prems(1) by (simp_all add: alike_def)
  obtain r s where r: "TestCase_run_body fs ?c (te_state w) = Inr (r, s)" "ok s"
    "r = snd (outcome ans a ?c)"
    using Cons.prems(2) ok
    by (cases "tc_body ?c") (simp_all add: TestCase_run_body_def outcome_def answers_def, metis option.case(2))
  obtain u where u: "TestCase_run_body (recorder env ans) ?c (te_state v) = Inr (r, u)"
    by (cases "tc_body ?c") (simp_all add: TestCase_run_body_def recorder_def outcome_def r(3))
  have "alike ok (REC_RESULT r (tc_case_name ?c) (?w\<lparr>te_state := s\<rparr>))
      (REC_RESULT r (tc_case_name ?c) (v\<lparr>te_cases := (te_cases v)(k := ?c),
        te_out := te_out v @ [tc_case_info ?c], te_state := u\<rparr>))"
    using Cons.prems(1) r(2) by (simp add: alike_def REC_RESULT_def)
  from Cons.IH [OF this Cons.prems(2)] Cons.prems(3) show ?case
    using r(1) u by (simp add: c Let_def)
qed

lemma run_groups_alike:
  "alike ok w v \<Longrightarrow> answers ok env ans fs \<Longrightarrow> run_groups (recorder env ans) gs v = Inr v1 \<Longrightarrow>
    \<exists>w1. run_groups fs gs w = Inr w1 \<and> alike ok w1 v1"
proof (induction gs arbitrary: w v)
  case Nil
  then show ?case by simp
next
  case (Cons g gs)
  obtain p ks where g: "g = (Some p, ks)" using Cons.prems(3) by (cases g) (auto split: option.splits)
  have ok: "ok (te_state w)" using Cons.prems(1) by (simp add: alike_def)
  obtain s where s: "call_prepare fs p (te_state w) = (env p, s)" "ok s"
    using Cons.prems(2) ok unfolding answers_def by metis
  let ?v = "v\<lparr>te_state := te_state v @ [Prepared p]\<rparr>"
  have a: "alike ok (w\<lparr>te_state := s\<rparr>) ?v" using Cons.prems(1) s(2) by (simp add: alike_def)
  obtain d v2 where v2: "run_cases (recorder env ans) (env p) ks None ?v = Inr (Some d, v2)"
    "run_groups (recorder env ans) gs (v2\<lparr>te_state := te_state v2 @ [Destroyed d (env p)]\<rparr>) = Inr v1"
    using Cons.prems(3) by (auto simp: g recorder_def split: sum.splits option.splits)
  obtain w2 where w2: "run_cases fs (env p) ks None (w\<lparr>te_state := s\<rparr>) = Inr (Some d, w2)" "alike ok w2 v2"
    using run_cases_alike [OF a Cons.prems(2) v2(1)] by blast
  then have "ok (te_state w2)" by (simp add: alike_def)
  then have "ok (call_destroy fs d (env p) (te_state w2))" using Cons.prems(2) unfolding answers_def by blast
  then have "alike ok (w2\<lparr>te_state := call_destroy fs d (env p) (te_state w2)\<rparr>)
      (v2\<lparr>te_state := te_state v2 @ [Destroyed d (env p)]\<rparr>)"
    using w2(2) by (simp add: alike_def)
  from Cons.IH [OF this Cons.prems(2) v2(2)] show ?case
    using s(1) w2(1) by (simp add: g)
qed

lemma run_suits_alike:
  "alike ok w v \<Longrightarrow> answers ok env ans fs \<Longrightarrow> run_suits (recorder env ans) o1 o2 ts v = Inr v1 \<Longrightarrow>
    \<exists>w1. run_suits fs o1 o2 ts w = Inr w1 \<and> alike ok w1 v1"
proof (induction ts arbitrary: w v)
  case Nil
  then show ?case by simp
next
  case (Cons e ts)
  obtain i t where e: "e = (i, t)" by (cases e)
  obtain v2 where v2: "TestSuit_run (recorder env ans) o1 o2 t (ADD_SUIT_INFO (suit_name t) v) = Inr v2"
    "run_suits (recorder env ans) o1 o2 ts v2 = Inr v1"
    using Cons.prems(3) by (auto simp: e split: sum.splits)
  have a: "alike ok (ADD_SUIT_INFO (suit_name t) w) (ADD_SUIT_INFO (suit_name t) v)" and c: "te_cases w = te_cases v"
    using Cons.prems(1) by (simp_all add: alike_def ADD_SUIT_INFO_def)
  obtain w2 where "TestSuit_run fs o1 o2 t (ADD_SUIT_INFO (suit_name t) w) = Inr w2" "alike ok w2 v2"
    using run_groups_alike [OF a Cons.prems(2)] v2(1) c by (auto simp: TestSuit_run_def ADD_SUIT_INFO_def)
  then show ?case using Cons.IH [OF _ Cons.prems(2) v2(2)] by (simp add: e)
qed

lemma test_program_answers:
  assumes "answers ok env ans fs" and "ok (te_state w)" and "te_results w = []"
    and "reorders o1" and "reorders o2" and "reorders o3"
    and "\<forall>t \<in> set ts. \<forall>e \<in> set (suit_cases t). runnable (te_cases w (snd e))"
    and "p = sum_list (map (\<lambda>t. passed (suite_outcomes env ans (te_cases w) t)) ts)"
    and "f = sum_list (map (\<lambda>t. failed (suite_outcomes env ans (te_cases w) t)) ts)"
  obtains ls w1 where "test_program fs o1 o2 o3 ts w = Inr (ls, - int f, w1)" "ok (te_state w1)"
    "last ls = ShowTotal (int p + int f) (int p) (int f)"
proof -
  let ?v = "\<lparr>te_cases = te_cases w, te_results = te_results w, te_out = te_out w, te_state = []\<rparr>"
  have a: "alike ok w ?v" using assms(2) by (simp add: alike_def)
  have v: "te_results ?v = []" "\<forall>t \<in> set ts. \<forall>e \<in> set (suit_cases t). runnable (te_cases ?v (snd e))"
    "p = sum_list (map (\<lambda>t. passed (suite_outcomes env ans (te_cases ?v) t)) ts)"
    "f = sum_list (map (\<lambda>t. failed (suite_outcomes env ans (te_cases ?v) t)) ts)"
    using assms(3,7-9) by simp_all
  obtain ls v1 where v1: "test_program (recorder env ans) o1 o2 o3 ts ?v = Inr (ls, - int f, v1)"
    "last ls = ShowTotal (int p + int f) (int p) (int f)"
    using test_program_counts [OF assms(4-6) v] by blast
  let ?ss = "o3 (project_suits (fold TestProject_add_suit ts TestProject_new))"
  have run: "run_suits (recorder env ans) o1 o2 ?ss ?v = Inr v1" "dump_results (te_results v1) 0 0 = (ls, snd (dump_results (te_results v1) 0 0))"
    "0 - snd (snd (dump_results (te_results v1) 0 0)) = - int f"
    using v1(1) by (auto simp: test_program_def TestProject_run_def split: sum.splits prod.splits)
  obtain w1 where w1: "run_suits fs o1 o2 ?ss w = Inr w1" "alike ok w1 v1"
    using run_suits_alike [OF a assms(1) run(1)] by blast
  then have "test_program fs o1 o2 o3 ts w = Inr (ls, - int f, w1)"
    using run(2,3) by (auto simp: test_program_def TestProject_run_def alike_def split: prod.split)
  moreover have "ok (te_state w1)" using w1(2) by (simp add: alike_def)
  ultimately show thesis using v1(2) by (rule that)
qed

text \<open>
  The status of the process is the remainder by 256: a program with 256 failed cases, or any
  multiple, looks like one without.
\<close>

lemma exit_status_hides: "exit_status (- int f) = 0 \<longleftrightarrow> 256 dvd f"
  using int_dvd_int_iff [of 256 f] by (simp add: exit_status_def mod_eq_0_iff_dvd)

end
