(* ===== verification/WakeupTests.thy ===== *)
theory WakeupTests
  imports EventFdExamples TestHarness
begin

text \<open>
  The tests of the wake-ups (test/eventFdTest/testBody/testCasesBody.hpp): a timer of the manager
  sends through a client, and the body waits for a promise that the callback of the server is to
  set. The timeouts of the timer and the calls of the callback come in any order.
\<close>

section \<open>The callbacks\<close>

datatype wakeup_fault = PromiseAlreadySatisfied | ServerFault efd_error | TimerFault | DanglingTimer
  | LoopFault loop_error

text \<open>
  The kernel, the atomic \<open>fd_count\<close>, the promise of the test that runs (each has one of its own),
  and the static \<open>flag\<close> of the third callback.
\<close>

record 'k wakeup_test =
  wt_kernel :: 'k
  fd_count :: u32
  case_result_promise :: "bool option"
  seen_queue :: bool

definition FD_TIMES :: "'l::len word" where
  "FD_TIMES = 100"

definition FD_INTERVAL :: u32 where
  "FD_INTERVAL = 1"

text \<open>\<open>set_value(true)\<close> throws when there is a value.\<close>

definition set_value :: "'k wakeup_test \<Rightarrow> wakeup_fault + 'k wakeup_test" where
  "set_value w =
     (case case_result_promise w of
        None \<Rightarrow> Inr (w\<lparr>case_result_promise := Some True\<rparr>)
      | Some _ \<Rightarrow> Inl PromiseAlreadySatisfied)"

definition onEVFDRead_000 ::
    "(int \<Rightarrow> 'k \<Rightarrow> int \<times> u64 \<times> 'k) \<Rightarrow> int \<Rightarrow> 'k wakeup_test \<Rightarrow> wakeup_fault + 'k wakeup_test" where
  "onEVFDRead_000 read_fd fd w =
     (let (ret, one, k) = read_fd fd (wt_kernel w); w1 = w\<lparr>wt_kernel := k\<rparr>
      in if ret \<noteq> 8 then Inr w1 else set_value w1)"

definition onEVFDRead_001 ::
    "(int \<Rightarrow> 'k \<Rightarrow> int \<times> u64 \<times> 'k) \<Rightarrow> int \<Rightarrow> 'k wakeup_test \<Rightarrow> wakeup_fault + 'k wakeup_test" where
  "onEVFDRead_001 read_fd fd w =
     (let (ret, one, k) = read_fd fd (wt_kernel w); w1 = w\<lparr>wt_kernel := k\<rparr>
      in if ret \<noteq> 8 then Inr w1
         else let w2 = w1\<lparr>fd_count := fd_count w1 + ucast one\<rparr>
              in if fd_count w2 = FD_TIMES then map_sum id (\<lambda>w3. w3\<lparr>fd_count := 0\<rparr>) (set_value w2)
                 else Inr w2)"

text \<open>The third callback counts in the variable of the second one.\<close>

definition onEVFDRead_002 ::
    "(int \<Rightarrow> 'k \<Rightarrow> int \<times> u64 \<times> 'k) \<Rightarrow> int \<Rightarrow> 'k wakeup_test \<Rightarrow> wakeup_fault + 'k wakeup_test" where
  "onEVFDRead_002 read_fd fd w =
     (let (ret, one, k) = read_fd fd (wt_kernel w); w1 = w\<lparr>wt_kernel := k\<rparr>
      in if ret \<noteq> 8 then Inr w1
         else let w2 = w1\<lparr>seen_queue := seen_queue w1 \<or> one > 1\<rparr>;
                  w3 = w2\<lparr>fd_count := fd_count w2 + ucast one\<rparr>
              in if fd_count w3 = FD_TIMES \<and> seen_queue w3
                 then map_sum id (\<lambda>w4. w4\<lparr>fd_count := 0\<rparr>) (set_value w3)
                 else Inr w3)"

section \<open>The bodies\<close>

definition wakeup_code ::
    "(int \<Rightarrow> u64 \<Rightarrow> 'k \<Rightarrow> int \<times> 'k) \<Rightarrow> eventfd_client \<Rightarrow> (eventfd_lambda, 'k wakeup_test) user_code" where
  "wakeup_code write_fd c =
     \<lparr>call_user = (\<lambda>u t w. case u of
          SendOne \<Rightarrow> (t, w\<lparr>wt_kernel := snd (EventFdClient_send write_fd c (wt_kernel w))\<rparr>)
        | AuditAll \<Rightarrow> (t, w)),
      call_cb = (\<lambda>c p n t w. (0, t, w))\<rparr>"

datatype wakeup_event = Timeout event_env | Wakeup

text \<open>What happens while a body waits: timeouts of the timer at \<open>a\<close>, and calls of the callback.\<close>

fun wakeup_events ::
    "('u, 'k wakeup_test) user_code \<Rightarrow> ('k wakeup_test \<Rightarrow> wakeup_fault + 'k wakeup_test) \<Rightarrow> addr
      \<Rightarrow> wakeup_event list \<Rightarrow> 'u timer sheap \<Rightarrow> 'k wakeup_test
      \<Rightarrow> wakeup_fault + 'u timer sheap \<times> 'k wakeup_test" where
  "wakeup_events uc cb a [] h w = Inr (h, w)"
| "wakeup_events uc cb a (Timeout e # es) h w =
     (case heap_timeouts uc [e] a h w of
        Inl err \<Rightarrow> Inl TimerFault
      | Inr (h1, w1) \<Rightarrow> wakeup_events uc cb a es h1 w1)"
| "wakeup_events uc cb a (Wakeup # es) h w =
     (case cb w of
        Inl err \<Rightarrow> Inl err
      | Inr w1 \<Rightarrow> wakeup_events uc cb a es h w1)"

text \<open>\<open>fut.get()\<close>, once there is a value; without one the body waits.\<close>

definition future_result :: "'k wakeup_test \<Rightarrow> case_result option" where
  "future_result w = map_option (\<lambda>r. if r then CASE_SUCCESS else CASE_FAIL) (case_result_promise w)"

text \<open>
  The local \<open>loop\<close> of a body at \<open>be_loop\<close>, with the event base that \<open>event_base_new\<close> returns; the event
  of the server enters and leaves it by \<open>be_add\<close> and \<open>be_remove\<close>. What the thread of the loop and the
  others do: while the body waits, between the destructors of the server and the loop, between
  \<open>stop\<close> and the test of the status, and during the join.
\<close>

record 'b body_env =
  be_api :: "'b event_base_api"
  be_loop :: addr
  be_base :: "'b option"
  be_add :: "'b \<Rightarrow> 'b"
  be_remove :: "'b \<Rightarrow> 'b"
  be_waiting :: "'b loops \<Rightarrow> 'b loops"
  be_between :: "'b loops \<Rightarrow> 'b loops"
  be_racing :: "'b loops \<Rightarrow> 'b loops"
  be_during :: "'b loops \<Rightarrow> 'b loops"

text \<open>The closing brace: the client and the future have no effect, then the server, then the loop.\<close>

definition wakeup_end ::
    "'b body_env \<Rightarrow> 'cb eventfd_server \<Rightarrow> ptr set \<Rightarrow> 'b loops \<Rightarrow> (loop_error + 'b loops) option" where
  "wakeup_end be server events lw =
     (let (server1, events1) = EventFdServer_destroy server events;
          lw1 = (if events1 \<noteq> events then change_base (be_remove be) (EventFdServer_base server) lw else lw)
      in Loop_destroy (be_api be) Loop_hooks (be_racing be) (be_during be) (be_loop be) (be_between be lw1))"

text \<open>
  The part that the three bodies share, with the start of the timer and the callback: the
  descriptor \<open>efd\<close>, the server with the event \<open>ev\<close>, the client, the timer at \<open>a\<close>, which the manager
  keeps, the start of the loop in a thread, the wait, and the end of the scope. \<open>None\<close> is a body
  that still waits; otherwise the result is known and the descriptor is closed, and the outcome of
  the destructors says whether the body returns it. (The third body starts the loop before the
  timer; the two do not touch each other.)
\<close>

definition wakeup_body ::
    "'b body_env \<Rightarrow> (event_env \<Rightarrow> eventfd_lambda timer \<Rightarrow> bool \<times> eventfd_lambda timer)
      \<Rightarrow> (int \<Rightarrow> 'k wakeup_test \<Rightarrow> wakeup_fault + 'k wakeup_test)
      \<Rightarrow> (int \<Rightarrow> u64 \<Rightarrow> 'k \<Rightarrow> int \<times> 'k) \<Rightarrow> (int \<Rightarrow> 'k \<Rightarrow> 'k) \<Rightarrow> int \<Rightarrow> ptr option \<Rightarrow> bool \<Rightarrow> event_env \<Rightarrow> addr
      \<Rightarrow> wakeup_event list \<Rightarrow> eventfd_lambda timer_manager \<Rightarrow> eventfd_lambda timer sheap
      \<Rightarrow> 'k wakeup_test \<Rightarrow> 'b loops
      \<Rightarrow> wakeup_fault + (case_result \<times> (loop_error + 'b loops) option) option
        \<times> eventfd_lambda timer sheap \<times> 'k wakeup_test" where
  "wakeup_body be start_timer cb write_fd close_fd efd ev add_ok e a es m h w lw =
     (case Loop_new (be_loop be) (be_base be) lw of
        (Some err, lw1) \<Rightarrow> Inl (LoopFault err)
      | (None, lw1) \<Rightarrow>
          (case EventFdServer_new ev add_ok (be_loop be) efd cb {} of
             (Inl err, events) \<Rightarrow> Inl (ServerFault err)
           | (Inr server, events) \<Rightarrow>
               (let lw2 = change_base (be_add be) (EventFdServer_base server) lw1;
                    client = EventFdClient_new efd;
                    (i, m1, h1) = TimerManager_getTimer a m h
                in case heap_call (start_timer e) a h1 of
                     None \<Rightarrow> Inl DanglingTimer
                   | Some (r, h2) \<Rightarrow>
                       (case Loop_start Loop_hooks True 0 (be_loop be) lw2 of
                          Inl err \<Rightarrow> Inl (LoopFault err)
                        | Inr (started, lw3) \<Rightarrow>
                            map_sum id (\<lambda>(h3, w1).
                              case future_result w1 of
                                None \<Rightarrow> (None, h3, w1)
                              | Some result \<Rightarrow>
                                  (Some (result, wakeup_end be server events (be_waiting be lw3)), h3,
                                   if 0 \<le> efd then w1\<lparr>wt_kernel := close_fd efd (wt_kernel w1)\<rparr> else w1))
                              (wakeup_events (wakeup_code write_fd client) (es_callback server (es_eventFd server)) a es
                                (shared_drop a h2) w)))))"

definition event_FD_basic_body ::
    "'b body_env \<Rightarrow> (int \<Rightarrow> u64 \<Rightarrow> 'k \<Rightarrow> int \<times> 'k) \<Rightarrow> (int \<Rightarrow> 'k \<Rightarrow> int \<times> u64 \<times> 'k) \<Rightarrow> (int \<Rightarrow> 'k \<Rightarrow> 'k)
      \<Rightarrow> int \<Rightarrow> ptr option \<Rightarrow> bool \<Rightarrow> event_env \<Rightarrow> addr \<Rightarrow> wakeup_event list \<Rightarrow> eventfd_lambda timer_manager
      \<Rightarrow> eventfd_lambda timer sheap \<Rightarrow> 'k wakeup_test \<Rightarrow> 'b loops
      \<Rightarrow> wakeup_fault + (case_result \<times> (loop_error + 'b loops) option) option
        \<times> eventfd_lambda timer sheap \<times> 'k wakeup_test" where
  "event_FD_basic_body be write_fd read_fd close_fd =
     wakeup_body be (\<lambda>e. Timer_startOnce e 1 (UserHandler SendOne)) (onEVFDRead_000 read_fd) write_fd close_fd"

definition event_FD_count_test_body ::
    "'b body_env \<Rightarrow> (int \<Rightarrow> u64 \<Rightarrow> 'k \<Rightarrow> int \<times> 'k) \<Rightarrow> (int \<Rightarrow> 'k \<Rightarrow> int \<times> u64 \<times> 'k) \<Rightarrow> (int \<Rightarrow> 'k \<Rightarrow> 'k)
      \<Rightarrow> int \<Rightarrow> ptr option \<Rightarrow> bool \<Rightarrow> event_env \<Rightarrow> addr \<Rightarrow> wakeup_event list \<Rightarrow> eventfd_lambda timer_manager
      \<Rightarrow> eventfd_lambda timer sheap \<Rightarrow> 'k wakeup_test \<Rightarrow> 'b loops
      \<Rightarrow> wakeup_fault + (case_result \<times> (loop_error + 'b loops) option) option
        \<times> eventfd_lambda timer sheap \<times> 'k wakeup_test" where
  "event_FD_count_test_body be write_fd read_fd close_fd =
     wakeup_body be (\<lambda>e. Timer_startRounds e FD_INTERVAL FD_TIMES (UserHandler SendOne)) (onEVFDRead_001 read_fd)
       write_fd close_fd"

definition event_FD_queue_counter_test_body ::
    "'b body_env \<Rightarrow> (int \<Rightarrow> u64 \<Rightarrow> 'k \<Rightarrow> int \<times> 'k) \<Rightarrow> (int \<Rightarrow> 'k \<Rightarrow> int \<times> u64 \<times> 'k) \<Rightarrow> (int \<Rightarrow> 'k \<Rightarrow> 'k)
      \<Rightarrow> int \<Rightarrow> ptr option \<Rightarrow> bool \<Rightarrow> event_env \<Rightarrow> addr \<Rightarrow> wakeup_event list \<Rightarrow> eventfd_lambda timer_manager
      \<Rightarrow> eventfd_lambda timer sheap \<Rightarrow> 'k wakeup_test \<Rightarrow> 'b loops
      \<Rightarrow> wakeup_fault + (case_result \<times> (loop_error + 'b loops) option) option
        \<times> eventfd_lambda timer sheap \<times> 'k wakeup_test" where
  "event_FD_queue_counter_test_body be write_fd read_fd close_fd =
     wakeup_body be (\<lambda>e. Timer_startRounds e FD_INTERVAL FD_TIMES (UserHandler SendOne)) (onEVFDRead_002 read_fd)
       write_fd close_fd"

section \<open>Reading and sending\<close>

text \<open>The second (\<open>q\<close> false) and the third callback, over the number in the counter.\<close>

definition counts_wakeups :: "bool \<Rightarrow> ('k \<Rightarrow> nat) \<Rightarrow> ('k wakeup_test \<Rightarrow> wakeup_fault + 'k wakeup_test) \<Rightarrow> bool" where
  "counts_wakeups q counter cb \<longleftrightarrow> (\<forall>w.
     if counter (wt_kernel w) = 0 then \<exists>k. counter k = 0 \<and> cb w = Inr (w\<lparr>wt_kernel := k\<rparr>)
     else \<exists>k g. counter k = 0 \<and> (q \<longrightarrow> (g \<longleftrightarrow> seen_queue w \<or> 1 < counter (wt_kernel w)))
       \<and> cb w = (let w1 = w\<lparr>wt_kernel := k, seen_queue := g, fd_count := fd_count w + of_nat (counter (wt_kernel w))\<rparr>
           in if fd_count w1 = 100 \<and> (q \<longrightarrow> g) then map_sum id (\<lambda>w2. w2\<lparr>fd_count := 0\<rparr>) (set_value w1)
              else Inr w1))"

lemma read_result:
  assumes "eventfd_laws write_fd read_fd efd counter"
  obtains ret one k1 where "read_fd efd k = (ret, one, k1)" "counter k1 = 0"
    "if counter k = 0 then ret = - 1 else ret = 8 \<and> unat one = counter k"
  using assms [unfolded eventfd_laws_def, THEN conjunct2, rule_format, of k]
  by (metis prod.collapse)

lemma reading_001:
  assumes "read_fd efd (wt_kernel w) = (ret, one, k)"
  shows "ret \<noteq> 8 \<Longrightarrow> onEVFDRead_001 read_fd efd w = Inr (w\<lparr>wt_kernel := k\<rparr>)"
    and "ret = 8 \<Longrightarrow> unat one = n \<Longrightarrow> onEVFDRead_001 read_fd efd w =
      (let w1 = w\<lparr>wt_kernel := k, seen_queue := seen_queue w, fd_count := fd_count w + of_nat n\<rparr>
       in if fd_count w1 = 100 \<and> (False \<longrightarrow> seen_queue w) then map_sum id (\<lambda>w2. w2\<lparr>fd_count := 0\<rparr>) (set_value w1)
          else Inr w1)"
proof -
  show "ret \<noteq> 8 \<Longrightarrow> onEVFDRead_001 read_fd efd w = Inr (w\<lparr>wt_kernel := k\<rparr>)"
    using assms by (simp add: onEVFDRead_001_def)
next
  assume ret: "ret = 8" and n: "unat one = n"
  have "ucast one = (of_nat n :: u32)" unfolding n [symmetric] by simp
  then show "onEVFDRead_001 read_fd efd w =
      (let w1 = w\<lparr>wt_kernel := k, seen_queue := seen_queue w, fd_count := fd_count w + of_nat n\<rparr>
       in if fd_count w1 = 100 \<and> (False \<longrightarrow> seen_queue w) then map_sum id (\<lambda>w2. w2\<lparr>fd_count := 0\<rparr>) (set_value w1)
          else Inr w1)"
    using assms ret by (cases w) (simp add: onEVFDRead_001_def FD_TIMES_def Let_def)
qed

lemma reading_002:
  assumes "read_fd efd (wt_kernel w) = (ret, one, k)"
  shows "ret \<noteq> 8 \<Longrightarrow> onEVFDRead_002 read_fd efd w = Inr (w\<lparr>wt_kernel := k\<rparr>)"
    and "ret = 8 \<Longrightarrow> unat one = n \<Longrightarrow> onEVFDRead_002 read_fd efd w =
      (let w1 = w\<lparr>wt_kernel := k, seen_queue := seen_queue w \<or> 1 < n, fd_count := fd_count w + of_nat n\<rparr>
       in if fd_count w1 = 100 \<and> (True \<longrightarrow> seen_queue w \<or> 1 < n)
          then map_sum id (\<lambda>w2. w2\<lparr>fd_count := 0\<rparr>) (set_value w1) else Inr w1)"
  using assms by (cases w, auto simp: onEVFDRead_002_def FD_TIMES_def word_less_nat_alt Let_def)+

lemma counts_wakeupsI:
  fixes read_fd :: "int \<Rightarrow> 'k \<Rightarrow> int \<times> u64 \<times> 'k"
    and f :: "'k wakeup_test \<Rightarrow> nat \<Rightarrow> bool"
  assumes "\<And>k0. \<exists>ret one k. read_fd efd k0 = (ret, one, k) \<and> counter k = 0 \<and>
      (if counter k0 = 0 then ret = - 1 else ret = 8 \<and> unat one = counter k0)"
    and "\<And>w ret one k. read_fd efd (wt_kernel w) = (ret, one, k) \<Longrightarrow> ret \<noteq> 8 \<Longrightarrow> cb w = Inr (w\<lparr>wt_kernel := k\<rparr>)"
    and "\<And>w ret one k n. read_fd efd (wt_kernel w) = (ret, one, k) \<Longrightarrow> ret = 8 \<Longrightarrow> unat one = n \<Longrightarrow>
      cb w = (let w1 = w\<lparr>wt_kernel := k, seen_queue := f w n, fd_count := fd_count w + of_nat n\<rparr>
        in if fd_count w1 = 100 \<and> (q \<longrightarrow> f w n) then map_sum id (\<lambda>w2. w2\<lparr>fd_count := 0\<rparr>) (set_value w1) else Inr w1)"
    and "\<And>w n. q \<Longrightarrow> f w n \<longleftrightarrow> seen_queue w \<or> 1 < n"
  shows "counts_wakeups q counter cb"
  unfolding counts_wakeups_def
proof
  fix w :: "'k wakeup_test"
  obtain ret one k where r: "read_fd efd (wt_kernel w) = (ret, one, k)" "counter k = 0"
    "if counter (wt_kernel w) = 0 then ret = - 1 else ret = 8 \<and> unat one = counter (wt_kernel w)"
    using assms(1) [of "wt_kernel w"] by (elim exE conjE) (rule that)
  show "if counter (wt_kernel w) = 0 then \<exists>k. counter k = 0 \<and> cb w = Inr (w\<lparr>wt_kernel := k\<rparr>)
     else \<exists>k g. counter k = 0 \<and> (q \<longrightarrow> (g \<longleftrightarrow> seen_queue w \<or> 1 < counter (wt_kernel w)))
       \<and> cb w = (let w1 = w\<lparr>wt_kernel := k, seen_queue := g, fd_count := fd_count w + of_nat (counter (wt_kernel w))\<rparr>
           in if fd_count w1 = 100 \<and> (q \<longrightarrow> g) then map_sum id (\<lambda>w2. w2\<lparr>fd_count := 0\<rparr>) (set_value w1)
              else Inr w1)"
  proof (cases "counter (wt_kernel w) = 0")
    case True
    then have "cb w = Inr (w\<lparr>wt_kernel := k\<rparr>)" using assms(2) [OF r(1)] r(3) by simp
    with True r(2) show ?thesis by auto
  next
    case False
    then have "ret = 8" "unat one = counter (wt_kernel w)" using r(3) by simp_all
    from assms(3) [OF r(1) this] r(2) False assms(4) [of w "counter (wt_kernel w)"] show ?thesis
      by (simp only: if_False) blast
  qed
qed

lemma callbacks_count:
  assumes "eventfd_laws write_fd read_fd efd counter"
  shows "counts_wakeups False counter (onEVFDRead_001 read_fd efd)"
    and "counts_wakeups True counter (onEVFDRead_002 read_fd efd)"
proof -
  have read: "\<exists>ret one k. read_fd efd k0 = (ret, one, k) \<and> counter k = 0 \<and>
      (if counter k0 = 0 then ret = - 1 else ret = 8 \<and> unat one = counter k0)" for k0
    using read_result [OF assms] by metis
  show "counts_wakeups False counter (onEVFDRead_001 read_fd efd)"
    by (rule counts_wakeupsI [where f = "\<lambda>w n. seen_queue w" and read_fd = read_fd and efd = efd], rule read,
        erule (1) reading_001(1), erule (2) reading_001(2), simp)
  show "counts_wakeups True counter (onEVFDRead_002 read_fd efd)"
    by (rule counts_wakeupsI [where f = "\<lambda>w n. seen_queue w \<or> 1 < n" and read_fd = read_fd and efd = efd], rule read,
        erule (1) reading_002(1), erule (2) reading_002(2), simp)
qed

text \<open>The timer of the test, with \<open>n\<close> rounds left.\<close>

definition timer_at :: "eventfd_lambda timer sheap \<Rightarrow> addr \<Rightarrow> nat \<Rightarrow> bool" where
  "timer_at h a n \<longleftrightarrow> (\<exists>t m. h a = Some (t, m) \<and>
     (if n = 0 then t_event t = None else armed t \<and> rounds_left t = n \<and> t_handler t = UserHandler SendOne))"

lemma timeout_idle: "timer_at h a 0 \<Longrightarrow> heap_timeouts uc [e] a h w = Inr (h, w)"
  by (auto simp: timer_at_def heap_timeouts_def fun_upd_idem simp del: Timer_run.simps)

lemma timeout_sends:
  assumes laws: "eventfd_laws write_fd read_fd efd counter" and "timer_at h a (Suc n)"
    and "counter (wt_kernel w) < 2 ^ 64 - 2"
  obtains h1 k where "heap_timeouts (wakeup_code write_fd (EventFdClient_new efd)) [e] a h w = Inr (h1, w\<lparr>wt_kernel := k\<rparr>)"
    "counter k = Suc (counter (wt_kernel w))" "timer_at h1 a n"
proof -
  obtain t m where t: "h a = Some (t, m)" "armed t" "rounds_left t = Suc n" "t_handler t = UserHandler SendOne"
    using assms(2) by (auto simp: timer_at_def)
  let ?k = "snd (EventFdClient_send write_fd (EventFdClient_new efd) (wt_kernel w))"
  have k: "counter ?k = Suc (counter (wt_kernel w))"
    using send_result [OF laws, of "wt_kernel w"] assms(3) by simp
  have "heap_timeouts (wakeup_code write_fd (EventFdClient_new efd)) [e] a h w =
      Inr (h(a \<mapsto> (timer_tick t, m)), w\<lparr>wt_kernel := ?k\<rparr>)"
    using t by (simp add: heap_timeouts_def run_armed wakeup_code_def del: Timer_run.simps(2))
  moreover have "timer_at (h(a \<mapsto> (timer_tick t, m))) a n"
  proof (cases "n = 0")
    case True
    then show ?thesis using tick_last [OF t(2)] t(3) by (simp add: timer_at_def run_out_def)
  next
    case False
    then have "rounds_left t \<noteq> 1" using t(3) by simp
    from tick_more [OF t(2) this] show ?thesis using t(3,4) False by (simp add: timer_at_def)
  qed
  ultimately show thesis using k that by blast
qed

section \<open>The wait\<close>

text \<open>
  When the promise is set, with \<open>n\<close> sends still to come, \<open>c\<close> not read yet, and \<open>f\<close> saying whether more
  than one was read at once before; \<open>q\<close> is for the third test.
\<close>

fun promise_set :: "bool \<Rightarrow> nat \<Rightarrow> nat \<Rightarrow> bool \<Rightarrow> wakeup_event list \<Rightarrow> bool" where
  "promise_set q n c f [] = False"
| "promise_set q n c f (Timeout e # es) = (if n = 0 then promise_set q n c f es else promise_set q (n - 1) (c + 1) f es)"
| "promise_set q n c f (Wakeup # es) =
     (if n = 0 \<and> 0 < c then q \<longrightarrow> f \<or> 1 < c else promise_set q n 0 (f \<or> 1 < c) es)"

lemma counts_nothing:
  assumes "counts_wakeups q counter cb" and "counter (wt_kernel w) = 0"
  obtains k where "cb w = Inr (w\<lparr>wt_kernel := k\<rparr>)" "counter k = 0"
  using assms(1) [unfolded counts_wakeups_def, rule_format, of w] unfolding assms(2) by auto

lemma counts_some:
  assumes "counts_wakeups q counter cb" and "counter (wt_kernel w) = Suc c"
  obtains k g where "counter k = 0" "q \<longrightarrow> (g \<longleftrightarrow> seen_queue w \<or> 1 < Suc c)"
    "cb w = (let w1 = w\<lparr>wt_kernel := k, seen_queue := g, fd_count := fd_count w + of_nat (Suc c)\<rparr>
       in if fd_count w1 = 100 \<and> (q \<longrightarrow> g) then map_sum id (\<lambda>w2. w2\<lparr>fd_count := 0\<rparr>) (set_value w1) else Inr w1)"
  using assms(1) [unfolded counts_wakeups_def, rule_format, of w] unfolding assms(2) by auto

text \<open>Nothing left to send or to read: nothing changes any more.\<close>

lemma events_quiet:
  assumes "\<And>w. counter (wt_kernel w) = 0 \<Longrightarrow> \<exists>k. cb w = Inr (w\<lparr>wt_kernel := k\<rparr>) \<and> counter k = 0"
  shows "timer_at h a 0 \<Longrightarrow> counter (wt_kernel w) = 0 \<Longrightarrow>
    \<exists>k. wakeup_events uc cb a es h w = Inr (h, w\<lparr>wt_kernel := k\<rparr>)"
proof (induction es arbitrary: w)
  case Nil
  show ?case by (rule exI [of _ "wt_kernel w"]) (cases w, simp)
next
  case (Cons e es)
  show ?case
  proof (cases e)
    case (Timeout v)
    then show ?thesis using Cons timeout_idle [OF Cons.prems(1), of uc v w] by simp
  next
    case Wakeup
    obtain k where k: "cb w = Inr (w\<lparr>wt_kernel := k\<rparr>)" "counter k = 0"
      using assms [OF Cons.prems(2)] by blast
    obtain k1 where "wakeup_events uc cb a es h (w\<lparr>wt_kernel := k\<rparr>) = Inr (h, (w\<lparr>wt_kernel := k\<rparr>)\<lparr>wt_kernel := k1\<rparr>)"
      using Cons.IH [OF Cons.prems(1), of "w\<lparr>wt_kernel := k\<rparr>"] k(2) by auto
    then show ?thesis using Wakeup k(1) by (auto intro!: exI [of _ k1])
  qed
qed

lemma all_counted:
  assumes "n + Suc d \<le> 100"
  shows "of_nat (100 - n - Suc d) + of_nat (Suc d) = (of_nat (100 - n) :: u32)"
    and "of_nat (100 - n) = (100 :: u32) \<longleftrightarrow> n = 0"
proof -
  have "100 - n - Suc d + Suc d = 100 - n" using assms by simp
  then show "of_nat (100 - n - Suc d) + of_nat (Suc d) = (of_nat (100 - n) :: u32)" by (metis of_nat_add)
  have "unat (of_nat (100 - n) :: u32) = 100 - n" by (rule unat_of_nat_bounded) simp
  moreover have "unat (100 :: u32) = 100" by simp
  ultimately have "of_nat (100 - n) = (100 :: u32) \<longleftrightarrow> 100 - n = 100" by (simp only: word_unat_eq_iff)
  then show "of_nat (100 - n) = (100 :: u32) \<longleftrightarrow> n = 0" using assms by linarith
qed

lemma events_counted:
  assumes laws: "eventfd_laws write_fd read_fd efd counter" and cb: "counts_wakeups q counter cb"
  shows "timer_at h a n \<Longrightarrow> counter (wt_kernel w) = c \<Longrightarrow> n + c \<le> 100 \<Longrightarrow> 0 < n + c \<Longrightarrow>
    fd_count w = of_nat (100 - n - c) \<Longrightarrow> case_result_promise w = None \<Longrightarrow> q \<longrightarrow> seen_queue w = f \<Longrightarrow>
    \<exists>h1 w1. wakeup_events (wakeup_code write_fd (EventFdClient_new efd)) cb a es h w = Inr (h1, w1)
      \<and> case_result_promise w1 = (if promise_set q n c f es then Some True else None)
      \<and> (promise_set q n c f es \<longrightarrow> timer_at h1 a 0)"
proof (induction es arbitrary: h w n c f)
  case Nil
  then show ?case by simp
next
  case (Cons e es)
  let ?uc = "wakeup_code write_fd (EventFdClient_new efd)"
  show ?case
  proof (cases e)
    case (Timeout v)
    show ?thesis
    proof (cases n)
      case 0
      then show ?thesis
        using Cons.IH [OF Cons.prems] timeout_idle [of h a ?uc v w] Cons.prems(1) Timeout by simp
    next
      case (Suc m)
      have small: "counter (wt_kernel w) < 2 ^ 64 - 2" using Cons.prems(2,3) by simp
      obtain h1 k where step: "heap_timeouts ?uc [v] a h w = Inr (h1, w\<lparr>wt_kernel := k\<rparr>)"
        "counter k = Suc (counter (wt_kernel w))" "timer_at h1 a m"
        using timeout_sends [OF laws Cons.prems(1) [unfolded Suc] small] by blast
      show ?thesis
        using Cons.IH [OF step(3), of "w\<lparr>wt_kernel := k\<rparr>" "Suc c" f] Cons.prems step Timeout Suc by simp
    qed
  next
    case Wakeup
    show ?thesis
    proof (cases c)
      case 0
      obtain k where k: "cb w = Inr (w\<lparr>wt_kernel := k\<rparr>)" "counter k = 0"
        by (rule counts_nothing [OF cb Cons.prems(2) [unfolded 0]])
      show ?thesis
        using Cons.IH [OF Cons.prems(1), of "w\<lparr>wt_kernel := k\<rparr>" 0 f] Cons.prems k Wakeup 0 by simp
    next
      case (Suc d)
      obtain k g where k: "counter k = 0" "q \<longrightarrow> (g \<longleftrightarrow> seen_queue w \<or> 1 < Suc d)"
        and step: "cb w = (let w1 = w\<lparr>wt_kernel := k, seen_queue := g, fd_count := fd_count w + of_nat (Suc d)\<rparr>
          in if fd_count w1 = 100 \<and> (q \<longrightarrow> g) then map_sum id (\<lambda>w2. w2\<lparr>fd_count := 0\<rparr>) (set_value w1) else Inr w1)"
        by (rule counts_some [OF cb Cons.prems(2) [unfolded Suc]])
      let ?w = "w\<lparr>wt_kernel := k, seen_queue := g, fd_count := fd_count w + of_nat (Suc d)\<rparr>"
      have sum: "fd_count w + of_nat (Suc d) = of_nat (100 - n)"
        using Cons.prems(3) unfolding Cons.prems(5) Suc by (rule all_counted(1))
      have full: "fd_count ?w = 100 \<longleftrightarrow> n = 0"
        using all_counted(2) [of n d] Cons.prems(3) unfolding Suc by (simp add: sum del: of_nat_Suc)
      have g: "q \<longrightarrow> (g \<longleftrightarrow> f \<or> 1 < c)" using k(2) Cons.prems(7) Suc by simp
      show ?thesis
      proof (cases "n = 0")
        case True
        then have idle: "timer_at h a 0" using Cons.prems(1) by simp
        let ?v = "if q \<longrightarrow> g then ?w\<lparr>case_result_promise := Some True, fd_count := 0\<rparr> else ?w"
        have cbw: "cb w = Inr ?v" using step full True Cons.prems(6) by (simp add: set_value_def Let_def)
        have quiet: "\<exists>k. cb w = Inr (w\<lparr>wt_kernel := k\<rparr>) \<and> counter k = 0" if "counter (wt_kernel w) = 0" for w
          using counts_nothing [OF cb that] by blast
        have v0: "counter (wt_kernel ?v) = 0" using k(1) by simp
        obtain k1 where "wakeup_events ?uc cb a es h ?v = Inr (h, ?v\<lparr>wt_kernel := k1\<rparr>)"
          using events_quiet [where counter = counter and w = ?v, OF quiet idle v0] by blast
        then show ?thesis using cbw Wakeup True Suc g idle Cons.prems(6) by simp
      next
        case False
        have cbw: "cb w = Inr ?w" using step full False by (simp add: Let_def)
        have "fd_count ?w = of_nat (100 - n - 0)" using sum by simp
        then show ?thesis
          using Cons.IH [OF Cons.prems(1), of ?w 0 "f \<or> 1 < c"] Cons.prems k(1) g cbw Wakeup Suc False by simp
      qed
    qed
  qed
qed

text \<open>The first test, where one send comes.\<close>

lemma reading_000:
  assumes "eventfd_laws write_fd read_fd efd counter"
  shows "counter (wt_kernel w) = 0 \<Longrightarrow> \<exists>k. onEVFDRead_000 read_fd efd w = Inr (w\<lparr>wt_kernel := k\<rparr>) \<and> counter k = 0"
    and "0 < counter (wt_kernel w) \<Longrightarrow>
      \<exists>k. onEVFDRead_000 read_fd efd w = set_value (w\<lparr>wt_kernel := k\<rparr>) \<and> counter k = 0"
proof -
  obtain ret one k where r: "read_fd efd (wt_kernel w) = (ret, one, k)" "counter k = 0"
    "if counter (wt_kernel w) = 0 then ret = - 1 else ret = 8 \<and> unat one = counter (wt_kernel w)"
    by (rule read_result [OF assms])
  show "\<exists>k. onEVFDRead_000 read_fd efd w = Inr (w\<lparr>wt_kernel := k\<rparr>) \<and> counter k = 0" if "counter (wt_kernel w) = 0"
    using r that by (intro exI [of _ k]) (simp add: onEVFDRead_000_def)
  show "\<exists>k. onEVFDRead_000 read_fd efd w = set_value (w\<lparr>wt_kernel := k\<rparr>) \<and> counter k = 0" if "0 < counter (wt_kernel w)"
    using r that by (intro exI [of _ k]) (simp add: onEVFDRead_000_def)
qed

lemma events_once:
  assumes laws: "eventfd_laws write_fd read_fd efd counter"
  shows "timer_at h a n \<Longrightarrow> counter (wt_kernel w) = c \<Longrightarrow> n + c = 1 \<Longrightarrow> case_result_promise w = None \<Longrightarrow>
    \<exists>h1 w1. wakeup_events (wakeup_code write_fd (EventFdClient_new efd)) (onEVFDRead_000 read_fd efd) a es h w = Inr (h1, w1)
      \<and> case_result_promise w1 = (if promise_set False n c f es then Some True else None)
      \<and> (promise_set False n c f es \<longrightarrow> timer_at h1 a 0)"
proof (induction es arbitrary: h w n c f)
  case Nil
  then show ?case by simp
next
  case (Cons e es)
  let ?uc = "wakeup_code write_fd (EventFdClient_new efd)"
  consider (send) v where "e = Timeout v" "n = 1" "c = 0" | (idle) v where "e = Timeout v" "n = 0" "c = 1"
    | (empty) "e = Wakeup" "n = 1" "c = 0" | (read) "e = Wakeup" "n = 0" "c = 1"
    using Cons.prems(3) by (cases e; cases n) auto
  then show ?case
  proof cases
    case send
    then have "timer_at h a (Suc 0)" "counter (wt_kernel w) < 2 ^ 64 - 2" using Cons.prems by simp_all
    from timeout_sends [OF laws this] obtain h1 k where "heap_timeouts ?uc [v] a h w = Inr (h1, w\<lparr>wt_kernel := k\<rparr>)"
      "counter k = Suc (counter (wt_kernel w))" "timer_at h1 a 0" by blast
    then show ?thesis using Cons.IH [of h1 0 "w\<lparr>wt_kernel := k\<rparr>" 1 f] Cons.prems send by simp
  next
    case idle
    then show ?thesis using Cons.IH [OF Cons.prems] timeout_idle [of h a ?uc v w] Cons.prems(1) by simp
  next
    case empty
    then have "counter (wt_kernel w) = 0" using Cons.prems(2) by simp
    then obtain k where "onEVFDRead_000 read_fd efd w = Inr (w\<lparr>wt_kernel := k\<rparr>)" "counter k = 0"
      using reading_000(1) [OF laws] by blast
    then show ?thesis using Cons.IH [OF Cons.prems(1), of "w\<lparr>wt_kernel := k\<rparr>" 0 f] Cons.prems empty by simp
  next
    case read
    then have "0 < counter (wt_kernel w)" "timer_at h a 0" using Cons.prems(1,2) by simp_all
    then obtain k where "onEVFDRead_000 read_fd efd w = set_value (w\<lparr>wt_kernel := k\<rparr>)" "counter k = 0"
      using reading_000(2) [OF laws] by blast
    moreover from this obtain k1 where "wakeup_events ?uc (onEVFDRead_000 read_fd efd) a es h
        (w\<lparr>wt_kernel := k, case_result_promise := Some True\<rparr>) =
      Inr (h, w\<lparr>wt_kernel := k, case_result_promise := Some True\<rparr>\<lparr>wt_kernel := k1\<rparr>)"
      using events_quiet [where counter = counter and w = "w\<lparr>wt_kernel := k, case_result_promise := Some True\<rparr>",
          OF reading_000(1) [OF laws] \<open>timer_at h a 0\<close>] by auto
    ultimately show ?thesis
      using read Cons.prems(4) \<open>timer_at h a 0\<close> by (simp add: set_value_def)
  qed
qed

section \<open>What the tests find\<close>

definition timeouts :: "wakeup_event list \<Rightarrow> nat" where
  "timeouts es = length (filter (\<lambda>e. e \<noteq> Wakeup) es)"

lemma first_timeout:
  "(\<exists>ys zs. Timeout e # es = ys @ Wakeup # zs \<and> n \<le> timeouts ys) \<longleftrightarrow>
    (\<exists>ys zs. es = ys @ Wakeup # zs \<and> n - 1 \<le> timeouts ys)" (is "?l \<longleftrightarrow> ?r")
proof
  show "?l \<Longrightarrow> ?r" by (auto simp: Cons_eq_append_conv timeouts_def)
  assume ?r
  then obtain ys zs where "es = ys @ Wakeup # zs" "n - 1 \<le> timeouts ys" by blast
  then have "Timeout e # es = (Timeout e # ys) @ Wakeup # zs" "n \<le> timeouts (Timeout e # ys)"
    by (auto simp: timeouts_def)
  then show ?l by blast
qed

lemma first_wakeup:
  "(\<exists>ys zs. Wakeup # es = ys @ Wakeup # zs \<and> n \<le> timeouts ys) \<longleftrightarrow>
    n = 0 \<or> (\<exists>ys zs. es = ys @ Wakeup # zs \<and> n \<le> timeouts ys)" (is "?l \<longleftrightarrow> ?r")
proof
  show "?l \<Longrightarrow> ?r" by (auto simp: Cons_eq_append_conv timeouts_def)
  assume ?r
  then have "(\<exists>zs. Wakeup # es = [] @ Wakeup # zs \<and> n \<le> timeouts []) \<or>
      (\<exists>ys zs. Wakeup # es = (Wakeup # ys) @ Wakeup # zs \<and> n \<le> timeouts (Wakeup # ys))"
    by (auto simp: timeouts_def)
  then show ?l by blast
qed

lemma promise_set_when:
  "0 < n + c \<Longrightarrow> promise_set False n c f es \<longleftrightarrow> (\<exists>ys zs. es = ys @ Wakeup # zs \<and> n \<le> timeouts ys)"
proof (induction False n c f es rule: promise_set.induct)
  case (1 n c f)
  then show ?case by simp
next
  case (2 n c f e es)
  then show ?case unfolding first_timeout by auto
next
  case (3 n c f es)
  show ?case
  proof (cases "n = 0")
    case True
    then show ?thesis using 3(2) unfolding first_wakeup by simp
  next
    case False
    then show ?thesis using 3(1) unfolding first_wakeup by simp
  qed
qed

text \<open>The loop of a body, once it is started; the server has added its event.\<close>

definition body_loop :: "'b body_env \<Rightarrow> 'b \<Rightarrow> 'b loops \<Rightarrow> 'b loops \<Rightarrow> bool" where
  "body_loop be b lw lw3 \<longleftrightarrow> calls lw3 (next_tid lw) = [(be_loop be, SetRunning)] \<and> next_tid lw \<in> joinable lw3
     \<and> objs lw3 (be_loop be) = Some \<lparr>l_id = sIdGenerater lw + 1, l_base = Some (be_add be b),
         l_thread = Some (next_tid lw), l_status = StatusInit\<rparr>"

definition body_server :: "'b body_env \<Rightarrow> int \<Rightarrow> ptr \<Rightarrow> 'cb \<Rightarrow> 'cb eventfd_server" where
  "body_server be efd ev cb =
     \<lparr>es_eventFd = efd, es_one = 1, es_base = be_loop be, es_callback = cb, es_event = Some ev\<rparr>"

lemma body_loop_started:
  assumes "be_base be = Some b"
  obtains lw1 lw3 where "Loop_new (be_loop be) (be_base be) lw = (None, lw1)"
    "Loop_start Loop_hooks True 0 (be_loop be) (change_base (be_add be) (be_loop be) lw1) = Inr (True, lw3)"
    "body_loop be b lw lw3"
  using assms
  by (simp add: Loop_new_def Loop_start_def Loop_hooks_def change_base_def set_loop_def map_base_def
      body_loop_def Let_def)

lemma wakeup_started:
  assumes "umap_find (t_map m) (uniqueID_atomic m) = None"
    and "start_timer e Timer_new = Timer_startRounds e interval r (UserHandler SendOne) Timer_new"
    and "event_new_ok e" and "event_add_ok e" and "be_base be = Some b"
  obtains h1 lw3 where "timer_at h1 a (max 1 (unat r))" "body_loop be b lw lw3"
    "wakeup_body be start_timer cb write_fd close_fd efd (Some ev) True e a es m h w lw =
      map_sum id (\<lambda>(h3, w1).
        case future_result w1 of
          None \<Rightarrow> (None, h3, w1)
        | Some result \<Rightarrow>
            (Some (result, wakeup_end be (body_server be efd ev cb) {ev} (be_waiting be lw3)), h3,
             if 0 \<le> efd then w1\<lparr>wt_kernel := close_fd efd (wt_kernel w1)\<rparr> else w1))
        (wakeup_events (wakeup_code write_fd (EventFdClient_new efd)) (cb efd) a es h1 w)"
proof -
  obtain t where t: "Timer_startRounds e interval r (UserHandler SendOne) Timer_new = (True, t)"
    using assms(3,4) by (simp add: Timer_startRounds_def Timer_new_def)
  note st = started_armed [OF t]
  obtain lw1 lw3 where l: "Loop_new (be_loop be) (be_base be) lw = (None, lw1)"
    "Loop_start Loop_hooks True 0 (be_loop be) (change_base (be_add be) (be_loop be) lw1) = Inr (True, lw3)"
    "body_loop be b lw lw3"
    by (rule body_loop_started [OF assms(5)])
  let ?h = "h(a \<mapsto> (t, 1))"
  have timer: "timer_at ?h a (max 1 (unat r))" using st by (auto simp: timer_at_def)
  have new: "EventFdServer_new (Some ev) True (be_loop be) efd cb {} = (Inr (body_server be efd ev cb), {ev})"
    by (simp add: EventFdServer_new_def body_server_def)
  have server: "EventFdServer_base (body_server be efd ev cb) = be_loop be"
    "es_callback (body_server be efd ev cb) = cb" "es_eventFd (body_server be efd ev cb) = efd"
    by (simp_all add: EventFdServer_base_def body_server_def)
  show thesis
    by (rule that [OF timer l(3)])
      (use assms(1,2) t in \<open>simp add: wakeup_body_def l(1,2) new server TimerManager_getTimer_def
        TimerManager_getUniqueID_def heap_call_def shared_new_def shared_copy_def shared_drop_def Let_def\<close>)
qed

text \<open>
  The thread of the loop while a body runs: it enters the event loop and stays there, and makes \<open>n0\<close>
  steps between the destructors, \<open>n\<close> before the test of the status, and \<open>k\<close> in the join.
\<close>

definition body_schedule :: "'b body_env \<Rightarrow> tid \<Rightarrow> nat \<Rightarrow> nat \<Rightarrow> nat \<Rightarrow> bool" where
  "body_schedule be t n0 n k \<longleftrightarrow> (\<exists>j. be_waiting be = Loop_run_steps (be_api be) Loop_hooks t (4 + j))
     \<and> be_between be = Loop_run_steps (be_api be) Loop_hooks t n0
     \<and> be_racing be = Loop_run_steps (be_api be) Loop_hooks t n
     \<and> be_during be = Loop_run_steps (be_api be) Loop_hooks t k"

text \<open>The base of the loop with the event of the server, and after its destructor.\<close>

definition busy_body :: "'b body_env \<Rightarrow> 'b \<Rightarrow> 'b" where
  "busy_body be b = event_base_loop_enter (be_api be) (be_add be b)"

lemma run_steps_add:
  "Loop_run_steps api hk t (m + n) w = Loop_run_steps api hk t n (Loop_run_steps api hk t m w)"
proof (induction m arbitrary: w)
  case 0
  then show ?case by simp
next
  case (Suc m)
  have "Loop_run_steps api hk t n w = w" if "\<And>w1. Loop_run_step api hk t w \<noteq> Some (Inr w1)"
    using that by (cases n) (auto split: option.split sum.split)
  with Suc show ?case by (auto split: option.split sum.split)
qed

lemma body_ends:
  assumes laws: "event_base_laws (be_api be)" and schedule: "body_schedule be (next_tid lw) n0 n k"
    and loop: "body_loop be b lw lw3" and busy: "\<not> event_base_loop_returns (be_api be) (busy_body be b)"
  shows "destroyed_after (if event_base_loop_returns (be_api be) (be_remove be (busy_body be b)) then 4 - n0 else 4)
      n k (be_loop be) (next_tid lw) (sIdGenerater lw + 1)
    (wakeup_end be (body_server be efd ev cb) {ev} (be_waiting be lw3))"
proof -
  let ?api = "be_api be" and ?t = "next_tid lw" and ?a = "be_loop be"
  let ?w = "Loop_run_steps ?api Loop_hooks ?t 4 lw3"
  have w: "objs ?w ?a = Some \<lparr>l_id = sIdGenerater lw + 1, l_base = Some (busy_body be b),
      l_thread = Some ?t, l_status = StatusRunning\<rparr>" "?t \<in> joinable ?w" "calls ?w ?t = [(?a, InLoop)]"
    using loop by (simp_all add: body_loop_def busy_body_def eval_nat_numeral Loop_run_step_def set_loop_def
        map_base_def Loop_hooks_def Let_def)
  have "Loop_run_steps ?api Loop_hooks ?t j ?w = ?w" for j
    using w busy by (cases j) (simp_all add: Loop_run_step_def)
  then have waiting: "be_waiting be lw3 = ?w"
    using schedule by (auto simp: body_schedule_def run_steps_add)
  have destroyed: "wakeup_end be (body_server be efd ev cb) {ev} (be_waiting be lw3) =
      Loop_destroy ?api Loop_hooks (Loop_run_steps ?api Loop_hooks ?t n) (Loop_run_steps ?api Loop_hooks ?t k) ?a
        (Loop_run_steps ?api Loop_hooks ?t n0 (change_base (be_remove be) ?a ?w))"
    using schedule unfolding waiting
    by (auto simp: wakeup_end_def EventFdServer_destroy_def EventFdServer_base_def body_server_def body_schedule_def Let_def)
  show ?thesis
    unfolding destroyed
    using changed_loop_destroy [OF laws w(1) _ _ w(2) _ w(3), where f = "be_remove be"]
    by (simp add: statuses)
qed

lemma counted_body:
  assumes "eventfd_laws write_fd read_fd efd counter" and "counter (wt_kernel w) = 0"
    and "umap_find (t_map m) (uniqueID_atomic m) = None" and "event_new_ok e" and "event_add_ok e"
    and "fd_count w = 0" and "case_result_promise w = None" and "be_base be = Some b"
    and "counts_wakeups q counter (cb efd)"
  obtains h1 w1 lw3 where "body_loop be b lw lw3"
    "wakeup_body be (\<lambda>e. Timer_startRounds e FD_INTERVAL FD_TIMES (UserHandler SendOne)) cb write_fd close_fd efd
        (Some ev) True e a es m h w lw =
      Inr (if promise_set q 100 0 (seen_queue w) es
        then Some (CASE_SUCCESS, wakeup_end be (body_server be efd ev cb) {ev} (be_waiting be lw3)) else None, h1, w1)"
    "promise_set q 100 0 (seen_queue w) es \<Longrightarrow> timer_at h1 a 0"
proof -
  obtain h0 lw3 where h0: "timer_at h0 a (max 1 (unat (FD_TIMES :: u64)))" and lw3: "body_loop be b lw lw3" and
    run: "wakeup_body be (\<lambda>e. Timer_startRounds e FD_INTERVAL FD_TIMES (UserHandler SendOne)) cb write_fd close_fd efd
        (Some ev) True e a es m h w lw =
      map_sum id (\<lambda>(h3, w1).
        case future_result w1 of
          None \<Rightarrow> (None, h3, w1)
        | Some result \<Rightarrow>
            (Some (result, wakeup_end be (body_server be efd ev cb) {ev} (be_waiting be lw3)), h3,
             if 0 \<le> efd then w1\<lparr>wt_kernel := close_fd efd (wt_kernel w1)\<rparr> else w1))
        (wakeup_events (wakeup_code write_fd (EventFdClient_new efd)) (cb efd) a es h0 w)"
    by (rule wakeup_started [where start_timer = "\<lambda>e. Timer_startRounds e FD_INTERVAL FD_TIMES (UserHandler SendOne)"
          and interval = FD_INTERVAL and r = FD_TIMES, OF assms(3) refl assms(4,5,8)])
  have t100: "timer_at h0 a 100" using h0 by (simp add: FD_TIMES_def)
  have "fd_count w = of_nat (100 - 100 - 0)" "(100 :: nat) + 0 \<le> 100" "(0 :: nat) < 100 + 0" "q \<longrightarrow> seen_queue w = seen_queue w"
    using assms(6) by simp_all
  note events_counted [OF assms(1,9) t100 assms(2) this(2,3,1) assms(7) this(4), of es]
  then obtain h1 w1 where events: "wakeup_events (wakeup_code write_fd (EventFdClient_new efd)) (cb efd) a es h0 w = Inr (h1, w1)"
    "case_result_promise w1 = (if promise_set q 100 0 (seen_queue w) es then Some True else None)"
    "promise_set q 100 0 (seen_queue w) es \<longrightarrow> timer_at h1 a 0" by blast
  let ?w = "if promise_set q 100 0 (seen_queue w) es \<and> 0 \<le> efd
    then w1\<lparr>wt_kernel := close_fd efd (wt_kernel w1)\<rparr> else w1"
  show thesis
    by (rule that [of lw3 h1 ?w]) (use lw3 run events in \<open>simp_all add: future_result_def\<close>)
qed

lemma timer_at_0: "timer_at h a 0 \<Longrightarrow> \<exists>t n. h a = Some (t, n) \<and> \<not> Timer_pending t"
  by (auto simp: timer_at_def Timer_pending_def)

text \<open>The basic test gets its result as soon as the callback is called after the first timeout.\<close>

lemma basic_body:
  assumes "eventfd_laws write_fd read_fd efd counter" and "counter (wt_kernel w) = 0"
    and "umap_find (t_map m) (uniqueID_atomic m) = None" and "event_new_ok e" and "event_add_ok e"
    and "case_result_promise w = None" and "be_base be = Some b"
  shows "\<exists>d h1 w1. event_FD_basic_body be write_fd read_fd close_fd efd (Some ev) True e a es m h w lw = Inr (d, h1, w1)
    \<and> map_option fst d = (if \<exists>ys zs. es = ys @ Wakeup # zs \<and> 1 \<le> timeouts ys then Some CASE_SUCCESS else None)"
proof -
  obtain h0 lw3 where h0: "timer_at h0 a (max 1 (unat (1 :: u64)))" and
    run: "event_FD_basic_body be write_fd read_fd close_fd efd (Some ev) True e a es m h w lw =
      map_sum id (\<lambda>(h3, w1).
        case future_result w1 of
          None \<Rightarrow> (None, h3, w1)
        | Some result \<Rightarrow>
            (Some (result, wakeup_end be (body_server be efd ev (onEVFDRead_000 read_fd)) {ev} (be_waiting be lw3)), h3,
             if 0 \<le> efd then w1\<lparr>wt_kernel := close_fd efd (wt_kernel w1)\<rparr> else w1))
        (wakeup_events (wakeup_code write_fd (EventFdClient_new efd)) (onEVFDRead_000 read_fd efd) a es h0 w)"
    unfolding event_FD_basic_body_def
    by (rule wakeup_started [where start_timer = "\<lambda>e. Timer_startOnce e 1 (UserHandler SendOne)" and interval = 1 and r = 1,
          OF assms(3) _ assms(4,5,7)]) (simp_all add: Timer_startOnce_def)
  have "timer_at h0 a 1" using h0 by simp
  from events_once [OF assms(1) this assms(2) _ assms(6), where f = False and es = es]
  obtain h1 w1 where "wakeup_events (wakeup_code write_fd (EventFdClient_new efd)) (onEVFDRead_000 read_fd efd) a es h0 w = Inr (h1, w1)"
    "case_result_promise w1 = (if promise_set False 1 0 False es then Some True else None)" by auto
  with run promise_set_when [of 1 0 False es] show ?thesis by (simp add: future_result_def)
qed

text \<open>Read one by one, no read ever sees two sends.\<close>

lemma one_by_one: "\<not> promise_set True n 0 False (concat (replicate k [Timeout e, Wakeup]))"
proof (induction k arbitrary: n)
  case 0
  then show ?case by simp
next
  case (Suc k)
  then show ?case by (cases "n \<le> 1") simp_all
qed

lemma all_at_once: "0 < n + c \<Longrightarrow> promise_set True n c f (replicate n (Timeout e) @ [Wakeup]) \<longleftrightarrow> f \<or> 1 < n + c"
  by (induction n arbitrary: c) auto

section \<open>Properties\<close>

text \<open>C34: The count test gets its result, which is success, in every order of events in which the
  callback is called once more after the hundredth timeout; in every other it waits. The promise
  is never set twice, and when the result is known the timer, whose handler refers to the local
  client, has ended. Whether the body returns the result is a race with the thread of its loop,
  which makes \<open>n0\<close> steps between the destructors of the server and the loop (they count when the
  event loop returns without the server's event), \<open>n\<close> between \<open>stop\<close> and the test of the status, and
  \<open>k\<close> in \<open>join\<close>: when the thread has finished before the test, the program ends
  (\<open>std::terminate\<close>); when it finishes in \<open>join\<close>, the body returns; until then it does not.\<close>
theorem count_test_succeeds:
  assumes "eventfd_laws write_fd read_fd efd counter" and "counter (wt_kernel w) = 0"
    and "umap_find (t_map m) (uniqueID_atomic m) = None" and "event_new_ok e" and "event_add_ok e"
    and "fd_count w = 0" and "case_result_promise w = None"
    and "event_base_laws (be_api be)" and "be_base be = Some b"
    and "\<not> event_base_loop_returns (be_api be) (busy_body be b)"
    and "body_schedule be (next_tid lw) n0 n k"
  shows "\<exists>d h1 w1. event_FD_count_test_body be write_fd read_fd close_fd efd (Some ev) True e a es m h w lw =
      Inr (d, h1, w1)
    \<and> (if \<exists>ys zs. es = ys @ Wakeup # zs \<and> 100 \<le> timeouts ys
       then (\<exists>t i. h1 a = Some (t, i) \<and> \<not> Timer_pending t)
         \<and> (let c = (if event_base_loop_returns (be_api be) (be_remove be (busy_body be b)) then 4 - n0 else 4)
            in if c \<le> n then d = Some (CASE_SUCCESS, Some (Inl Terminate))
               else if c \<le> n + k
               then \<exists>lw1. d = Some (CASE_SUCCESS, Some (Inr lw1)) \<and> objs lw1 (be_loop be) = None
                 \<and> next_tid lw \<notin> joinable lw1
               else d = Some (CASE_SUCCESS, None))
       else d = None)"
proof -
  obtain h1 w1 lw3 where loop: "body_loop be b lw lw3"
    and body: "event_FD_count_test_body be write_fd read_fd close_fd efd (Some ev) True e a es m h w lw =
      Inr (if promise_set False 100 0 (seen_queue w) es
        then Some (CASE_SUCCESS, wakeup_end be (body_server be efd ev (onEVFDRead_001 read_fd)) {ev} (be_waiting be lw3))
        else None, h1, w1)"
    and over: "promise_set False 100 0 (seen_queue w) es \<Longrightarrow> timer_at h1 a 0"
    unfolding event_FD_count_test_body_def
    using counted_body [where cb = "onEVFDRead_001 read_fd", OF assms(1-7,9) callbacks_count(1) [OF assms(1)]] by blast
  have set: "promise_set False 100 0 (seen_queue w) es \<longleftrightarrow> (\<exists>ys zs. es = ys @ Wakeup # zs \<and> 100 \<le> timeouts ys)"
    by (rule promise_set_when) simp
  note ends = body_ends [OF assms(8,11) loop assms(10), of efd ev "onEVFDRead_001 read_fd"]
  show ?thesis
  proof (cases "promise_set False 100 0 (seen_queue w) es")
    case True
    then have "\<exists>ys zs. es = ys @ Wakeup # zs \<and> 100 \<le> timeouts ys" by (simp only: set)
    with body True timer_at_0 [OF over [OF True]] ends show ?thesis
      by (simp add: destroyed_after_def Let_def split: if_split_asm) blast+
  next
    case False
    then have "\<not> (\<exists>ys zs. es = ys @ Wakeup # zs \<and> 100 \<le> timeouts ys)" by (simp only: set not_False_eq_True)
    with body False show ?thesis by simp
  qed
qed

definition wakeup_start :: "u64 wakeup_test" where
  "wakeup_start = \<lparr>wt_kernel = 0, fd_count = 0, case_result_promise = None, seen_queue = False\<rparr>"

definition new_manager :: "eventfd_lambda timer_manager" where
  "new_manager = TimerManager_members good_env AuditAll"

definition close_nothing :: "int \<Rightarrow> u64 \<Rightarrow> u64" where
  "close_nothing fd k = k"

text \<open>A body on \<open>flag_api\<close>, whose thread finishes in time or too early.\<close>

definition flag_body :: "nat \<Rightarrow> nat \<Rightarrow> flag_base body_env" where
  "flag_body n k = \<lparr>be_api = flag_api, be_loop = 7, be_base = Some (busy_base\<lparr>fb_events := 0\<rparr>),
     be_add = (\<lambda>b. b\<lparr>fb_events := fb_events b + 1\<rparr>), be_remove = (\<lambda>b. b\<lparr>fb_events := fb_events b - 1\<rparr>),
     be_waiting = Loop_run_steps flag_api Loop_hooks 1 (4 + 0), be_between = Loop_run_steps flag_api Loop_hooks 1 0,
     be_racing = Loop_run_steps flag_api Loop_hooks 1 n, be_during = Loop_run_steps flag_api Loop_hooks 1 k\<rparr>"

lemma flag_body_ok:
  "event_base_laws (be_api (flag_body n k))" "be_base (flag_body n k) = Some (busy_base\<lparr>fb_events := 0\<rparr>)"
  "\<not> event_base_loop_returns (be_api (flag_body n k)) (busy_body (flag_body n k) (busy_base\<lparr>fb_events := 0\<rparr>))"
  "body_schedule (flag_body n k) (next_tid (loops_init :: flag_base loops)) 0 n k"
proof -
  show "event_base_laws (be_api (flag_body n k))" by (simp add: flag_body_def flag_api_laws)
  show "body_schedule (flag_body n k) (next_tid (loops_init :: flag_base loops)) 0 n k"
    by (simp add: body_schedule_def flag_body_def loops_init_def) (rule exI [of _ 0], simp)
qed (simp_all add: flag_body_def busy_body_def flag_api_def busy_base_def)

lemma wakeup_start_ok:
  "unat (wt_kernel wakeup_start) = 0" "umap_find (t_map new_manager) (uniqueID_atomic new_manager) = None"
  "event_new_ok good_env" "event_add_ok good_env" "fd_count wakeup_start = 0" "case_result_promise wakeup_start = None"
  "\<not> seen_queue wakeup_start"
  by (simp_all add: wakeup_start_def new_manager_def TimerManager_members_def good_env_def)

lemma count_test_succeeds_witness:
  "let body = (\<lambda>n k. event_FD_count_test_body (flag_body n k) count_write count_read close_nothing 5 (Some 9) True
        good_env 100 (concat (replicate 100 [Timeout good_env]) @ [Wakeup]) new_manager (\<lambda>a. None) wakeup_start loops_init)
    in (\<exists>lw1 h1 w1. body 0 4 = Inr (Some (CASE_SUCCESS, Some (Inr lw1)), h1, w1))
      \<and> (\<exists>h1 w1. body 4 0 = Inr (Some (CASE_SUCCESS, Some (Inl Terminate)), h1, w1))"
proof -
  let ?es = "concat (replicate 100 [Timeout good_env]) @ [Wakeup]"
  let ?body = "\<lambda>n k. event_FD_count_test_body (flag_body n k) count_write count_read close_nothing 5 (Some 9) True
        good_env 100 ?es new_manager (\<lambda>a. None) wakeup_start loops_init"
  have "100 \<le> timeouts (concat (replicate 100 [Timeout good_env]))" by (simp add: timeouts_def concat_replicate_single)
  then have es: "\<exists>ys zs. ?es = ys @ Wakeup # zs \<and> 100 \<le> timeouts ys" by blast
  note result = count_test_succeeds [OF count_laws wakeup_start_ok(1-6) flag_body_ok, of _ _ close_nothing 5 9 100 ?es "\<lambda>a. None",
      unfolded if_P [OF es]]
  have "\<exists>lw1 h1 w1. ?body 0 4 = Inr (Some (CASE_SUCCESS, Some (Inr lw1)), h1, w1)"
    using result [of 0 4] by (auto simp: Let_def split: if_split_asm)
  moreover have "\<exists>h1 w1. ?body 4 0 = Inr (Some (CASE_SUCCESS, Some (Inl Terminate)), h1, w1)"
    using result [of 4 0] by (auto simp: Let_def split: if_split_asm)
  ultimately show ?thesis by (simp only: Let_def simp_thms)
qed

text \<open>The queue test tests the scheduler as much as the code: with the sends read one by one it
  waits for ever, although all of them arrive; with the same sends read at once it succeeds.\<close>
theorem queue_test_hangs:
  assumes "eventfd_laws write_fd read_fd efd counter" and "counter (wt_kernel w) = 0"
    and "umap_find (t_map m) (uniqueID_atomic m) = None" and "event_new_ok e" and "event_add_ok e"
    and "fd_count w = 0" and "case_result_promise w = None" and "\<not> seen_queue w" and "be_base be = Some b"
  shows "(\<exists>h1 w1. event_FD_queue_counter_test_body be write_fd read_fd close_fd efd (Some ev) True e a
        (concat (replicate k [Timeout e, Wakeup])) m h w lw = Inr (None, h1, w1))
    \<and> (\<exists>x h1 w1. event_FD_queue_counter_test_body be write_fd read_fd close_fd efd (Some ev) True e a
        (replicate 100 (Timeout e) @ [Wakeup]) m h w lw = Inr (Some (CASE_SUCCESS, x), h1, w1))"
proof
  have run: "\<exists>x h1 w1. event_FD_queue_counter_test_body be write_fd read_fd close_fd efd (Some ev) True e a es m h w lw =
      Inr (if promise_set True 100 0 False es then Some (CASE_SUCCESS, x) else None, h1, w1)" for es
  proof -
    have f: "seen_queue w = False" using assms(8) by simp
    show ?thesis
      unfolding event_FD_queue_counter_test_body_def
      by (rule counted_body [where cb = "onEVFDRead_002 read_fd" and a = a and es = es and ev = ev,
            OF assms(1-7,9) callbacks_count(2) [OF assms(1)]])
        (unfold f, blast)
  qed
  show "\<exists>h1 w1. event_FD_queue_counter_test_body be write_fd read_fd close_fd efd (Some ev) True e a
        (concat (replicate k [Timeout e, Wakeup])) m h w lw = Inr (None, h1, w1)"
    using run [of "concat (replicate k [Timeout e, Wakeup])"] by (simp only: one_by_one if_False) blast
  have "promise_set True 100 0 False (replicate 100 (Timeout e) @ [Wakeup])"
    using all_at_once [of 100 0 False e] by simp
  then show "\<exists>x h1 w1. event_FD_queue_counter_test_body be write_fd read_fd close_fd efd (Some ev) True e a
        (replicate 100 (Timeout e) @ [Wakeup]) m h w lw = Inr (Some (CASE_SUCCESS, x), h1, w1)"
    using run [of "replicate 100 (Timeout e) @ [Wakeup]"] by (simp only: if_True)
qed

lemma queue_test_hangs_witness:
  "\<exists>h1 w1. event_FD_queue_counter_test_body (flag_body 0 4) count_write count_read close_nothing 5 (Some 9) True good_env 100
      (concat (replicate 200 [Timeout good_env, Wakeup])) new_manager (\<lambda>a. None) wakeup_start loops_init = Inr (None, h1, w1)"
  by (rule queue_test_hangs [OF count_laws wakeup_start_ok flag_body_ok(2), THEN conjunct1])

end
