(* ===== verification/TestProgram.thy ===== *)
theory TestProgram
  imports TestHarness WakeupTests TimerExamples
begin

text \<open>
  The test program (test/example.cpp) with its cases: the environments and case pools of
  test/timerManagerTest and test/eventFdTest, the bodies for the timer manager
  (test/timerManagerTest/testBody/testCasesBody.hpp), and \<open>main\<close>: the manager it makes
  and its timer, the project, the results, and the deletion of the manager.
\<close>

section \<open>The bodies for the timer manager\<close>

definition EXCEPT_EQ :: "'e \<Rightarrow> 'e \<Rightarrow> case_result" where
  "EXCEPT_EQ except_result real_result = (if except_result = real_result then CASE_SUCCESS else CASE_FAIL)"

text \<open>
  The comparison in the bodies is one of two arrays, and so of the addresses \<open>l1\<close> and \<open>l2\<close> of two
  string literals. The first body does what the first block of \<open>timerManagerExample()\<close> does.
\<close>

definition TM_basic_body ::
    "event_env \<Rightarrow> ptr \<Rightarrow> addr \<Rightarrow> event_env list \<Rightarrow> ptr \<Rightarrow> ptr
      \<Rightarrow> (timer_error + case_result \<times> int \<times> string list) option" where
  "TM_basic_body e p a es l1 l2 =
     map_option (map_sum id (\<lambda>(m, h, w). (EXCEPT_EQ l1 l2, w))) (timerManagerExample_counting e 500 p a es [])"

definition TM_timerService_body ::
    "('u, 'w) user_code \<Rightarrow> 'u \<Rightarrow> event_env \<Rightarrow> addr \<Rightarrow> event_env list \<Rightarrow> ptr \<Rightarrow> ptr
      \<Rightarrow> 'u timer_manager \<Rightarrow> 'u timer sheap \<Rightarrow> 'w
      \<Rightarrow> (timer_error + case_result \<times> 'u timer_manager \<times> 'u timer sheap \<times> 'w) option" where
  "TM_timerService_body uc log e a es l1 l2 m h w =
     (let (i, m1, h1) = TimerManager_getTimer a m h
      in case heap_call (Timer_startAfter e 1 100 2 (UserHandler log)) a h1 of
           None \<Rightarrow> None
         | Some (r, h2) \<Rightarrow>
             Some (map_sum id (\<lambda>(h3, w1). (EXCEPT_EQ l1 l2, m1, shared_drop a h3, w1))
               (heap_timeouts uc es a h2 w)))"

text \<open>So nothing the timers do can make them fail; only the addresses matter.\<close>

lemma map_sum_Inr: "map_sum f g x = Inr y \<longleftrightarrow> (\<exists>z. x = Inr z \<and> y = g z)"
  by (cases x) auto

lemma tm_bodies_check_nothing:
  "TM_basic_body e p a es l1 l2 = Some (Inr (r, w)) \<Longrightarrow> r = CASE_SUCCESS \<longleftrightarrow> l1 = l2"
  "TM_timerService_body uc log e a es l1 l2 m h v = Some (Inr (r, m1, h1, v1)) \<Longrightarrow> r = CASE_SUCCESS \<longleftrightarrow> l1 = l2"
  by (auto simp: TM_basic_body_def TM_timerService_body_def EXCEPT_EQ_def map_sum_Inr Let_def
      split: prod.splits option.splits if_splits)

section \<open>The environments and the case pools\<close>

datatype env_function = TMBasicEnv | EventFDBasicEnv

datatype body_function = TMBasic | TMTimerService | EventFDBasic | EventFDCount | EventFDQueueCounter

text \<open>Both environments are null; what they print is the state.\<close>

definition TM_basic_env :: "string list \<Rightarrow> ptr \<times> string list" where
  "TM_basic_env out = (0, out @ [''prepare env is called''])"

definition TM_basic_env_destroy :: "ptr \<Rightarrow> string list \<Rightarrow> string list" where
  "TM_basic_env_destroy arg out = out @ [''destroy env is called'']"

definition event_FD_basic_env :: "string list \<Rightarrow> ptr \<times> string list" where
  "event_FD_basic_env out = (0, out @ [''prepare env is called''])"

definition event_FD_basic_env_destroy :: "ptr \<Rightarrow> string list \<Rightarrow> string list" where
  "event_FD_basic_env_destroy arg out = out @ [''destroy env is called'']"

type_synonym pool_case = "(env_function, body_function, env_function) test_case"

definition TM_basic_case :: pool_case where
  "TM_basic_case = TestCase_new (Some TMBasicEnv) (Some TMBasic) (Some TMBasicEnv)
     ''TM basic case'' ''basic test of timer manager ''"

definition TM_timerService_case :: pool_case where
  "TM_timerService_case = TestCase_new (Some TMBasicEnv) (Some TMTimerService) (Some TMBasicEnv)
     ''TM timer service case'' ''basic test of timer service ''"

definition event_FD_basic_case :: pool_case where
  "event_FD_basic_case = TestCase_new (Some EventFDBasicEnv) (Some EventFDBasic) (Some EventFDBasicEnv)
     ''event_FD basic case'' ''basic test of event fd ''"

definition event_FD_count_case :: pool_case where
  "event_FD_count_case = TestCase_new (Some EventFDBasicEnv) (Some EventFDCount) (Some EventFDBasicEnv)
     ''event_FD fd count case'' ''basic test of event fd count''"

definition event_FD_queue_counter_case :: pool_case where
  "event_FD_queue_counter_case = TestCase_new (Some EventFDBasicEnv) (Some EventFDQueueCounter) (Some EventFDBasicEnv)
     ''event_FD fd queue counter case'' ''basic test of event fd count''"

text \<open>The cases are at the addresses 0 to 4.\<close>

definition case_pool :: "addr \<Rightarrow> pool_case" where
  "case_pool k =
     (if k = 0 then TM_basic_case else if k = 1 then TM_timerService_case
      else if k = 2 then event_FD_basic_case else if k = 3 then event_FD_count_case
      else event_FD_queue_counter_case)"

text \<open>The functions, over what the bodies do to the rest \<open>'x\<close> of the program.\<close>

definition pool_functions ::
    "(body_function \<Rightarrow> 'x \<Rightarrow> (case_result \<times> 'x) option)
      \<Rightarrow> (env_function, body_function, env_function, string list \<times> 'x) test_functions" where
  "pool_functions bodies =
     \<lparr>call_prepare = (\<lambda>p (out, x).
        let (a, out1) = (case p of TMBasicEnv \<Rightarrow> TM_basic_env out | EventFDBasicEnv \<Rightarrow> event_FD_basic_env out)
        in (a, out1, x)),
      call_body = (\<lambda>b a (out, x). map_option (\<lambda>(r, x1). (r, out, x1)) (bodies b x)),
      call_destroy = (\<lambda>d a (out, x).
        (case d of TMBasicEnv \<Rightarrow> TM_basic_env_destroy a out | EventFDBasicEnv \<Rightarrow> event_FD_basic_env_destroy a out, x))\<rparr>"

definition AddCases_timerManager :: "test_suit \<Rightarrow> test_error + test_suit" where
  "AddCases_timerManager t =
     (case TestSuit_addCase 0 t of Inl err \<Rightarrow> Inl err | Inr t1 \<Rightarrow> TestSuit_addCase 1 t1)"

definition AddCases_eventFd :: "test_suit \<Rightarrow> test_error + test_suit" where
  "AddCases_eventFd t =
     (case TestSuit_addCase 2 t of
        Inl err \<Rightarrow> Inl err
      | Inr t1 \<Rightarrow> (case TestSuit_addCase 3 t1 of Inl err \<Rightarrow> Inl err | Inr t2 \<Rightarrow> TestSuit_addCase 4 t2))"

section \<open>The whole program\<close>

text \<open>
  What \<open>main\<close> meets outside of its code: libevent, where the manager's loop and the timer of
  \<open>main\<close> are made, the functions of the two timers, and what the other threads do while the
  manager is made (\<open>me_between\<close>) and while it is deleted (the others, see \<open>TimerManager_destroy\<close>).
\<close>

record ('b, 'u) main_env =
  me_api :: "'b event_base_api"
  me_audit_env :: event_env
  me_timer_env :: event_env
  me_add :: "'b \<Rightarrow> 'b"
  me_remove :: "'b \<Rightarrow> 'b"
  me_loop_at :: addr
  me_base :: "'b option"
  me_timer_at :: addr
  me_audit :: 'u
  me_log :: 'u
  me_between :: "'b loops \<Rightarrow> 'b loops"
  me_before :: "'b loops \<Rightarrow> 'b loops"
  me_racing :: "'b loops \<Rightarrow> 'b loops"
  me_during :: "'b loops \<Rightarrow> 'b loops"

datatype main_error = ManagerError loop_error | HarnessError test_error | DanglingTimer

text \<open>What the bodies work on: the manager \<open>instance()\<close>, its timers, the loops, and the rest.\<close>

type_synonym ('b, 'u, 'x) main_state = "'u timer_manager \<times> 'u timer sheap \<times> 'b loops \<times> 'x"

text \<open>
  The first statements of \<open>main\<close>: the first call of \<open>instance()\<close> makes the manager, with a loop of
  its own; its timer is started for good, and the only pointer to it that remains is the map's.
  (The threshold of the log, set before, does not matter for anything else.)
\<close>

definition main_timer ::
    "('b, 'u) main_env \<Rightarrow> 'b loops \<Rightarrow> main_error + 'u timer_manager \<times> 'u timer sheap \<times> 'b loops" where
  "main_timer me w =
     (case TimerManager_new Loop_hooks (me_audit_env me) (me_add me) (me_between me) (me_loop_at me) (me_base me)
             None 0 (me_audit me) w of
        (Inl err, w1) \<Rightarrow> Inl (ManagerError err)
      | (Inr m, w1) \<Rightarrow>
          (let (i, m1, h1) = TimerManager_getTimer (me_timer_at me) m (\<lambda>a. None)
           in case heap_call (Timer_startForever (me_timer_env me) 1000 (UserHandler (me_log me))) (me_timer_at me) h1 of
                None \<Rightarrow> Inl DanglingTimer
              | Some (r, h2) \<Rightarrow>
                  Inr (m1, shared_drop (me_timer_at me) h2,
                    if r then change_base (me_add me) (me_loop_at me) w1 else w1)))"

text \<open>
  \<open>main\<close>, with the values \<open>n1\<close> and \<open>n2\<close> that the suites' \<open>caseID\<close> happen to have: what it prints in
  the end, the value it is about to return, and how the deletion of the manager before that ends
  (\<open>None\<close>: not at all).
\<close>

definition test_main ::
    "('b, 'u) main_env \<Rightarrow> (body_function \<Rightarrow> ('b, 'u, 'x) main_state \<Rightarrow> (case_result \<times> ('b, 'u, 'x) main_state) option)
      \<Rightarrow> ((int \<times> addr) list \<Rightarrow> (int \<times> addr) list)
      \<Rightarrow> ((env_function option \<times> addr list) list \<Rightarrow> (env_function option \<times> addr list) list)
      \<Rightarrow> ((int \<times> test_suit) list \<Rightarrow> (int \<times> test_suit) list) \<Rightarrow> int \<Rightarrow> int \<Rightarrow> 'b loops \<Rightarrow> 'x
      \<Rightarrow> main_error + result_line list \<times> int \<times> (destroy_error + 'u timer sheap \<times> 'b loops) option" where
  "test_main me bodies o1 o2 o3 n1 n2 w x =
     (case main_timer me w of
        Inl err \<Rightarrow> Inl err
      | Inr (m, h, w1) \<Rightarrow>
     (case AddCases_timerManager (TestSuit_new n1 ''timerManagerSuit'') of
        Inl err \<Rightarrow> Inl (HarnessError err)
      | Inr t1 \<Rightarrow>
     (case AddCases_eventFd (TestSuit_new n2 ''eventFdSuit'') of
        Inl err \<Rightarrow> Inl (HarnessError err)
      | Inr t2 \<Rightarrow>
     (case test_program (pool_functions bodies) o1 o2 o3 [t1, t2]
             \<lparr>te_cases = case_pool, te_results = [], te_out = [], te_state = ([], m, h, w1, x)\<rparr> of
        Inl err \<Rightarrow> Inl (HarnessError err)
      | Inr (ls, r, v) \<Rightarrow>
          (case te_state v of (out, m2, h2, w2, x2) \<Rightarrow>
             Inr (ls, r, TimerManager_destroy (me_api me) Loop_hooks (me_remove me) (me_before me) (me_racing me)
                           (me_during me) (me_loop_at me) (me_loop_at me) m2 h2 w2))))))"

lemma cases_added:
  "n1 + 2 < 2 ^ 31 \<Longrightarrow> AddCases_timerManager (TestSuit_new n1 name) =
    Inr \<lparr>suit_name = name, caseID = n1 + 2, suit_cases = [(n1 + 1, 1), (n1, 0)]\<rparr>"
  "n2 + 3 < 2 ^ 31 \<Longrightarrow> AddCases_eventFd (TestSuit_new n2 name) =
    Inr \<lparr>suit_name = name, caseID = n2 + 3, suit_cases = [(n2 + 2, 4), (n2 + 1, 3), (n2, 2)]\<rparr>"
  by (simp_all add: AddCases_timerManager_def AddCases_eventFd_def TestSuit_new_def TestSuit_addCase_def
      umap_assign_def Let_def)

text \<open>The timer of \<open>main\<close> is armed and only the map has a pointer to it.\<close>

definition main_timer_armed :: "addr \<Rightarrow> 'u timer_manager \<Rightarrow> 'u timer sheap \<Rightarrow> bool" where
  "main_timer_armed a m h \<longleftrightarrow> (\<exists>i t. (i, a) \<in> set (t_map m) \<and> h a = Some (t, 1) \<and> t_event t \<noteq> None)"

lemma manager_new: "TimerManager_new hk e add f a b l t u w = (Inr m, w1) \<Longrightarrow> m = TimerManager_members e u"
  by (auto simp: TimerManager_new_def Let_def split: prod.splits option.splits sum.splits)

lemma main_timer_start:
  assumes "event_new_ok (me_timer_env me)" and "event_add_ok (me_timer_env me)"
    and new: "TimerManager_new Loop_hooks (me_audit_env me) (me_add me) (me_between me) (me_loop_at me) (me_base me)
      None 0 (me_audit me) w = (Inr m0, v)"
  obtains m h w1 where "main_timer me w = Inr (m, h, w1)" "main_timer_armed (me_timer_at me) m h"
proof -
  let ?c = "change_base (me_add me) (me_loop_at me) v"
  obtain m h where "main_timer me w = Inr (m, h, ?c)" "main_timer_armed (me_timer_at me) m h"
    using assms unfolding manager_new [OF new]
    by (simp add: main_timer_def main_timer_armed_def TimerManager_members_def TimerManager_getTimer_def
        TimerManager_getUniqueID_def heap_call_def Timer_startForever_def Timer_startRounds_def Timer_new_def
        shared_new_def shared_copy_def shared_drop_def umap_find_def umap_emplace_def Let_def)
  then show thesis by (rule that)
qed

text \<open>
  Bodies that return, with the answers \<open>ans\<close>, and leave the timer of \<open>main\<close> alone.
\<close>

definition bodies_answer ::
    "addr \<Rightarrow> (body_function \<Rightarrow> case_result)
      \<Rightarrow> (body_function \<Rightarrow> ('b, 'u, 'x) main_state \<Rightarrow> (case_result \<times> ('b, 'u, 'x) main_state) option) \<Rightarrow> bool" where
  "bodies_answer a ans bodies \<longleftrightarrow>
     (\<forall>b m h w x. main_timer_armed a m h \<longrightarrow>
       (\<exists>m1 h1 w1 x1. bodies b (m, h, w, x) = Some (ans b, m1, h1, w1, x1) \<and> main_timer_armed a m1 h1))"

lemma pool_functions_answer:
  assumes "bodies_answer a ans bodies"
  shows "answers (\<lambda>(out, m, h, w, x). main_timer_armed a m h) (\<lambda>p. 0) (\<lambda>b p. ans b) (pool_functions bodies)"
  using assms
  by (auto simp: answers_def bodies_answer_def pool_functions_def TM_basic_env_def event_FD_basic_env_def
      split: env_function.split)

lemma armed_not_destroyed:
  assumes "main_timer_armed b m h"
  shows "TimerManager_destroy api hk remove between racing during a a m h w \<noteq> Some (Inr s)"
  using assms unfolding main_timer_armed_def by (elim exE conjE) (rule tm_destroy_own_loop_fails)

text \<open>An instance, where the second body is the one of the repository.\<close>

definition sample_main_env :: "(flag_base, unit) main_env" where
  "sample_main_env =
     \<lparr>me_api = flag_api, me_audit_env = good_env, me_timer_env = good_env,
      me_add = (\<lambda>b. b\<lparr>fb_events := fb_events b + 1\<rparr>), me_remove = (\<lambda>b. b\<lparr>fb_events := fb_events b - 1\<rparr>),
      me_loop_at = 7, me_base = Some (busy_base\<lparr>fb_events := 0\<rparr>), me_timer_at = 100, me_audit = (), me_log = (),
      me_between = id, me_before = id, me_racing = id, me_during = id\<rparr>"

lemma sample_main_env_simps [simp]:
  "me_timer_env sample_main_env = good_env" "me_timer_at sample_main_env = 100"
  by (simp_all add: sample_main_env_def)

lemma sample_manager_new:
  obtains m v where "TimerManager_new Loop_hooks (me_audit_env sample_main_env) (me_add sample_main_env)
    (me_between sample_main_env) (me_loop_at sample_main_env) (me_base sample_main_env) None 0
    (me_audit sample_main_env) loops_init = (Inr m, v)"
proof -
  have "\<exists>m v. TimerManager_new Loop_hooks (me_audit_env sample_main_env) (me_add sample_main_env)
    (me_between sample_main_env) (me_loop_at sample_main_env) (me_base sample_main_env) None 0
    (me_audit sample_main_env) loops_init = (Inr m, v)"
    by (simp add: sample_main_env_def TimerManager_new_def TimerManager_init_def loop_eval)
  then show thesis using that by blast
qed

definition sample_service ::
    "(flag_base, unit, string list) main_state \<Rightarrow> (case_result \<times> (flag_base, unit, string list) main_state) option" where
  "sample_service = (\<lambda>(m, h, w, out).
     case TM_timerService_body \<lparr>call_user = (\<lambda>u t out. (t, out @ [''TM_timerService_body running''])),
       call_cb = (\<lambda>c p n t out. (0, t, out))\<rparr> () good_env 200 [good_env, good_env] 4096 4096 m h out of
       Some (Inr (r, m1, h1, out1)) \<Rightarrow> Some (r, m1, h1, w, out1)
     | _ \<Rightarrow> None)"

definition sample_bodies ::
    "bool \<Rightarrow> body_function \<Rightarrow> (flag_base, unit, string list) main_state
      \<Rightarrow> (case_result \<times> (flag_base, unit, string list) main_state) option" where
  "sample_bodies hangs b s =
     (case b of
        TMTimerService \<Rightarrow> sample_service s
      | EventFDQueueCounter \<Rightarrow> if hangs then None else Some (CASE_SUCCESS, s)
      | EventFDCount \<Rightarrow> Some (CASE_FAIL, s)
      | _ \<Rightarrow> Some (CASE_SUCCESS, s))"

lemma sample_service_ok:
  assumes "main_timer_armed 100 m h"
  shows "\<exists>m1 h1 w1 x1. sample_service (m, h, w, x) = Some (CASE_SUCCESS, m1, h1, w1, x1) \<and> main_timer_armed 100 m1 h1"
  using assms
  by (auto simp: sample_service_def TM_timerService_body_def main_timer_armed_def TimerManager_getTimer_def
      TimerManager_getUniqueID_def heap_call_def heap_timeouts_def shared_new_def shared_copy_def shared_drop_def
      umap_emplace_def umap_find_def EXCEPT_EQ_def Timer_startAfter_def Timer_startOnce_def Timer_startRounds_def
      Timer_new_def good_env_def Timer_pending_def Timer_eventHandler_def after_lambda_def Timer_reset_def
      event_del_def Let_def)

lemma sample_bodies_answer:
  "bodies_answer 100 (\<lambda>b. if b = EventFDCount then CASE_FAIL else CASE_SUCCESS) (sample_bodies False)"
  using sample_service_ok
  by (auto simp: bodies_answer_def sample_bodies_def split: body_function.split)

text \<open>
  A body that does not return stops the whole program: nothing is dumped, not even the results of
  the suite that has ended before.
\<close>

lemma test_main_hangs:
  "test_main sample_main_env (sample_bodies True) id id id 0 0 loops_init [] = Inl (HarnessError BodyHangs)"
proof -
  obtain m v where new: "TimerManager_new Loop_hooks (me_audit_env sample_main_env) (me_add sample_main_env)
    (me_between sample_main_env) (me_loop_at sample_main_env) (me_base sample_main_env) None 0
    (me_audit sample_main_env) loops_init = (Inr m, v)" by (rule sample_manager_new)
  obtain m h w where start: "main_timer sample_main_env loops_init = Inr (m, h, w)" "main_timer_armed 100 m h"
    using main_timer_start [OF _ _ new] by (auto simp: good_env_def)
  obtain m1 h1 w1 x1 where service: "sample_service (m, h, w, []) = Some (CASE_SUCCESS, m1, h1, w1, x1)"
    using sample_service_ok [OF start(2)] by blast
  show ?thesis
    by (simp add: test_main_def start(1) service cases_added test_program_def TestProject_run_def TestProject_add_suit_def
        TestProject_new_def umap_assign_def ADD_SUIT_INFO_def TestSuit_run_def add_to_group_def case_pool_def
        TM_basic_case_def TM_timerService_case_def event_FD_basic_case_def event_FD_count_case_def
        event_FD_queue_counter_case_def TestCase_new_def TestCase_run_body_def REC_RESULT_def pool_functions_def
        TM_basic_env_def TM_basic_env_destroy_def event_FD_basic_env_def sample_bodies_def Let_def)
qed

section \<open>Properties\<close>

text \<open>C36: When the manager can be made, its timer started, every body returns and leaves the timer of
  \<open>main\<close> armed, and the numbers the suites happen to count from are below \<open>2 ^ 31 - 2\<close> and
  \<open>2 ^ 31 - 3\<close>, the test program runs all five cases, whatever the orders of its maps: the total
  has every body once, and \<open>main\<close> is about to return the negated number of those that did not
  succeed. (A body that answers \<open>CASE_STUB\<close> counts as neither; one that does not return, as the fifth
  may, lets the program hang with nothing dumped.) But the deletion of the manager before the
  return never succeeds: its loop is destroyed before the map that holds the timer of \<open>main\<close>.\<close>
theorem test_main_counts:
  assumes "reorders o1" and "reorders o2" and "reorders o3" and "n1 + 2 < 2 ^ 31" and "n2 + 3 < 2 ^ 31"
    and "TimerManager_new Loop_hooks (me_audit_env me) (me_add me) (me_between me) (me_loop_at me) (me_base me)
      None 0 (me_audit me) w = (Inr m, v)"
    and "event_new_ok (me_timer_env me)" and "event_add_ok (me_timer_env me)"
    and "bodies_answer (me_timer_at me) ans bodies"
    and "rs = [ans TMBasic, ans TMTimerService, ans EventFDBasic, ans EventFDCount, ans EventFDQueueCounter]"
    and "p = length (filter (\<lambda>r. r = CASE_SUCCESS) rs)"
    and "f = length (filter (\<lambda>r. r \<noteq> CASE_SUCCESS \<and> r \<noteq> CASE_STUB) rs)"
  shows "\<exists>ls d. test_main me bodies o1 o2 o3 n1 n2 w x = Inr (ls, - int f, d)
    \<and> last ls = ShowTotal (int p + int f) (int p) (int f) \<and> (\<forall>s. d \<noteq> Some (Inr s))"
proof -
  let ?t1 = "\<lparr>suit_name = ''timerManagerSuit'', caseID = n1 + 2, suit_cases = [(n1 + 1, 1), (n1, 0)]\<rparr>"
  let ?t2 = "\<lparr>suit_name = ''eventFdSuit'', caseID = n2 + 3, suit_cases = [(n2 + 2, 4), (n2 + 1, 3), (n2, 2)]\<rparr>"
  let ?env = "\<lambda>p :: env_function. 0 :: ptr" and ?ans = "\<lambda>b (p :: ptr). ans b"
  obtain m1 h1 w1 where start: "main_timer me w = Inr (m1, h1, w1)" "main_timer_armed (me_timer_at me) m1 h1"
    using main_timer_start [OF assms(7,8,6)] by blast
  let ?w = "\<lparr>te_cases = case_pool, te_results = [], te_out = [], te_state = ([] :: string list, m1, h1, w1, x)\<rparr>"
  note pool = case_pool_def TM_basic_case_def TM_timerService_case_def event_FD_basic_case_def
    event_FD_count_case_def event_FD_queue_counter_case_def TestCase_new_def
  have runs: "te_results ?w = []" "\<forall>t \<in> set [?t1, ?t2]. \<forall>e \<in> set (suit_cases t). runnable (te_cases ?w (snd e))"
    by (simp_all add: pool runnable_def)
  have counts: "p = sum_list (map (\<lambda>t. passed (suite_outcomes ?env ?ans (te_cases ?w) t)) [?t1, ?t2])"
    "f = sum_list (map (\<lambda>t. failed (suite_outcomes ?env ?ans (te_cases ?w) t)) [?t1, ?t2])"
    unfolding assms(10-12)
    by (simp_all add: pool suite_outcomes_def case_outcome_def outcome_def passed_def failed_def)
  obtain ls v where run: "test_program (pool_functions bodies) o1 o2 o3 [?t1, ?t2] ?w = Inr (ls, - int f, v)"
    "(\<lambda>(out, m, h, w, x). main_timer_armed (me_timer_at me) m h) (te_state v)"
    "last ls = ShowTotal (int p + int f) (int p) (int f)"
    by (rule test_program_answers [OF pool_functions_answer [OF assms(9)] _ runs(1) assms(1-3) runs(2) counts])
      (use start(2) in auto)
  obtain out m2 h2 w2 x2 where v: "te_state v = (out, m2, h2, w2, x2)" by (metis prod_cases5)
  with run(2) have "main_timer_armed (me_timer_at me) m2 h2" by simp
  note never = armed_not_destroyed [OF this]
  show ?thesis
    using run(1,3)
    by (simp add: never test_main_def start(1) v cases_added(1) [OF assms(4)] cases_added(2) [OF assms(5)]
        del: split_paired_All)
qed

lemma test_main_counts_witness:
  "\<exists>ls d. test_main sample_main_env (sample_bodies False) rev id rev 7 (- 5) loops_init [] = Inr (ls, - 1, d)
    \<and> last ls = ShowTotal 5 4 1 \<and> (\<forall>s. d \<noteq> Some (Inr s))"
proof -
  obtain m v where new: "TimerManager_new Loop_hooks (me_audit_env sample_main_env) (me_add sample_main_env)
    (me_between sample_main_env) (me_loop_at sample_main_env) (me_base sample_main_env) None 0
    (me_audit sample_main_env) loops_init = (Inr m, v)" by (rule sample_manager_new)
  have "reorders id" "(7 :: int) + 2 < 2 ^ 31" "(- 5 :: int) + 3 < 2 ^ 31"
    "event_new_ok (me_timer_env sample_main_env)" "event_add_ok (me_timer_env sample_main_env)"
    "bodies_answer (me_timer_at sample_main_env) (\<lambda>b. if b = EventFDCount then CASE_FAIL else CASE_SUCCESS) (sample_bodies False)"
    using sample_bodies_answer by (simp_all add: reorders_def good_env_def)
  from test_main_counts [OF reorders_rev this(1) reorders_rev this(2,3) new this(4-6) refl refl refl, where x = "[]"]
  show ?thesis by simp
qed

end
