(* ===== verification/Spec2Isabelle.thy ===== *)
theory Spec2Isabelle
  imports ServerEnd Logger Examples TestProgram
begin

text \<open>
  A verification development for translib, a C++ library of network services over libevent:
  event loops in threads, timers, TCP servers and clients, the TPKT message framing, an HTTP
  server, wake-ups through eventfd, and a logger. File names below are relative to the
  repository (include/translib, src/translib, include/logger, src/logger, example, test).

  \<^bold>\<open>The program.\<close> A \<open>Loop\<close> (loop.h, loop.cpp) runs libevent's event loop, usually in a thread of
  its own, and registers itself in a static table. A \<open>Timer\<close> (timer.h, timer.cpp) is an event on
  a loop that calls a handler for a number of rounds; a \<open>TimerManager\<close> (timerManager.h,
  timerManager.cpp) hands out shared timers and audits them. A \<open>FrameLoop\<close> (frameLoop.h,
  frameLoop.cpp) is a loop with a timer that calls \<open>onFrame\<close>. A \<open>TcpSocket\<close> (tcpSocket.h,
  tcpSocket.cpp) wraps a bufferevent; \<open>TcpSession\<close> (tcpSession.h, tcpSession.cpp) is the server's
  end of a connection and \<open>TcpClient\<close> (tcpClient.h, tcpClient.cpp) the client's. A \<open>TcpServer\<close>
  (tcpServer.h, tcpServer.cpp) accepts connections on the loop of its master dispatcher and
  deals them to its dispatchers (tcpServerDispatcher.h, tcpServerDispatcher.cpp), frame loops
  that attach and drop sessions in their frames. \<open>TcpServerTPKT\<close> and \<open>TcpClientTPKT\<close>
  (tcpServerTPKT.h, tcpClientTPKT.h) cut the byte stream into messages. \<open>HttpServer\<close> and
  \<open>HttpRequest\<close> (httpServer.h, httpServer.cpp, httpRequest.h, httpRequest.cpp) route requests to
  handlers. \<open>EventFdServer\<close> and \<open>EventFdClient\<close> (eventServer.h, eventClient.h) wake a loop. Five
  example programs (example/) put the classes together, and a test program (test/) runs cases for
  the timers and the wake-ups under a harness of its own.

  \<^bold>\<open>The model.\<close> A class is a record of its members, a method \<open>C::m\<close> is a definition \<open>C_m\<close> that
  takes the object and returns it updated, with the method's result. A derived class extends
  the record of its base. Integers have their width (\<open>u8\<close>, \<open>u16\<close>, \<open>u32\<close>, \<open>u64\<close>). Null pointers
  are \<open>None\<close>; dereferencing one, \<open>std::terminate\<close>, exceptions and undefined behaviour are values of
  error types, so that their absence is something to prove. Objects behind \<open>std::shared_ptr\<close> are
  in a heap with use counts. A method that holds a mutex throughout is one step; where the code
  leaves a window, as between the statements of \<open>Loop::_run\<close>, the model has one step for each
  statement. Virtual functions that users override, and \<open>std::function\<close>s, are parameters.
  libevent, the kernel and \<open>evhttp\<close> are parameters too: what they return is an argument
  (\<open>event_env\<close>, \<open>attach_env\<close>, \<open>connect_env\<close>), or they are a record of functions
  (\<open>event_base_api\<close>, \<open>evbuffer_api\<close>, \<open>evhttp_api\<close>) over a type of their own, with a predicate
  that states what their documentation promises (\<open>event_base_laws\<close>, \<open>evbuffer_laws\<close>,
  \<open>evhttp_laws\<close>, \<open>eventfd_laws\<close>) and an instance of which it holds (\<open>flag_api\<close>, \<open>list_api\<close>,
  \<open>map_http\<close>, \<open>count_write\<close>).

  \<^bold>\<open>The theories.\<close>
  \<^item> \<open>Prelude\<close>: C++ integers, word lemmas, \<open>std::map\<close> and \<open>std::unordered_map\<close>, and the locales
    \<open>id_table\<close>, \<open>assign_table\<close> and \<open>emplace_table\<close> for a keyed table. They are interpreted in
    \<open>Event_Loop\<close> (the registry, also used for the handlers in \<open>Http\<close>), \<open>TimerManager\<close> (the timers)
    and \<open>TcpServerDispatcher\<close> (the sessions).
  \<^item> \<open>Streams\<close>: the locales \<open>input_stream\<close> and \<open>output_stream\<close>, what the framing needs of a socket;
    \<open>TcpSocket\<close> interprets them.
  \<^item> \<open>Shared\<close>: shared pointers, the invariant that use counts are the numbers of pointers.
  \<^item> \<open>Timer\<close>: all methods of the class, runs of timeouts, the invariant of an armed timer; how
    often each kind of start calls its handler.
  \<^item> \<open>Event_Loop\<close>: the class \<open>Loop\<close>, its registry and the threads in \<open>_run\<close>; the invariant of
    reachable states, the life cycle, what can go wrong in starting, stopping and destroying. The
    destructor takes as arguments what the other threads do between its \<open>stop\<close> and the test of the
    status in \<open>wait\<close>, and while \<open>wait\<close> is in \<open>join\<close>; the lemmas give its outcome for every number of
    steps that the loop's thread makes there.
  \<^item> \<open>TimerManager\<close>: the map of timers; use counts are exact, the audit is exact; the construction
    with the member loop, and the destruction of that loop before the map. \<open>ManagedTimers\<close>:
    a timer in the heap from \<open>getTimer\<close> over its timeouts to the audit or the kill that frees it.
  \<^item> \<open>FrameLoop\<close>: the frames of a loop, the end of a frame loop. \<open>TimedLoop\<close>: a thread in \<open>_run\<close> that
    calls the handler of a timer, until the loop is stopped or has no event left.
  \<^item> \<open>TcpSocket\<close>: sending, reading, and the graceful close as a life of a connection
    (\<open>conn_step\<close>); no byte is lost, duplicated or reordered.
  \<^item> \<open>Tpkt\<close>: both reading loops (\<open>partial_function\<close>, so a loop that hangs is \<open>None\<close>) and the
    sending routines; the round trip of messages over any splitting of the bytes.
  \<^item> \<open>TcpSession\<close>, \<open>TcpServerDispatcher\<close>: attaching, the callbacks, the action queue and \<open>onFrame\<close>,
    which refines a fold of the actions over a table of sessions; the session heap is exact.
  \<^item> \<open>Serving\<close>: a dispatcher driven by the frame timer of its loop, connections arriving between
    the frames. \<open>TpktServer\<close>: a TPKT server, from the accepted connection to the messages.
  \<^item> \<open>DispatcherEnd\<close>: the destructor of a dispatcher, its members and then its frame loop, which
    \<open>TcpServer\<close> uses: starting, stopping and destroying the loops, routing of sessions, the turns of
    the slavers. \<open>ServerEnd\<close>: what the destruction of a dispatcher does to its sessions, frame timer
    and loop, for any steps of its thread.
  \<^item> \<open>TcpClient\<close>: connecting, the events of a connection, and reconnecting. \<open>TpktClient\<close>:
    connecting to a port given as text (\<open>std::stoi\<close>).
  \<^item> \<open>Http\<close>: requests and replies as sequences of calls to \<open>evhttp\<close>, routing to handlers, and the
    destructor.
  \<^item> \<open>Logger\<close>: levels, lines and the two streams.
  \<^item> \<open>EventFd\<close>: the life of the server's event, and the wake-up counter under sends and reads.
  \<^item> \<open>ChainExample\<close>, \<open>TimerExamples\<close>, \<open>TcpExamples\<close>, \<open>HttpExamples\<close>, \<open>EventFdExamples\<close>, \<open>Examples\<close>: the example programs
    (example/timerExample.cpp, timerManagerExample.cpp, tcpExample.cpp, httpExample.cpp,
    eventFdExample.cpp, test.cpp) run on the model. They compose the components: a client's timer
    and framing with a TPKT server; a loop, its thread and the timer that stops it; a manager, its
    timers and their callbacks; an HTTP server from its construction to its destructor. Where a
    program sleeps, lists of timeouts are a parameter.
  \<^item> \<open>TestHarness\<close>: cases, suites and projects (test/include), with the functions of a case and the
    orders of the hash maps as parameters; every body is run once. \<open>WakeupTests\<close>: the bodies of
    test/eventFdTest, a managed timer that sends and a callback that counts, in any order of events,
    and the destructors of the server and the loop at the end of the scope. \<open>TestProgram\<close>: the
    bodies of test/timerManagerTest, the case pools, and \<open>main\<close> of test/example.cpp from the making of
    the manager \<open>instance()\<close> and its timer to their deletion; its lemmas carry the results of the
    harness over from a recorder of calls to bodies that change the program's state.

  \<^bold>\<open>Bounds.\<close> No fuel is used: runs are over lists of events, the loops of the framing and of
  \<open>onFrame\<close> are \<open>partial_function\<close>s whose termination is proved where it holds. Where a thread is
  let run (\<open>TimedLoop\<close>, \<open>ChainExample\<close>), it makes the four steps of \<open>_run\<close> up to the event loop, or the
  four behind it; for destructors the numbers of its steps are variables. Bodies of HTTP replies are below 4 GiB, which is what one \<open>evbuffer_remove\<close> reads.

  \<^bold>\<open>Not modelled.\<close> The calls of the logger in the other classes; the code for Windows and under
  \<open>#if 0\<close>; socket options and the conversion of addresses; data
  races on members that are not protected, beyond the interleavings of the statements of
  \<open>Loop::_run\<close> and of the methods; in the examples and the tests what is only logged, the part of
  \<open>tcpExample()\<close> under \<open>#if 0\<close>, the end of \<open>TKPT_example()\<close> after the key is pressed, and in the test
  program its log level. The bodies of \<open>test_main\<close> are a parameter: the model of each is a definition
  of its own. While a dispatcher's members are destroyed no frame runs, although its thread might
  still begin one. The files of test/ named stub.cpp, NonCopyable.hpp and testInclude.hpp have
  nothing to model, and of Singleton only \<open>Instance\<close> for the project is used.
\<close>

end
